(* ===== verification/Prelude.thy ===== *)
theory Prelude
  imports Main "HOL-Library.Word"
begin

text \<open>
  Shared vocabulary of the development: the machine integers of the source
  (\<open>u8\<close>, \<open>u32\<close>, \<open>u64\<close> and the two's-complement \<open>i32\<close>), the
  \<open>Result\<close> combinators the code threads with \<open>?\<close>, the slice accessors that
  return \<open>None\<close> out of range, the checked arithmetic of \<open>usize\<close> (64 bits), and
  big-endian byte strings with their arithmetic. Component theories use the
  collections \<open>result_simps\<close> and \<open>bytes_simps\<close> declared here.
\<close>

unbundle bit_operations_syntax

named_theorems result_simps \<open>simplification rules for the Result combinators\<close>
named_theorems bytes_simps \<open>lengths and values of big-endian byte strings\<close>

section \<open>Machine integers\<close>

type_synonym u8 = "8 word"
type_synonym u32 = "32 word"
type_synonym u64 = "64 word"
type_synonym i32 = "32 word"
type_synonym bytes = "u8 list"

text \<open>\<open>usize\<close> values are natural numbers below \<open>usize_limit\<close>; the operations
  that can leave that range are the checked ones below.\<close>

abbreviation usize_limit :: nat where
  "usize_limit \<equiv> 18446744073709551616"

definition usize_checked_add :: "nat \<Rightarrow> nat \<Rightarrow> nat option" where
  "usize_checked_add a b = (if a + b < usize_limit then Some (a + b) else None)"

definition usize_checked_mul :: "nat \<Rightarrow> nat \<Rightarrow> nat option" where
  "usize_checked_mul a b = (if a * b < usize_limit then Some (a * b) else None)"

text \<open>\<open>u32::try_from\<close> and \<open>i32::try_from\<close> on the integer types the code narrows.\<close>

definition u32_try_from_u64 :: "u64 \<Rightarrow> u32 option" where
  "u32_try_from_u64 v = (if unat v < 4294967296 then Some (word_of_nat (unat v)) else None)"

definition u32_try_from_i32 :: "i32 \<Rightarrow> u32 option" where
  "u32_try_from_i32 v = (if 0 \<le> sint v then Some v else None)"

definition i32_try_from_u32 :: "u32 \<Rightarrow> i32 option" where
  "i32_try_from_u32 v = (if unat v < 2147483648 then Some v else None)"

text \<open>\<open>usize::leading_zeros\<close> through the number of significant bits.\<close>

fun bit_len :: "nat \<Rightarrow> nat" where
  "bit_len n = (if n = 0 then 0 else Suc (bit_len (n div 2)))"

declare bit_len.simps [simp del]

definition usize_leading_zeros :: "nat \<Rightarrow> nat" where
  "usize_leading_zeros n = 64 - bit_len n"

section \<open>Result combinators\<close>

text \<open>\<open>rbind\<close> is the \<open>?\<close> operator, \<open>map_err\<close> and \<open>ok_or\<close> are the methods of
  the same name, \<open>rcollect\<close> is \<open>iter().map(f).collect::<Result<Vec<_>, _>>()\<close>, which
  stops at the first error, and \<open>res_ok\<close> is \<open>Result::ok\<close>.\<close>

definition rbind :: "'e + 'a \<Rightarrow> ('a \<Rightarrow> 'e + 'b) \<Rightarrow> 'e + 'b" where
  "rbind x f = (case x of Inl e \<Rightarrow> Inl e | Inr a \<Rightarrow> f a)"

definition map_err :: "('e \<Rightarrow> 'f) \<Rightarrow> 'e + 'a \<Rightarrow> 'f + 'a" where
  "map_err f x = (case x of Inl e \<Rightarrow> Inl (f e) | Inr a \<Rightarrow> Inr a)"

definition ok_or :: "'a option \<Rightarrow> 'e \<Rightarrow> 'e + 'a" where
  "ok_or x e = (case x of None \<Rightarrow> Inl e | Some a \<Rightarrow> Inr a)"

definition res_ok :: "'e + 'a \<Rightarrow> 'a option" where
  "res_ok x = (case x of Inl e \<Rightarrow> None | Inr a \<Rightarrow> Some a)"

fun rcollect :: "('a \<Rightarrow> 'e + 'b) \<Rightarrow> 'a list \<Rightarrow> 'e + 'b list" where
  "rcollect f [] = Inr []"
| "rcollect f (x # xs) = rbind (f x) (\<lambda>y. rbind (rcollect f xs) (\<lambda>ys. Inr (y # ys)))"

lemma rbind_Inr [simp, result_simps]: "rbind (Inr a) f = f a"
  by (simp add: rbind_def)

lemma rbind_Inl [simp, result_simps]: "rbind (Inl e) f = Inl e"
  by (simp add: rbind_def)

lemma map_err_Inr [simp, result_simps]: "map_err f (Inr a) = Inr a"
  by (simp add: map_err_def)

lemma map_err_Inl [simp, result_simps]: "map_err f (Inl e) = Inl (f e)"
  by (simp add: map_err_def)

lemma ok_or_simps [simp, result_simps]: "ok_or None e = Inl e" "ok_or (Some a) e = Inr a"
  by (simp_all add: ok_or_def)

lemma res_ok_simps [simp, result_simps]: "res_ok (Inl e) = None" "res_ok (Inr a) = Some a"
  by (simp_all add: res_ok_def)

lemma rbind_cong [fundef_cong]:
  "x = x' \<Longrightarrow> (\<And>a. x' = Inr a \<Longrightarrow> f a = g a) \<Longrightarrow> rbind x f = rbind x' g"
  by (cases x') auto

lemma rbind_eq_Inr: "rbind x f = Inr b \<longleftrightarrow> (\<exists>a. x = Inr a \<and> f a = Inr b)"
  by (cases x) auto

lemma map_err_eq_Inr: "map_err f x = Inr b \<longleftrightarrow> x = Inr b"
  by (cases x) auto

lemma ok_or_eq_Inr: "ok_or x e = Inr a \<longleftrightarrow> x = Some a"
  by (cases x) auto

lemmas result_Inr_iffs = rbind_eq_Inr map_err_eq_Inr ok_or_eq_Inr

lemma rcollect_eq_Inr: "rcollect f xs = Inr ys \<longleftrightarrow> map f xs = map Inr ys"
proof (induction xs arbitrary: ys)
  case Nil
  then show ?case by auto
next
  case (Cons x xs)
  then show ?case by (cases ys) (auto simp: rbind_eq_Inr)
qed

lemma rcollect_Inr:
  assumes "\<And>x. x \<in> set xs \<Longrightarrow> f x = Inr (g x)"
  shows "rcollect f xs = Inr (map g xs)"
  using assms by (simp add: rcollect_eq_Inr)

section \<open>Slices\<close>

definition list_get :: "'a list \<Rightarrow> nat \<Rightarrow> 'a option" where
  "list_get xs i = (if i < length xs then Some (xs ! i) else None)"

definition slice_get :: "'a list \<Rightarrow> nat \<Rightarrow> nat \<Rightarrow> 'a list option" where
  "slice_get xs a b = (if a \<le> b \<and> b \<le> length xs then Some (take (b - a) (drop a xs)) else None)"

definition slice_set :: "'a list \<Rightarrow> nat \<Rightarrow> 'a list \<Rightarrow> 'a list" where
  "slice_set xs a ys = take a xs @ ys @ drop (a + length ys) xs"

text \<open>\<open>Iterator::position\<close>.\<close>

fun list_position :: "('a \<Rightarrow> bool) \<Rightarrow> 'a list \<Rightarrow> nat option" where
  "list_position P [] = None"
| "list_position P (x # xs) = (if P x then Some 0 else map_option Suc (list_position P xs))"

lemma list_position_None: "list_position P xs = None \<longleftrightarrow> (\<forall>x \<in> set xs. \<not> P x)"
  by (induction xs) auto

lemma list_get_append [simp]: "list_get (x # xs) 0 = Some x"
  by (simp add: list_get_def)

lemma list_get_drop: "drop p xs = y # ys \<Longrightarrow> list_get xs p = Some y"
  by (metis list_get_def drop_eq_Nil2 list.discI not_le nth_via_drop)

lemma slice_get_drop:
  assumes "drop p xs = ys @ zs" and "p \<le> length xs"
  shows "slice_get xs p (p + length ys) = Some ys"
proof -
  have "length ys \<le> length xs - p"
    using arg_cong[OF assms(1), of length] by simp
  with assms show ?thesis by (simp add: slice_get_def)
qed

lemma slice_get_Some:
  "slice_get xs a b = Some ys \<Longrightarrow> a \<le> b \<and> b \<le> length xs \<and> length ys = b - a
     \<and> drop a xs = ys @ drop b xs"
proof -
  assume h: "slice_get xs a b = Some ys"
  then have le: "a \<le> b" "b \<le> length xs" and ys: "ys = take (b - a) (drop a xs)"
    by (auto simp: slice_get_def split: if_splits)
  have "drop a xs = take (b - a) (drop a xs) @ drop (b - a) (drop a xs)"
    by (rule append_take_drop_id[symmetric])
  with le ys show ?thesis by simp
qed

lemma length_slice_set [simp]:
  "a + length ys \<le> length xs \<Longrightarrow> length (slice_set xs a ys) = length xs"
  by (simp add: slice_set_def)

section \<open>Bits of a byte\<close>

lemma high_bit_clear: "(b::u8) AND 0x80 = 0 \<longleftrightarrow> unat b < 128"
proof -
  have "b AND 0x80 = 0 \<longleftrightarrow> \<not> bit b 7"
    using and_exp_eq_0_iff_not_bit[of b 7] by simp
  also have "bit b 7 \<longleftrightarrow> bit (unat b) 7"
    by (simp add: bit_unsigned_iff)
  also have "bit (unat b) 7 \<longleftrightarrow> odd (unat b div 128)"
    by (simp add: bit_iff_odd)
  also have "odd (unat b div 128) \<longleftrightarrow> 128 \<le> unat b"
  proof (cases "128 \<le> unat b")
    case True
    moreover have "unat b < 256" using unsigned_less[of b, where ?'a=nat] by simp
    ultimately have "unat b div 128 = 1" by linarith
    with True show ?thesis by simp
  next
    case False
    then show ?thesis by simp
  qed
  finally show ?thesis by auto
qed

lemma low_seven_bits: "unat ((b::u8) AND 0x7F) = unat b mod 128"
proof -
  have "b AND 0x7F = take_bit 7 b"
    by (simp add: take_bit_eq_mask mask_numeral)
  then have "unat (b AND 0x7F) = take_bit 7 (unat b)"
    by (simp only: unsigned_take_bit_eq)
  then show ?thesis by (simp add: take_bit_eq_mod)
qed

lemma unat_u8_less [simp]: "unat (b::u8) < 256"
  using unsigned_less[of b, where ?'a=nat] by simp

section \<open>Big-endian byte strings\<close>

text \<open>\<open>be_bytes n v\<close> is \<open>to_be_bytes\<close> of an \<open>n\<close>-byte integer; \<open>be_nat\<close> reads a
  byte string of any length, as \<open>from_be_bytes\<close> does at a fixed one.\<close>

primrec be_bytes :: "nat \<Rightarrow> nat \<Rightarrow> bytes" where
  "be_bytes 0 v = []"
| "be_bytes (Suc n) v = word_of_nat (v div 256 ^ n) # be_bytes n v"

primrec be_nat :: "bytes \<Rightarrow> nat" where
  "be_nat [] = 0"
| "be_nat (b # bs) = unat b * 256 ^ length bs + be_nat bs"

lemma length_be_bytes [simp, bytes_simps]: "length (be_bytes n v) = n"
  by (induction n) auto

lemma be_nat_less: "be_nat bs < 256 ^ length bs"
proof (induction bs)
  case Nil
  then show ?case by simp
next
  case (Cons b bs)
  have "unat b * 256 ^ length bs + be_nat bs < Suc (unat b) * 256 ^ length bs"
    using Cons by simp
  also have "\<dots> \<le> 256 * 256 ^ length bs"
    by (rule mult_right_mono) (use unat_u8_less[of b] in linarith, simp)
  finally show ?case by simp
qed

lemma be_nat_be_bytes [bytes_simps]: "be_nat (be_bytes n v) = v mod 256 ^ n"
proof (induction n)
  case 0
  then show ?case by simp
next
  case (Suc n)
  have "unat (word_of_nat (v div 256 ^ n) :: u8) = v div 256 ^ n mod 256"
    by (simp add: unat_of_nat)
  moreover have "v mod (256 ^ n * 256) = 256 ^ n * (v div 256 ^ n mod 256) + v mod 256 ^ n"
    by (rule mod_mult2_eq)
  ultimately show ?case using Suc
    by (simp add: mult.commute)
qed

lemma be_nat_append: "be_nat (xs @ ys) = be_nat xs * 256 ^ length ys + be_nat ys"
  by (induction xs) (auto simp: algebra_simps power_add)

lemma be_nat_eq_iff: "length xs = length ys \<Longrightarrow> be_nat xs = be_nat ys \<longleftrightarrow> xs = ys"
proof (induction xs ys rule: list_induct2)
  case Nil
  then show ?case by simp
next
  case (Cons x xs y ys)
  let ?m = "256 ^ length ys :: nat"
  have lx: "be_nat xs < ?m" and ly: "be_nat ys < ?m"
    using be_nat_less[of xs] be_nat_less[of ys] Cons.hyps by simp_all
  have "unat x = unat y \<and> be_nat xs = be_nat ys"
    if eq: "unat x * ?m + be_nat xs = unat y * ?m + be_nat ys"
  proof -
    have "(unat x * ?m + be_nat xs) div ?m = unat x" "(unat y * ?m + be_nat ys) div ?m = unat y"
      using lx ly by simp_all
    with eq have "unat x = unat y" by simp
    with eq show ?thesis by simp
  qed
  then show ?case using Cons by (auto simp: word_unat_eq_iff)
qed

lemma be_bytes_be_nat [simp]: "be_bytes (length bs) (be_nat bs) = bs"
  using be_nat_eq_iff[of "be_bytes (length bs) (be_nat bs)" bs] be_nat_less[of bs]
  by (simp add: bytes_simps)

lemma drop_be_bytes: "drop k (be_bytes n v) = be_bytes (n - k) v"
proof (induction n arbitrary: k)
  case 0
  then show ?case by simp
next
  case (Suc n)
  then show ?case by (cases k) auto
qed

lemma bit_len_bounds: "n < 2 ^ bit_len n \<and> (n \<noteq> 0 \<longrightarrow> 2 ^ (bit_len n - 1) \<le> n)"
proof (induction n rule: bit_len.induct)
  case (1 n)
  show ?case
  proof (cases "n = 0")
    case True
    then show ?thesis by (simp add: bit_len.simps)
  next
    case False
    note IH = "1"[OF False]
    have bl: "bit_len n = Suc (bit_len (n div 2))"
      using False by (simp add: bit_len.simps[of n])
    have up: "n < 2 * 2 ^ bit_len (n div 2)"
      using IH by (metis div_less_iff_less_mult mult.commute zero_less_numeral)
    show ?thesis
    proof (cases "n div 2 = 0")
      case True
      then show ?thesis using up False by (simp add: bl bit_len.simps[of 0])
    next
      case nz: False
      then have "bit_len (n div 2) \<noteq> 0" by (subst bit_len.simps) simp
      then have "2 ^ bit_len (n div 2) = 2 * (2::nat) ^ (bit_len (n div 2) - 1)"
        by (cases "bit_len (n div 2)") simp_all
      also have "\<dots> \<le> 2 * (n div 2)" using IH nz by simp
      also have "\<dots> \<le> n" by simp
      finally show ?thesis using up by (simp add: bl)
    qed
  qed
qed

lemma less_bit_len: "n < 2 ^ bit_len n"
  using bit_len_bounds by blast

lemma bit_len_le_iff: "bit_len n \<le> k \<longleftrightarrow> n < 2 ^ k"
proof
  assume "bit_len n \<le> k"
  then have "(2::nat) ^ bit_len n \<le> 2 ^ k" by (rule power_increasing) simp
  with less_bit_len[of n] show "n < 2 ^ k" by (rule less_le_trans)
next
  assume "n < 2 ^ k"
  show "bit_len n \<le> k"
  proof (cases "n = 0")
    case True
    then show ?thesis by (simp add: bit_len.simps)
  next
    case False
    with bit_len_bounds[of n] have "(2::nat) ^ (bit_len n - 1) \<le> n" by simp
    with \<open>n < 2 ^ k\<close> have "(2::nat) ^ (bit_len n - 1) < 2 ^ k" by (rule le_less_trans[rotated])
    then have "bit_len n - 1 < k" by (rule power_less_imp_less_exp[rotated]) simp
    then show ?thesis by linarith
  qed
qed

section \<open>Ranges of the machine integers\<close>

lemma unat_i32_less: "unat (v::32 word) < 4294967296"
  using unsigned_less[of v, where ?'a=nat] by simp

lemma sint_unat: "sint (v::i32) = (if unat v < 2147483648 then int (unat v) else int (unat v) - 4294967296)"
proof -
  have lt: "uint v < 4294967296" "0 \<le> uint v" using uint_lt2p[of v] by simp_all
  have "sint v = (uint v + 2147483648) mod 4294967296 - 2147483648"
    by (simp add: sint_uint signed_take_bit_eq_take_bit_shift take_bit_eq_mod)
  moreover have u: "int (unat v) = uint v" by simp
  moreover have "(uint v + 2147483648) mod 4294967296 = uint v + 2147483648" if "unat v < 2147483648"
    using that lt u by (intro mod_pos_pos_trivial) linarith+
  moreover have "(uint v + 2147483648) mod 4294967296 = uint v - 2147483648" if "\<not> unat v < 2147483648"
  proof -
    have "(uint v - 2147483648 + 4294967296) mod 4294967296 = (uint v - 2147483648) mod 4294967296"
      by (rule mod_add_self2)
    also have "\<dots> = uint v - 2147483648"
      using that lt u by (intro mod_pos_pos_trivial) linarith+
    finally show ?thesis by (simp add: add.commute)
  qed
  ultimately show ?thesis by simp
qed

lemma sint_nonneg: "0 \<le> sint (v::i32) \<longleftrightarrow> unat v < 2147483648"
proof (cases "unat v < 2147483648")
  case True
  then show ?thesis by (simp add: sint_unat)
next
  case False
  have "int (unat v) - 4294967296 < 0" using unat_i32_less[of v] by linarith
  with False show ?thesis by (simp add: sint_unat del: of_nat_unat)
qed

lemma unat_u64_less: "unat (v::u64) < 18446744073709551616"
  using unsigned_less[of v, where ?'a=nat] by simp

lemma unat_ucast_up_u64: "unat (ucast (v::u32) :: u64) = unat v"
proof -
  have "take_bit LENGTH(64) (unat v) = unat v"
    by (rule take_bit_nat_eq_self) (rule less_trans[OF unat_i32_less], simp)
  then show ?thesis by (simp only: unsigned_ucast_eq)
qed

lemma ucast_ucast_u64: "ucast (ucast (v::u32) :: u64) = v"
proof -
  have "take_bit LENGTH(32) (unat v) = unat v"
    by (rule take_bit_nat_eq_self) (use unat_i32_less[of v] in simp)
  then show ?thesis
    by (simp only: word_unat_eq_iff unsigned_ucast_eq[of "ucast v :: u64"] unat_ucast_up_u64)
qed

lemma mod_window_inj:
  assumes "(a + i) mod m = (a + j) mod m" "i < m" "j < (m::nat)"
  shows "i = j"
proof -
  have "int i mod int m = int j mod int m"
    using assms(1)
    by (metis (mono_tags, opaque_lifting) add_diff_cancel_left' mod_diff_left_eq of_nat_add of_nat_mod)
  then show ?thesis using assms(2,3) by simp
qed

section \<open>Invariants of step relations\<close>

text \<open>The contract of a property that every step of a system keeps, and what it gives for all reachable
  states.\<close>

locale invariant_system =
  fixes step :: "'s \<Rightarrow> 's \<Rightarrow> bool" and inv :: "'s \<Rightarrow> bool"
  assumes step_keeps: "step s s' \<Longrightarrow> inv s \<Longrightarrow> inv s'"
begin

lemma reachable_keeps: "step\<^sup>*\<^sup>* s s' \<Longrightarrow> inv s \<Longrightarrow> inv s'"
  by (induction rule: rtranclp_induct) (auto intro: step_keeps)

end

end
