(* ===== verification/Oid.thy ===== *)
theory Oid
  imports Prelude "HOL-Library.List_Lexorder"
begin

text \<open>
  Object identifiers (\<open>src/src/codec/oid.rs\<close>): the validated component vector
  with its component-wise order, the panicking and the fallible constructor, the
  dotted-decimal parser and printer, and the split into first, second and remaining
  arcs that the BER encoder uses. The struct's field is private and every constructor
  validates, so the type of object identifiers is the set of valid component vectors.
  The lemmas show that validation accepts exactly the structural rules of the type's
  documentation and that printing followed by parsing is the identity.
\<close>

section \<open>Errors\<close>

datatype parse_int_error = IntEmpty | InvalidDigit | PosOverflow

datatype OidErrorKind =
    EmptyString
  | LeadingDot
  | TrailingDot
  | ConsecutiveDots
  | LeadingZero string
  | TooFewComponents nat
  | InvalidFirstArc u32
  | InvalidSecondArc u32 u32
  | TooManySubIdentifiers nat
  | InvalidComponent string parse_int_error

datatype OidErrorCategory =
    EmptyStringCat
  | LeadingDotCat
  | TrailingDotCat
  | ConsecutiveDotsCat
  | LeadingZeroCat
  | TooFewComponentsCat
  | InvalidFirstArcCat
  | InvalidSecondArcCat
  | TooManySubIdentifiersCat
  | InvalidComponentCat

datatype ParseOidError = ParseOidError OidErrorKind

fun category :: "ParseOidError \<Rightarrow> OidErrorCategory" where
  "category (ParseOidError EmptyString) = EmptyStringCat"
| "category (ParseOidError LeadingDot) = LeadingDotCat"
| "category (ParseOidError TrailingDot) = TrailingDotCat"
| "category (ParseOidError ConsecutiveDots) = ConsecutiveDotsCat"
| "category (ParseOidError (LeadingZero part)) = LeadingZeroCat"
| "category (ParseOidError (TooFewComponents n)) = TooFewComponentsCat"
| "category (ParseOidError (InvalidFirstArc v)) = InvalidFirstArcCat"
| "category (ParseOidError (InvalidSecondArc f s)) = InvalidSecondArcCat"
| "category (ParseOidError (TooManySubIdentifiers n)) = TooManySubIdentifiersCat"
| "category (ParseOidError (InvalidComponent part src)) = InvalidComponentCat"

section \<open>Validation and the type\<close>

definition MAX_OID_SUB_IDENTIFIERS :: nat where
  "MAX_OID_SUB_IDENTIFIERS = 128"

fun validate_oid_components :: "u32 list \<Rightarrow> OidErrorKind + unit" where
  "validate_oid_components (first # second # rest) =
     (if first > 2 then Inl (InvalidFirstArc first)
      else if first \<le> 1 \<and> second > 39 then Inl (InvalidSecondArc first second)
      else if length (first # second # rest) > MAX_OID_SUB_IDENTIFIERS
        then Inl (TooManySubIdentifiers (length (first # second # rest)))
      else Inr ())"
| "validate_oid_components components = Inl (TooFewComponents (length components))"

text \<open>The structural rules as the documentation of the type states them.\<close>

definition valid_components :: "u32 list \<Rightarrow> bool" where
  "valid_components cs \<longleftrightarrow> 2 \<le> length cs \<and> length cs \<le> 128 \<and> unat (cs ! 0) \<le> 2
     \<and> (unat (cs ! 0) \<le> 1 \<longrightarrow> unat (cs ! 1) \<le> 39)"

lemma validate_oid_components_iff: "validate_oid_components cs = Inr () \<longleftrightarrow> valid_components cs"
proof (cases cs rule: validate_oid_components.cases)
  case (1 first second rest)
  have "first > 2 \<longleftrightarrow> \<not> unat first \<le> 2" "first \<le> 1 \<longleftrightarrow> unat first \<le> 1"
    "second > 39 \<longleftrightarrow> \<not> unat second \<le> 39"
    by (simp_all add: word_le_nat_alt word_less_nat_alt not_le)
  then show ?thesis
    unfolding 1 validate_oid_components.simps valid_components_def MAX_OID_SUB_IDENTIFIERS_def
    by simp
qed (simp_all add: valid_components_def)

typedef Oid = "{cs. valid_components cs}"
  morphisms as_slice Oid_of
proof
  show "[1, 3] \<in> {cs. valid_components cs}" by (simp add: valid_components_def)
qed

lemma as_slice_valid [simp]: "valid_components (as_slice oid)"
  using as_slice[of oid] by simp

lemma as_slice_Oid_of [simp]: "valid_components cs \<Longrightarrow> as_slice (Oid_of cs) = cs"
  by (simp add: Oid_of_inverse)

lemma Oid_of_as_slice [simp]: "Oid_of (as_slice oid) = oid"
  by (rule as_slice_inverse)

lemma Oid_eq_iff: "a = b \<longleftrightarrow> as_slice a = as_slice b"
  by (simp add: as_slice_inject)

text \<open>\<open>from_slice\<close> panics on invalid components: \<open>None\<close> is the panic.\<close>

definition from_slice :: "u32 list \<Rightarrow> Oid option" where
  "from_slice components =
     (case validate_oid_components components of Inl kind \<Rightarrow> None
      | Inr _ \<Rightarrow> Some (Oid_of components))"

definition oid_try_from :: "u32 list \<Rightarrow> ParseOidError + Oid" where
  "oid_try_from components =
     rbind (map_err ParseOidError (validate_oid_components components))
       (\<lambda>_. Inr (Oid_of components))"

text \<open>The derived \<open>Ord\<close> compares the component vectors lexicographically.\<close>

instantiation Oid :: linorder
begin

definition less_eq_Oid :: "Oid \<Rightarrow> Oid \<Rightarrow> bool" where
  "less_eq_Oid a b \<longleftrightarrow> as_slice a \<le> as_slice b"

definition less_Oid :: "Oid \<Rightarrow> Oid \<Rightarrow> bool" where
  "less_Oid a b \<longleftrightarrow> as_slice a < as_slice b"

instance
  by standard (auto simp: less_eq_Oid_def less_Oid_def Oid_eq_iff)

end

definition decompose :: "Oid \<Rightarrow> u32 \<times> u32 \<times> u32 list" where
  "decompose oid = (as_slice oid ! 0, as_slice oid ! 1, drop 2 (as_slice oid))"

lemma oid_arcs_cases:
  obtains a b rest where "as_slice oid = a # b # rest" "unat a \<le> 2" "unat a \<le> 1 \<longrightarrow> unat b \<le> 39"
    "length rest \<le> 126" "decompose oid = (a, b, rest)"
proof -
  have v: "valid_components (as_slice oid)" by simp
  then have "2 \<le> length (as_slice oid)" by (simp add: valid_components_def)
  then obtain a b rest where ab: "as_slice oid = a # b # rest"
    by (metis Suc_le_length_iff numeral_2_eq_2)
  show ?thesis
    by (rule that[of a b rest]) (use v ab in \<open>simp_all add: valid_components_def decompose_def\<close>)
qed

lemma oid_try_from_as_slice [simp]: "oid_try_from (as_slice oid) = Inr oid"
  using validate_oid_components_iff[of "as_slice oid"] by (simp add: oid_try_from_def)

lemma oid_try_from_valid: "valid_components cs \<Longrightarrow> oid_try_from cs = Inr (Oid_of cs)"
  using validate_oid_components_iff[of cs] by (simp add: oid_try_from_def)

lemma from_slice_valid: "valid_components cs \<Longrightarrow> from_slice cs = Some (Oid_of cs)"
  using validate_oid_components_iff[of cs] by (simp add: from_slice_def)

section \<open>Dotted-decimal parsing and printing\<close>

text \<open>\<open>str::parse::<u32>\<close>: an optional \<open>+\<close>, then decimal digits, each digit checked
  before the overflow of the shifted accumulator is reported.\<close>

definition to_digit :: "char \<Rightarrow> nat option" where
  "to_digit c = (let k = of_char c :: nat in if 48 \<le> k \<and> k \<le> 57 then Some (k - 48) else None)"

fun parse_digits :: "string \<Rightarrow> nat \<Rightarrow> parse_int_error + nat" where
  "parse_digits [] acc = Inr acc"
| "parse_digits (c # cs) acc =
     (case to_digit c of None \<Rightarrow> Inl InvalidDigit
      | Some d \<Rightarrow> if acc * 10 + d < 4294967296 then parse_digits cs (acc * 10 + d) else Inl PosOverflow)"

fun parse_u32 :: "string \<Rightarrow> parse_int_error + u32" where
  "parse_u32 [] = Inl IntEmpty"
| "parse_u32 (c # cs) =
     (if (c = CHR ''+'' \<or> c = CHR ''-'') \<and> cs = [] then Inl InvalidDigit
      else if c = CHR ''+'' then rbind (parse_digits cs 0) (\<lambda>n. Inr (word_of_nat n))
      else rbind (parse_digits (c # cs) 0) (\<lambda>n. Inr (word_of_nat n)))"

fun split_dot :: "string \<Rightarrow> string list" where
  "split_dot [] = [[]]"
| "split_dot (c # cs) =
     (if c = CHR ''.'' then [] # split_dot cs
      else case split_dot cs of [] \<Rightarrow> [[c]] | p # ps \<Rightarrow> (c # p) # ps)"

fun contains_double_dot :: "string \<Rightarrow> bool" where
  "contains_double_dot (a # b # cs) =
     (a = CHR ''.'' \<and> b = CHR ''.'' \<or> contains_double_dot (b # cs))"
| "contains_double_dot cs = False"

definition parse_component :: "string \<Rightarrow> ParseOidError + u32" where
  "parse_component part =
     rbind (map_err (\<lambda>source. ParseOidError (InvalidComponent part source)) (parse_u32 part))
       (\<lambda>value. if length part > 1 \<and> hd part = CHR ''0''
          then Inl (ParseOidError (LeadingZero part)) else Inr value)"

definition oid_from_str :: "string \<Rightarrow> ParseOidError + Oid" where
  "oid_from_str s =
     (if s = [] then Inl (ParseOidError EmptyString)
      else if hd s = CHR ''.'' then Inl (ParseOidError LeadingDot)
      else if last s = CHR ''.'' then Inl (ParseOidError TrailingDot)
      else if contains_double_dot s then Inl (ParseOidError ConsecutiveDots)
      else rbind (rcollect parse_component (split_dot s))
        (\<lambda>components. rbind (map_err ParseOidError (validate_oid_components components))
          (\<lambda>_. Inr (Oid_of components))))"

text \<open>\<open>Display\<close> for \<open>u32\<close> and for object identifiers.\<close>

fun show_dec :: "nat \<Rightarrow> string" where
  "show_dec n =
     (if n < 10 then [char_of (48 + n)] else show_dec (n div 10) @ [char_of (48 + n mod 10)])"

declare show_dec.simps [simp del]

definition display_u32 :: "u32 \<Rightarrow> string" where
  "display_u32 v = show_dec (unat v)"

definition display_components :: "u32 list \<Rightarrow> string" where
  "display_components cs =
     (case cs of [] \<Rightarrow> []
      | first # rest \<Rightarrow> display_u32 first @ concat (map (\<lambda>c. CHR ''.'' # display_u32 c) rest))"

definition display_oid :: "Oid \<Rightarrow> string" where
  "display_oid oid = display_components (as_slice oid)"

subsection \<open>Printed components parse back\<close>

lemma to_digit_char: "d < 10 \<Longrightarrow> to_digit (char_of (48 + d)) = Some d"
  by (simp add: to_digit_def Let_def)

lemma parse_digits_append:
  "parse_digits (xs @ ys) acc = rbind (parse_digits xs acc) (parse_digits ys)"
  by (induction xs arbitrary: acc) (auto split: option.split)

lemma parse_digits_show_dec: "n < 4294967296 \<Longrightarrow> parse_digits (show_dec n) 0 = Inr n"
proof (induction n rule: show_dec.induct)
  case (1 n)
  show ?case
  proof (cases "n < 10")
    case True
    then show ?thesis by (simp add: show_dec.simps[of n] to_digit_char)
  next
    case False
    have "n div 10 < 4294967296" using 1(2) by linarith
    with False 1(1) have "parse_digits (show_dec (n div 10)) 0 = Inr (n div 10)" by blast
    moreover have "to_digit (char_of (48 + n mod 10)) = Some (n mod 10)"
      by (rule to_digit_char) simp
    moreover have "n div 10 * 10 + n mod 10 = n" by (rule div_mult_mod_eq)
    ultimately show ?thesis
      using False 1(2) by (simp only: show_dec.simps[of n] if_False parse_digits_append rbind_Inr
          parse_digits.simps option.case if_True)
  qed
qed

definition is_digit :: "char \<Rightarrow> bool" where
  "is_digit c \<longleftrightarrow> 48 \<le> (of_char c :: nat) \<and> (of_char c :: nat) \<le> 57"

lemma is_digit_char: "d < 10 \<Longrightarrow> is_digit (char_of (48 + d :: nat))"
  by (simp add: is_digit_def)

lemma show_dec_digits: "list_all is_digit (show_dec n)"
proof (induction n rule: show_dec.induct)
  case (1 n)
  then show ?case by (cases "n < 10") (simp_all add: show_dec.simps[of n] is_digit_char)
qed

lemma show_dec_not_Nil [simp]: "show_dec n \<noteq> []"
  by (subst show_dec.simps) simp

lemma hd_show_dec: "0 < n \<Longrightarrow> hd (show_dec n) \<noteq> CHR ''0''"
proof (induction n rule: show_dec.induct)
  case (1 n)
  show ?case
  proof (cases "n < 10")
    case True
    then have "(of_char (char_of (48 + n) :: char) :: nat) \<noteq> of_char CHR ''0''"
      using 1(2) by simp
    then have "char_of (48 + n) \<noteq> CHR ''0''" by metis
    then show ?thesis using True by (simp add: show_dec.simps[of n])
  next
    case False
    then have "0 < n div 10" by auto
    with False 1 show ?thesis by (simp add: show_dec.simps[of n])
  qed
qed

lemma parse_component_display: "parse_component (display_u32 v) = Inr v"
proof -
  let ?s = "show_dec (unat v)"
  have lt: "unat v < 4294967296" using unsigned_less[of v, where ?'a=nat] by simp
  obtain c cs where s: "?s = c # cs" by (cases ?s) auto
  have "is_digit c" using show_dec_digits[of "unat v"] by (simp add: s)
  then have "c \<noteq> CHR ''+''" "c \<noteq> CHR ''-''" by (auto simp: is_digit_def)
  then have "parse_u32 ?s = Inr v"
    using parse_digits_show_dec[OF lt] by (simp add: s)
  moreover have "\<not> (length ?s > 1 \<and> hd ?s = CHR ''0'')"
  proof (cases "unat v = 0")
    case True
    then show ?thesis by (simp add: show_dec.simps[of 0])
  next
    case False
    then show ?thesis using hd_show_dec by blast
  qed
  ultimately show ?thesis
    by (auto simp: parse_component_def display_u32_def)
qed

subsection \<open>Printed identifiers parse back\<close>

lemma display_u32_digits: "list_all is_digit (display_u32 v)" "display_u32 v \<noteq> []"
  by (simp_all add: display_u32_def show_dec_digits)

lemma not_digit_dot: "is_digit c \<Longrightarrow> c \<noteq> CHR ''.''"
  by (auto simp: is_digit_def)

lemma split_dot_not_Nil [simp]: "split_dot s \<noteq> []"
  by (cases s) (auto split: list.splits)

lemma split_dot_digits_append:
  "list_all is_digit p \<Longrightarrow> split_dot (p @ s) = (p @ hd (split_dot s)) # tl (split_dot s)"
proof (induction p)
  case Nil
  then show ?case by simp
next
  case (Cons c p)
  then show ?case by (auto dest: not_digit_dot)
qed

lemma split_dot_concat:
  "split_dot (concat (map (\<lambda>c. CHR ''.'' # display_u32 c) cs)) = [] # map display_u32 cs"
proof (induction cs)
  case Nil
  then show ?case by simp
next
  case (Cons c cs)
  then show ?case using display_u32_digits(1)[of c] by (simp add: split_dot_digits_append)
qed

lemma split_dot_display: "cs \<noteq> [] \<Longrightarrow> split_dot (display_components cs) = map display_u32 cs"
  by (cases cs) (simp_all add: display_components_def split_dot_digits_append
      display_u32_digits(1) split_dot_concat)

lemma contains_double_dot_digits:
  "list_all is_digit p \<Longrightarrow> p \<noteq> [] \<Longrightarrow> contains_double_dot (p @ s) = contains_double_dot s"
proof (induction p)
  case Nil
  then show ?case by simp
next
  case (Cons c p)
  then have c: "c \<noteq> CHR ''.''" by (auto dest: not_digit_dot)
  show ?case
  proof (cases "p = []")
    case True
    with c show ?thesis by (cases s) auto
  next
    case False
    with Cons c show ?thesis by (cases p) auto
  qed
qed

lemma contains_double_dot_Cons_digits:
  assumes "list_all is_digit p" "p \<noteq> []"
  shows "contains_double_dot (CHR ''.'' # p @ s) = contains_double_dot s"
proof -
  obtain c p' where p: "p = c # p'" using assms(2) by (cases p) auto
  with assms have "c \<noteq> CHR ''.''" by (auto dest: not_digit_dot)
  then have "contains_double_dot (CHR ''.'' # p @ s) = contains_double_dot (p @ s)" by (simp add: p)
  with assms show ?thesis by (simp add: contains_double_dot_digits)
qed

lemma contains_double_dot_concat:
  "\<not> contains_double_dot (concat (map (\<lambda>c. CHR ''.'' # display_u32 c) cs))"
  by (induction cs) (simp_all add: contains_double_dot_Cons_digits display_u32_digits)

lemma display_components_form:
  assumes "cs \<noteq> []"
  shows "display_components cs \<noteq> []" "is_digit (hd (display_components cs))"
    "is_digit (last (display_components cs))" "\<not> contains_double_dot (display_components cs)"
proof -
  have digit: "is_digit (hd (display_u32 c))" "is_digit (last (display_u32 c))" for c
    using display_u32_digits[of c] by (auto simp: list_all_iff)
  obtain first rest where cs: "cs = first # rest" using assms by (cases cs) auto
  show "display_components cs \<noteq> []" "is_digit (hd (display_components cs))"
    using digit display_u32_digits(2) by (simp_all add: display_components_def cs)
  show "\<not> contains_double_dot (display_components cs)"
    by (simp add: display_components_def cs contains_double_dot_digits display_u32_digits
        contains_double_dot_concat)
  show "is_digit (last (display_components cs))"
  proof (cases rest rule: rev_cases)
    case Nil
    then show ?thesis using digit by (simp add: display_components_def cs)
  next
    case (snoc init c)
    then show ?thesis using digit display_u32_digits(2)[of c] by (simp add: display_components_def cs)
  qed
qed

lemma oid_from_str_display: "oid_from_str (display_oid oid) = Inr oid"
proof -
  let ?cs = "as_slice oid"
  have ne: "?cs \<noteq> []" using as_slice_valid[of oid] unfolding valid_components_def by auto
  have "rcollect parse_component (split_dot (display_oid oid)) = Inr ?cs"
    by (simp add: display_oid_def split_dot_display[OF ne] rcollect_eq_Inr parse_component_display)
  moreover have "validate_oid_components ?cs = Inr ()"
    by (simp add: validate_oid_components_iff)
  moreover note display_components_form[OF ne]
  ultimately show ?thesis
    using not_digit_dot by (auto simp: oid_from_str_def display_oid_def)
qed

section \<open>Properties\<close>

text \<open>C32: The text form of an OID identifies it: printing and parsing give the OID back, hence two OIDs that
  print alike are equal, and an OID always has between 2 and 128 components whose first is at most 2,
  with the second at most 39 below that.\<close>

theorem oid_text_round_trip:
  "oid_from_str (display_oid oid) = Inr oid \<and> (display_oid oid = display_oid oid' \<longleftrightarrow> oid = oid')
    \<and> 2 \<le> length (as_slice oid) \<and> length (as_slice oid) \<le> 128 \<and> unat (as_slice oid ! 0) \<le> 2
    \<and> (unat (as_slice oid ! 0) \<le> 1 \<longrightarrow> unat (as_slice oid ! 1) \<le> 39)"
proof -
  have inj: "(display_oid oid = display_oid oid') = (oid = oid')"
    using oid_from_str_display[of oid] oid_from_str_display[of oid'] by (metis sum.inject(2))
  note v = as_slice_valid[of oid, unfolded valid_components_def]
  show ?thesis unfolding inj oid_from_str_display using v by simp
qed

theorem oid_text_round_trip_witness:
  "\<exists>oid. as_slice oid = [1, 39] \<and> oid_from_str (display_oid oid) = Inr oid \<and> unat (as_slice oid ! 1) \<le> 39"
proof -
  have a: "as_slice (Oid_of [1, 39]) = [1, 39]" by (simp add: valid_components_def)
  have "oid_from_str (display_oid (Oid_of [1, 39])) = Inr (Oid_of [1, 39]) \<and> unat (as_slice (Oid_of [1, 39]) ! 1) \<le> 39"
    using oid_text_round_trip[of "Oid_of [1, 39]" "Oid_of [1, 39]"] by (simp add: a)
  with a show ?thesis by blast
qed

text \<open>A component may carry a plus sign, and behind one also leading zeros, which the parser
  refuses otherwise.\<close>

theorem signed_components_accepted:
  "oid_from_str ''1.+03'' = oid_from_str ''1.3'' \<and> oid_from_str ''1.3'' = Inr (Oid_of [1, 3])
    \<and> (\<forall>oid. oid_from_str ''1.03'' \<noteq> Inr oid)"
proof -
  have p: "rcollect parse_component (split_dot ''1.+03'') = Inr [1, 3]" "rcollect parse_component (split_dot ''1.3'') = Inr [1, 3]"
    "rcollect parse_component (split_dot ''1.03'') = Inl (ParseOidError (LeadingZero ''03''))"
    by (simp_all add: parse_component_def to_digit_def)
  have f: "\<not> contains_double_dot ''1.+03'' \<and> \<not> contains_double_dot ''1.3'' \<and> \<not> contains_double_dot ''1.03''" by simp
  have v: "validate_oid_components [1, 3] = Inr ()" by (simp add: MAX_OID_SUB_IDENTIFIERS_def)
  show ?thesis using p f v unfolding oid_from_str_def by simp
qed

end
