(* ===== verification/Smi.thy ===== *)
theory Smi
  imports Oid
begin

text \<open>
  The data the agent exchanges: SMIv2 values (\<open>src/src/codec/value.rs\<close>) and the PDU types of
  \<open>src/src/codec/pdu/types.rs\<close> (identifiers, varbinds, error statuses, inbound and outbound
  PDUs, error kinds and the security model). The message identifier counter is passed
  explicitly; its values are shown to stay non-negative and to repeat only after \<open>2 ^ 31\<close>
  messages.
\<close>

section \<open>Values\<close>

datatype Value =
    Integer32 i32
  | ObjectIdentifier Oid
  | IpAddress "u8 \<times> u8 \<times> u8 \<times> u8"
  | OctetString bytes
  | Counter32 u32
  | Counter64 u64
  | Gauge32 u32
  | TimeTicks u32
  | Opaque bytes

definition value_from_bytes :: "bytes \<Rightarrow> Value" where
  "value_from_bytes bs = OctetString bs"

definition hex_digit :: "nat \<Rightarrow> char" where
  "hex_digit n = (if n < 10 then char_of (48 + n) else char_of (55 + n))"

definition fmt_hex :: "bytes \<Rightarrow> string" where
  "fmt_hex bs = concat (map (\<lambda>b. [hex_digit (unat b div 16), hex_digit (unat b mod 16)]) bs)"

definition display_i32 :: "i32 \<Rightarrow> string" where
  "display_i32 v = (if sint v < 0 then CHR ''-'' # show_dec (nat (- sint v)) else show_dec (nat (sint v)))"

fun display_value :: "Value \<Rightarrow> string" where
  "display_value (Integer32 n) = display_i32 n"
| "display_value (ObjectIdentifier oid) = display_oid oid"
| "display_value (IpAddress (a, b, c, d)) =
     show_dec (unat a) @ ''.'' @ show_dec (unat b) @ ''.'' @ show_dec (unat c) @ ''.'' @ show_dec (unat d)"
| "display_value (OctetString bs) = fmt_hex bs"
| "display_value (Opaque bs) = fmt_hex bs"
| "display_value (Counter32 n) = display_u32 n"
| "display_value (Gauge32 n) = display_u32 n"
| "display_value (TimeTicks n) = display_u32 n"
| "display_value (Counter64 n) = show_dec (unat n)"

section \<open>Identifiers\<close>

datatype RequestId = RequestId (request_id_i32: i32)

definition RequestId_ZERO :: RequestId where
  "RequestId_ZERO = RequestId 0"

datatype MessageId = MessageId (message_id_i32: i32)

text \<open>\<open>fetch_add\<close> wraps; the second component is the counter after the call.\<close>

definition next_sequential :: "i32 \<Rightarrow> MessageId \<times> i32" where
  "next_sequential counter = (MessageId (counter AND 0x7FFFFFFF), counter + 1)"

section \<open>Varbinds and error statuses\<close>

datatype VarbindValue =
    Value Value
  | Unspecified
  | NoSuchObject
  | NoSuchInstance
  | EndOfMibView

record Varbind =
  vb_oid :: Oid
  vb_value :: VarbindValue

datatype ErrorStatus =
    NoError | TooBig | NoSuchName | BadValue | ReadOnly | GenErr | NoAccess | WrongType
  | WrongLength | WrongEncoding | WrongValue | NoCreation | InconsistentValue
  | ResourceUnavailable | CommitFailed | UndoFailed | AuthorizationError | NotWritable
  | InconsistentName

fun error_status_i32 :: "ErrorStatus \<Rightarrow> i32" where
  "error_status_i32 NoError = 0"
| "error_status_i32 TooBig = 1"
| "error_status_i32 NoSuchName = 2"
| "error_status_i32 BadValue = 3"
| "error_status_i32 ReadOnly = 4"
| "error_status_i32 GenErr = 5"
| "error_status_i32 NoAccess = 6"
| "error_status_i32 WrongType = 7"
| "error_status_i32 WrongLength = 8"
| "error_status_i32 WrongEncoding = 9"
| "error_status_i32 WrongValue = 10"
| "error_status_i32 NoCreation = 11"
| "error_status_i32 InconsistentValue = 12"
| "error_status_i32 ResourceUnavailable = 13"
| "error_status_i32 CommitFailed = 14"
| "error_status_i32 UndoFailed = 15"
| "error_status_i32 AuthorizationError = 16"
| "error_status_i32 NotWritable = 17"
| "error_status_i32 InconsistentName = 18"

datatype InvalidErrorStatus = InvalidErrorStatus i32

definition error_status_try_from :: "i32 \<Rightarrow> InvalidErrorStatus + ErrorStatus" where
  "error_status_try_from code =
     (if code = 0 then Inr NoError else if code = 1 then Inr TooBig
      else if code = 2 then Inr NoSuchName else if code = 3 then Inr BadValue
      else if code = 4 then Inr ReadOnly else if code = 5 then Inr GenErr
      else if code = 6 then Inr NoAccess else if code = 7 then Inr WrongType
      else if code = 8 then Inr WrongLength else if code = 9 then Inr WrongEncoding
      else if code = 10 then Inr WrongValue else if code = 11 then Inr NoCreation
      else if code = 12 then Inr InconsistentValue else if code = 13 then Inr ResourceUnavailable
      else if code = 14 then Inr CommitFailed else if code = 15 then Inr UndoFailed
      else if code = 16 then Inr AuthorizationError else if code = 17 then Inr NotWritable
      else if code = 18 then Inr InconsistentName else Inl (InvalidErrorStatus code))"

section \<open>PDUs\<close>

record GetRequest =
  get_request_id :: RequestId
  get_varbinds :: "Varbind list"

record GetNextRequest =
  getnext_request_id :: RequestId
  getnext_varbinds :: "Varbind list"

record GetBulkRequest =
  bulk_request_id :: RequestId
  bulk_non_repeaters :: u32
  bulk_max_repetitions :: u32
  bulk_varbinds :: "Varbind list"

record SetRequest =
  set_request_id :: RequestId
  set_varbinds :: "Varbind list"

datatype InboundPdu =
    PduGetRequest GetRequest
  | PduGetNextRequest GetNextRequest
  | PduGetBulkRequest GetBulkRequest
  | PduSetRequest SetRequest

record GetResponse =
  resp_request_id :: RequestId
  resp_error_status :: ErrorStatus
  resp_error_index :: u32
  resp_varbinds :: "Varbind list"

record WireTrapPdu =
  trap_request_id :: RequestId
  trap_varbinds :: "Varbind list"

datatype V3ScopedData = Plaintext InboundPdu | Encrypted bytes

record DecodedScopedPdu =
  dsp_context_engine_id :: bytes
  dsp_context_name :: bytes
  dsp_pdu :: InboundPdu

datatype DecodeErrorKind = KindBer | KindUnsupportedPduType | KindInvalidOid | KindWrongVersion

datatype SecurityModel = SecurityModel i32

definition SecurityModel_USM :: SecurityModel where
  "SecurityModel_USM = SecurityModel 3"

definition is_usm :: "SecurityModel \<Rightarrow> bool" where
  "is_usm m \<longleftrightarrow> m = SecurityModel_USM"

section \<open>Properties\<close>

lemma error_status_try_from_i32 [simp]: "error_status_try_from (error_status_i32 s) = Inr s"
  by (cases s) (simp_all add: error_status_try_from_def)

fun message_ids :: "nat \<Rightarrow> i32 \<Rightarrow> MessageId list" where
  "message_ids 0 counter = []"
| "message_ids (Suc n) counter =
     (let (m, counter) = next_sequential counter in m # message_ids n counter)"

lemma unat_mask31: "unat ((v::u32) AND 0x7FFFFFFF) = unat v mod 2147483648"
proof -
  have m: "(0x7FFFFFFF :: u32) = mask 31" by (simp add: mask_eq_exp_minus_1)
  show ?thesis unfolding m by (simp add: take_bit_eq_mask[symmetric] take_bit_eq_mod unat_mod_distrib)
qed

lemma message_ids_nth:
  "i < n \<Longrightarrow> unat (message_id_i32 (message_ids n c ! i)) = (unat c + i) mod 2147483648"
proof (induction n arbitrary: c i)
  case (Suc n)
  show ?case
  proof (cases i)
    case 0
    then show ?thesis by (simp add: next_sequential_def unat_mask31)
  next
    case (Suc j)
    have "unat (c + 1) mod 2147483648 = (unat c + 1) mod 2147483648"
      by (simp add: unat_word_ariths mod_mod_cancel)
    then have "(unat (c + 1) + j) mod 2147483648 = (unat c + Suc j) mod 2147483648"
      by (metis add.assoc mod_add_left_eq plus_1_eq_Suc)
    then show ?thesis using Suc Suc.IH[of j "c + 1"] Suc.prems by (simp add: next_sequential_def)
  qed
qed simp

lemma length_message_ids [simp]: "length (message_ids n c) = n"
  by (induction n arbitrary: c) (simp_all add: next_sequential_def)

text \<open>Every message identifier the counter hands out is non-negative as an \<open>i32\<close>, and
  any \<open>2 ^ 31\<close> consecutive ones are pairwise distinct, wherever the counter starts.\<close>

theorem message_ids_fresh:
  assumes "n \<le> 2147483648"
  shows "(\<forall>m \<in> set (message_ids n counter). 0 \<le> sint (message_id_i32 m)) \<and> distinct (message_ids n counter)"
proof
  have u: "unat (message_id_i32 m) < 2147483648" if m: "m \<in> set (message_ids n counter)" for m
  proof -
    obtain i where "i < n" "m = message_ids n counter ! i"
      using m by (auto simp: in_set_conv_nth)
    then show ?thesis by (simp add: message_ids_nth)
  qed
  then show "\<forall>m \<in> set (message_ids n counter). 0 \<le> sint (message_id_i32 m)"
    by (simp add: sint_nonneg)
  show "distinct (message_ids n counter)"
    unfolding distinct_conv_nth
  proof (intro allI impI)
    fix i j
    assume ij: "i < length (message_ids n counter)" "j < length (message_ids n counter)" "i \<noteq> j"
    show "message_ids n counter ! i \<noteq> message_ids n counter ! j"
    proof
      assume "message_ids n counter ! i = message_ids n counter ! j"
      then have "(unat counter + i) mod 2147483648 = (unat counter + j) mod 2147483648"
        using ij by (simp add: message_ids_nth[symmetric])
      then show False using mod_window_inj[of "unat counter" i 2147483648 j] ij assms by simp
    qed
  qed
qed

theorem message_ids_fresh_witness:
  "distinct (message_ids 2 0x7FFFFFFF) \<and> map message_id_i32 (message_ids 2 0x7FFFFFFF) = [0x7FFFFFFF, 0]"
  using message_ids_fresh[of 2 "0x7FFFFFFF"] by (simp add: numeral_2_eq_2 next_sequential_def)

end
