(* ===== verification/Ber_Prim.thy ===== *)
theory Ber_Prim
  imports Oid
begin

text \<open>
  The value-level helpers of \<open>src/src/codec/ber.rs\<close>: the error type, definite-length
  fields, signed and unsigned INTEGER contents, base-128 sub-identifiers and OBJECT
  IDENTIFIER contents. Each decoder is characterised on every input: the signed and
  unsigned decoders accept exactly the byte strings whose two's-complement value fits
  the target type, whatever padding they carry, and the sub-identifier decoder returns
  the base-128 value modulo \<open>2 ^ 64\<close>. Each encoder is inverted by its decoder.
\<close>

section \<open>Errors\<close>

text \<open>One constructor per error site, with the values its message prints; the flag of
  the source's struct is the predicate below. \<open>BerPanic\<close> stands for the panic of an
  \<open>expect\<close> on the reader; the readers' invariant rules it out.\<close>

datatype BerError =
    EndOfInputTag nat
  | EndOfInputLength nat
  | ReservedLength nat
  | IndefiniteLength nat
  | LengthTooLarge nat nat
  | TruncatedLength nat nat
  | LengthOverflow nat
  | TruncatedValue nat nat u8 nat
  | UnexpectedTag string u8 u8 nat
  | UnexpectedConstructed u8 u8 nat
  | IntegerEmpty nat
  | IntegerTooLarge nat nat
  | NegativeUnsigned nat
  | UnsignedTooLarge nat nat nat
  | UnsignedOutOfRange u64 nat
  | NullNotEmpty nat nat
  | OidEmpty nat
  | OidZeroConsumed nat
  | OidNoSubIdentifiers nat
  | OidFirstArcOverflow nat
  | OidSecondArcOverflow nat
  | OidArcOverflow nat
  | OidInvalid nat ParseOidError
  | OidTruncated nat
  | OidSubIdentifierOverflow nat
  | BerMessage string
  | BerMessageLen string nat
  | BerMessageTag string u8
  | WrongVersionError i32
  | BerPanic

fun is_wrong_version :: "BerError \<Rightarrow> bool" where
  "is_wrong_version (WrongVersionError v) = True"
| "is_wrong_version e = False"

section \<open>Definite lengths\<close>

definition encode_length :: "bytes \<Rightarrow> nat \<Rightarrow> bytes" where
  "encode_length dest len =
     (if len \<le> 127 then dest @ [word_of_nat len]
      else let significant = drop (usize_leading_zeros len div 8) (be_bytes 8 len)
        in dest @ [0x80 + word_of_nat (length significant)] @ significant)"

fun accumulate_length :: "bytes \<Rightarrow> nat \<Rightarrow> nat option" where
  "accumulate_length [] len = Some len"
| "accumulate_length (b # bs) len =
     Option.bind (Option.bind (usize_checked_mul len 256) (\<lambda>shifted. usize_checked_add shifted (unat b)))
       (accumulate_length bs)"

lemma encode_length_append: "encode_length dest n = dest @ encode_length [] n"
  by (simp add: encode_length_def Let_def)

text \<open>The number of long-form octets.\<close>

definition length_octets :: "nat \<Rightarrow> nat" where
  "length_octets n = 8 - usize_leading_zeros n div 8"

lemma length_octets_bounds:
  assumes "127 < n" "n < usize_limit"
  shows "0 < length_octets n" "length_octets n \<le> 8" "n < 256 ^ length_octets n"
    "256 ^ (length_octets n - 1) \<le> n"
proof -
  have pos: "0 < bit_len n" using assms bit_len_le_iff[of n 0] by auto
  have le: "bit_len n \<le> 64" using assms(2) by (simp add: bit_len_le_iff)
  show "0 < length_octets n" "length_octets n \<le> 8"
    using pos le by (auto simp: length_octets_def usize_leading_zeros_def)
  have p: "(256::nat) ^ k = 2 ^ (8 * k)" for k by (simp add: power_mult)
  have "bit_len n \<le> 8 * length_octets n"
    using le by (simp add: length_octets_def usize_leading_zeros_def)
  then show "n < 256 ^ length_octets n" by (simp add: p bit_len_le_iff)
  have "8 * (length_octets n - 1) \<le> bit_len n - 1"
    using le pos by (simp add: length_octets_def usize_leading_zeros_def)
  then have "(2::nat) ^ (8 * (length_octets n - 1)) \<le> 2 ^ (bit_len n - 1)"
    by (rule power_increasing) simp
  also have "\<dots> \<le> n" using bit_len_bounds[of n] assms by simp
  finally show "256 ^ (length_octets n - 1) \<le> n" by (simp only: p)
qed

lemma encode_length_long:
  "127 < n \<Longrightarrow> encode_length [] n = (0x80 + word_of_nat (length_octets n)) # be_bytes (length_octets n) n"
  by (simp add: encode_length_def Let_def drop_be_bytes length_octets_def)

lemma accumulate_length_be_nat:
  assumes "len * 256 ^ length bs + be_nat bs < usize_limit"
  shows "accumulate_length bs len = Some (len * 256 ^ length bs + be_nat bs)"
  using assms
proof (induction bs arbitrary: len)
  case Nil
  then show ?case by simp
next
  case (Cons b bs)
  let ?m = "256 ^ length bs :: nat"
  have eq: "len * 256 ^ length (b # bs) + be_nat (b # bs) = (len * 256 + unat b) * ?m + be_nat bs"
    by (simp add: algebra_simps)
  have "len * 256 + unat b \<le> (len * 256 + unat b) * ?m" by simp
  then have lt: "len * 256 + unat b < usize_limit"
    using Cons.prems unfolding eq by linarith
  then have "accumulate_length (b # bs) len = accumulate_length bs (len * 256 + unat b)"
    by (simp add: usize_checked_mul_def usize_checked_add_def)
  also have "\<dots> = Some ((len * 256 + unat b) * ?m + be_nat bs)"
    using Cons.prems unfolding eq by (rule Cons.IH)
  finally show ?case unfolding eq .
qed

text \<open>At most eight octets never overflow the accumulator: the code's overflow branch is
  unreachable.\<close>

lemma accumulate_length_eight:
  assumes "length bs \<le> 8"
  shows "accumulate_length bs 0 = Some (be_nat bs)"
proof -
  have "(256::nat) ^ length bs \<le> 256 ^ 8" using assms by (rule power_increasing) simp
  then have "be_nat bs < usize_limit" using be_nat_less[of bs] by simp
  then show ?thesis using accumulate_length_be_nat[of 0 bs] by simp
qed

section \<open>INTEGER contents\<close>

definition encode_signed_i32 :: "i32 \<Rightarrow> bytes" where
  "encode_signed_i32 value =
     (let raw_bytes = be_bytes 4 (unat value);
          strip_byte = (if 0 \<le> sint value then 0x00 else 0xFF) :: u8;
          skip_count = length (takeWhile (\<lambda>b. b = strip_byte) (take (length raw_bytes - 1) raw_bytes));
          needs_sign_preservation = (case list_get raw_bytes skip_count of None \<Rightarrow> False
            | Some byte \<Rightarrow> (0 < sint value \<and> byte AND 0x80 \<noteq> 0) \<or> (sint value < 0 \<and> byte AND 0x80 = 0));
          start = (if needs_sign_preservation then skip_count - 1 else skip_count)
      in drop start raw_bytes)"

definition encode_unsigned_bytes :: "bytes \<Rightarrow> bytes" where
  "encode_unsigned_bytes raw_bytes =
     (let skip_count = length (takeWhile (\<lambda>b. b = 0) (take (length raw_bytes - 1) raw_bytes));
          significant = drop skip_count raw_bytes
      in case significant of
           [] \<Rightarrow> significant
         | first_byte # _ \<Rightarrow> if first_byte AND 0x80 \<noteq> 0 then 0x00 # significant else significant)"

definition encode_unsigned_u32 :: "u32 \<Rightarrow> bytes" where
  "encode_unsigned_u32 value = encode_unsigned_bytes (be_bytes 4 (unat value))"

definition encode_unsigned_u64 :: "u64 \<Rightarrow> bytes" where
  "encode_unsigned_u64 value = encode_unsigned_bytes (be_bytes 8 (unat value))"

definition decode_signed_i32 :: "bytes \<Rightarrow> nat \<Rightarrow> BerError + i32" where
  "decode_signed_i32 integer_bytes error_offset =
     (if integer_bytes = [] then Inl (IntegerEmpty error_offset)
      else
        let is_negative = (hd integer_bytes AND 0x80 \<noteq> 0);
            significant =
              (if length integer_bytes > 1 then
                 let redundant_byte = (if is_negative then 0xFF else 0x00) :: u8;
                     sign_bit_of_next = (if is_negative then 0x80 else 0x00) :: u8;
                     first_significant =
                       (case list_position (\<lambda>(leading, nxt). leading \<noteq> redundant_byte
                                \<or> nxt AND 0x80 \<noteq> sign_bit_of_next)
                              (zip integer_bytes (drop 1 integer_bytes)) of
                          None \<Rightarrow> length integer_bytes - 1 | Some i \<Rightarrow> i)
                 in drop first_significant integer_bytes
               else integer_bytes)
        in if length significant > 4 then Inl (IntegerTooLarge (length significant) error_offset)
           else let sign_byte = (if hd significant AND 0x80 \<noteq> 0 then 0xFF else 0x00) :: u8
             in Inr (word_of_nat (be_nat (replicate (4 - length significant) sign_byte @ significant))))"

definition decode_unsigned :: "nat \<Rightarrow> bytes \<Rightarrow> nat \<Rightarrow> BerError + u64" where
  "decode_unsigned N integer_bytes error_offset =
     (case integer_bytes of
        [] \<Rightarrow> Inl (IntegerEmpty error_offset)
      | first_byte # _ \<Rightarrow>
          if first_byte AND 0x80 \<noteq> 0 then Inl (NegativeUnsigned error_offset)
          else
            let significant =
                  (if length integer_bytes > 1 then
                     let first_nonzero =
                           (case list_position (\<lambda>b. b \<noteq> 0x00) integer_bytes of
                              None \<Rightarrow> length integer_bytes - 1 | Some i \<Rightarrow> i)
                     in drop first_nonzero integer_bytes
                   else integer_bytes)
            in if length significant > N
               then Inl (UnsignedTooLarge (N * 8) (length significant) error_offset)
               else Inr (word_of_nat (be_nat (replicate (8 - length significant) 0 @ significant))))"

definition decode_unsigned_u32 :: "bytes \<Rightarrow> nat \<Rightarrow> BerError + u32" where
  "decode_unsigned_u32 integer_bytes error_offset =
     rbind (decode_unsigned 4 integer_bytes error_offset)
       (\<lambda>value. ok_or (u32_try_from_u64 value) (UnsignedOutOfRange value error_offset))"

definition decode_unsigned_u64 :: "bytes \<Rightarrow> nat \<Rightarrow> BerError + u64" where
  "decode_unsigned_u64 integer_bytes error_offset = decode_unsigned 8 integer_bytes error_offset"

section \<open>Two's-complement values\<close>

definition tc_value :: "bytes \<Rightarrow> int" where
  "tc_value bs = (if bs \<noteq> [] \<and> 128 \<le> unat (hd bs) then int (be_nat bs) - 256 ^ length bs
     else int (be_nat bs))"

text \<open>Removing redundant sign bytes, as both the encoder and the decoder do.\<close>

fun strip_sign :: "bool \<Rightarrow> bytes \<Rightarrow> bytes" where
  "strip_sign neg (a # b # bs) =
     (if a = (if neg then 0xFF else 0) \<and> (128 \<le> unat b) = neg then strip_sign neg (b # bs)
      else a # b # bs)"
| "strip_sign neg bs = bs"

lemma and_exp_of_bool: "(w::'a::len word) AND 2 ^ n = of_bool (bit w n) * 2 ^ n"
  by (rule bit_word_eqI) (auto simp: bit_simps)

lemma sign_bit_eq: "(b::u8) AND 0x80 = (if neg then 0x80 else 0) \<longleftrightarrow> (128 \<le> unat b) = neg"
proof -
  have "b AND 0x80 = of_bool (bit b 7) * 0x80" using and_exp_of_bool[of b 7] by simp
  then have "b AND 0x80 = 0 \<or> b AND 0x80 = 0x80" by auto
  then show ?thesis using high_bit_clear[of b] by auto
qed

lemma strip_sign_drop:
  "bs \<noteq> [] \<Longrightarrow> drop (case list_position (\<lambda>(leading, nxt). leading \<noteq> (if neg then 0xFF else 0x00)
        \<or> nxt AND 0x80 \<noteq> (if neg then 0x80 else 0x00)) (zip bs (drop 1 bs)) of
      None \<Rightarrow> length bs - 1 | Some i \<Rightarrow> i) bs = strip_sign neg bs"
proof (induction neg bs rule: strip_sign.induct)
  case (1 neg a b bs)
  show ?case
  proof (cases "a = (if neg then 0xFF else 0) \<and> (128 \<le> unat b) = neg")
    case True
    then have "drop (case list_position (\<lambda>(leading, nxt). leading \<noteq> (if neg then 0xFF else 0x00)
        \<or> nxt AND 0x80 \<noteq> (if neg then 0x80 else 0x00)) (zip (b # bs) (drop 1 (b # bs))) of
      None \<Rightarrow> length (b # bs) - 1 | Some i \<Rightarrow> i) (b # bs) = strip_sign neg (b # bs)"
      using 1 by blast
    with True sign_bit_eq[of b neg] show ?thesis
      by (cases neg) (auto split: option.splits)
  next
    case False
    then show ?thesis by (auto simp: sign_bit_eq)
  qed
qed simp_all

lemma strip_sign_not_Nil [simp]: "strip_sign neg bs = [] \<longleftrightarrow> bs = []"
  by (induction neg bs rule: strip_sign.induct) auto

lemma tc_value_redundant:
  assumes "a = (if neg then 0xFF else 0)" "(128 \<le> unat b) = neg"
  shows "tc_value (a # b # bs) = tc_value (b # bs)"
  using assms by (cases neg) (simp_all add: tc_value_def)

lemma tc_value_strip_sign:
  assumes "bs \<noteq> []" "(128 \<le> unat (hd bs)) = neg"
  shows "tc_value (strip_sign neg bs) = tc_value bs \<and> (128 \<le> unat (hd (strip_sign neg bs))) = neg"
  using assms
proof (induction neg bs rule: strip_sign.induct)
  case (1 neg a b bs)
  show ?case
  proof (cases "a = (if neg then 0xFF else 0) \<and> (128 \<le> unat b) = neg")
    case True
    then have "tc_value (a # b # bs) = tc_value (b # bs)" by (intro tc_value_redundant) auto
    with True 1 show ?thesis by simp
  next
    case False
    then have "strip_sign neg (a # b # bs) = a # b # bs" by auto
    with 1 show ?thesis by simp
  qed
qed simp_all

lemma strip_sign_step:
  "strip_sign neg bs = a # b # cs \<Longrightarrow> \<not> (a = (if neg then 0xFF else 0) \<and> (128 \<le> unat b) = neg)"
  by (induction neg bs rule: strip_sign.induct) (auto split: if_splits)

lemma strip_sign_idem [simp]: "strip_sign neg (strip_sign neg bs) = strip_sign neg bs"
  by (induction neg bs rule: strip_sign.induct) auto

text \<open>A byte string of \<open>n\<close> bytes has a value of \<open>8 * n\<close> bits, and one without a
  redundant sign byte needs them all.\<close>

lemma tc_value_range:
  assumes "bs = b # bs'"
  shows "- (128 * 256 ^ length bs') \<le> tc_value bs" "tc_value bs < 128 * 256 ^ length bs'"
proof -
  let ?m = "256 ^ length bs' :: int"
  have lt: "int (be_nat bs') < ?m"
    using be_nat_less[of bs'] by (metis of_nat_less_iff of_nat_numeral of_nat_power)
  have mpos: "0 < ?m" by simp
  have ub: "int (unat b) \<le> 255" using unat_u8_less[of b] by linarith
  have v: "int (be_nat bs) = int (unat b) * ?m + int (be_nat bs')" by (simp add: assms)
  have "- (128 * ?m) \<le> tc_value bs \<and> tc_value bs < 128 * ?m"
  proof (cases "128 \<le> unat b")
    case True
    have t: "tc_value bs = int (unat b) * ?m + int (be_nat bs') - 256 * ?m"
      using True v by (simp add: tc_value_def assms)
    have "128 * ?m \<le> int (unat b) * ?m" using True by (intro mult_right_mono) (linarith, simp)
    moreover have "int (unat b) * ?m \<le> 255 * ?m" using ub by (intro mult_right_mono) auto
    ultimately show ?thesis using lt mpos unfolding t by linarith
  next
    case False
    have t: "tc_value bs = int (unat b) * ?m + int (be_nat bs')"
      using False v by (simp add: tc_value_def assms)
    have "int (unat b) * ?m \<le> 127 * ?m" using False by (intro mult_right_mono) (linarith, simp)
    moreover have "0 \<le> int (unat b) * ?m" by simp
    ultimately show ?thesis using lt mpos unfolding t by linarith
  qed
  then show "- (128 * 256 ^ length bs') \<le> tc_value bs" "tc_value bs < 128 * 256 ^ length bs'"
    by auto
qed

lemma tc_value_needs_bytes:
  assumes "bs = a # b # cs" "(128 \<le> unat a) = neg"
    and "\<not> (a = (if neg then 0xFF else 0) \<and> (128 \<le> unat b) = neg)"
  shows "tc_value bs < - (128 * 256 ^ length cs) \<or> 128 * 256 ^ length cs \<le> tc_value bs"
proof -
  let ?m = "256 ^ length cs :: int"
  have lt: "int (be_nat cs) < ?m"
    using be_nat_less[of cs] by (metis of_nat_less_iff of_nat_numeral of_nat_power)
  have mpos: "0 < ?m" by simp
  define A B C where "A = int (unat a)" and "B = int (unat b)" and "C = int (be_nat cs)"
  have v: "int (be_nat bs) = (A * 256 + B) * ?m + C"
    by (simp add: assms(1) A_def B_def C_def algebra_simps)
  have C: "0 \<le> C" "C < ?m" using lt by (simp_all add: C_def)
  have B: "0 \<le> B" "B \<le> 255" using unat_u8_less[of b] unfolding B_def by linarith+
  have A: "0 \<le> A" "A \<le> 255" using unat_u8_less[of a] unfolding A_def by linarith+
  show ?thesis
  proof (cases neg)
    case True
    have t: "tc_value bs = (A * 256 + B) * ?m + C - 65536 * ?m"
      using True assms v by (simp add: tc_value_def)
    have "unat a \<noteq> 255 \<or> unat b < 128"
      using assms(3) True by (auto simp: word_unat_eq_iff)
    then have "A * 256 + B \<le> 65407"
      using A B unfolding A_def B_def by linarith
    then have "(A * 256 + B) * ?m \<le> 65407 * ?m" by (intro mult_right_mono) auto
    then show ?thesis using C mpos unfolding t by linarith
  next
    case False
    have t: "tc_value bs = (A * 256 + B) * ?m + C"
      using False assms v by (simp add: tc_value_def)
    have "unat a \<noteq> 0 \<or> 128 \<le> unat b"
      using assms(3) False by (auto simp: word_unat_eq_iff)
    then have "128 \<le> A * 256 + B"
      using A B unfolding A_def B_def by linarith
    then have "128 * ?m \<le> (A * 256 + B) * ?m" by (intro mult_right_mono) auto
    then show ?thesis using C mpos unfolding t by linarith
  qed
qed

section \<open>Signed INTEGER contents\<close>

lemma tc_value_replicate:
  assumes "bs \<noteq> []" "length bs \<le> 4" "s = (if 128 \<le> unat (hd bs) then 0xFF else 0)"
  shows "(word_of_nat (be_nat (replicate (4 - length bs) s @ bs)) :: i32) = word_of_int (tc_value bs)"
proof -
  have rep0: "be_nat (replicate n 0) = 0" for n by (induction n) auto
  have "be_nat (replicate n 0xFF) + 1 = 256 ^ n" for n
    by (induction n) simp_all
  then have repF: "int (be_nat (replicate n 0xFF)) = 256 ^ n - 1" for n
    by (metis add_diff_cancel_right' of_nat_add of_nat_1 of_nat_numeral of_nat_power)
  show ?thesis
  proof (cases "128 \<le> unat (hd bs)")
    case True
    let ?k = "4 - length bs"
    have "int (be_nat (replicate ?k s @ bs)) = (256 ^ ?k - 1) * 256 ^ length bs + int (be_nat bs)"
      using True assms(3) repF[of ?k] by (simp add: be_nat_append)
    also have "\<dots> = 256 ^ (?k + length bs) - 256 ^ length bs + int (be_nat bs)"
      by (simp add: algebra_simps power_add)
    also have "\<dots> = tc_value bs + 4294967296"
      using True assms(1,2) by (simp add: tc_value_def)
    finally have "int (be_nat (replicate ?k s @ bs)) = tc_value bs + 4294967296" .
    then have "(word_of_int (int (be_nat (replicate ?k s @ bs))) :: i32)
        = word_of_int (tc_value bs) + word_of_int 4294967296"
      by (simp only: wi_hom_add)
    also have "(word_of_int 4294967296 :: i32) = 0" by simp
    finally show ?thesis by simp
  next
    case False
    then show ?thesis using assms rep0 by (simp add: be_nat_append tc_value_def)
  qed
qed

definition fits_i32 :: "int \<Rightarrow> bool" where
  "fits_i32 k \<longleftrightarrow> - 2147483648 \<le> k \<and> k < 2147483648"

lemma strip_sign_fits:
  assumes "bs \<noteq> []" "neg = (128 \<le> unat (hd bs))"
  shows "length (strip_sign neg bs) \<le> 4 \<longleftrightarrow> fits_i32 (tc_value bs)"
proof -
  let ?s = "strip_sign neg bs"
  have tc: "tc_value ?s = tc_value bs" and neg: "(128 \<le> unat (hd ?s)) = neg"
    using tc_value_strip_sign[of bs neg] assms by auto
  show ?thesis
  proof
    assume le: "length ?s \<le> 4"
    obtain b s' where s: "?s = b # s'" using assms(1) by (cases ?s) auto
    have "(256::int) ^ length s' \<le> 256 ^ 3" using le s by (intro power_increasing) auto
    then show "fits_i32 (tc_value bs)"
      using tc_value_range[OF s] tc by (simp add: fits_i32_def)
  next
    assume fits: "fits_i32 (tc_value bs)"
    show "length ?s \<le> 4"
    proof (rule ccontr)
      assume "\<not> length ?s \<le> 4"
      then obtain a b cs where s: "?s = a # b # cs" and len: "3 \<le> length cs"
        by (cases ?s; cases "tl ?s") auto
      have "(256::int) ^ 3 \<le> 256 ^ length cs" using len by (intro power_increasing) auto
      moreover have "tc_value ?s < - (128 * 256 ^ length cs) \<or> 128 * 256 ^ length cs \<le> tc_value ?s"
        using tc_value_needs_bytes[OF s, of neg] neg strip_sign_step[OF s] s by auto
      ultimately show False using fits tc by (auto simp: fits_i32_def)
    qed
  qed
qed

lemma decode_signed_i32_strip:
  assumes "bs \<noteq> []" "neg = (128 \<le> unat (hd bs))"
  shows "decode_signed_i32 bs off =
     (if length (strip_sign neg bs) > 4 then Inl (IntegerTooLarge (length (strip_sign neg bs)) off)
      else Inr (word_of_int (tc_value bs)))"
proof -
  have n: "(hd bs AND 0x80 \<noteq> 0) = neg" using high_bit_clear[of "hd bs"] assms by auto
  have one: "length bs > 1 \<or> strip_sign neg bs = bs"
    using assms(1) by (cases "(neg, bs)" rule: strip_sign.cases) auto
  have tc: "tc_value (strip_sign neg bs) = tc_value bs" "(128 \<le> unat (hd (strip_sign neg bs))) = neg"
    using tc_value_strip_sign[of bs neg] assms by auto
  have hs: "(hd (strip_sign neg bs) AND 0x80 \<noteq> 0) = neg"
    using high_bit_clear[of "hd (strip_sign neg bs)"] tc(2) by auto
  have sig: "(if length bs > 1 then strip_sign neg bs else bs) = strip_sign neg bs"
    using one by auto
  have val: "(word_of_nat (be_nat (replicate (4 - length (strip_sign neg bs)) (if neg then 0xFF else 0)
       @ strip_sign neg bs)) :: i32) = word_of_int (tc_value bs)" if "length (strip_sign neg bs) \<le> 4"
    using tc_value_replicate[of "strip_sign neg bs"] that tc assms(1) by simp
  show ?thesis
    unfolding decode_signed_i32_def Let_def n strip_sign_drop[OF assms(1)] sig hs
    using assms(1) val by simp
qed

lemma decode_signed_i32_value:
  assumes "bs \<noteq> []"
  shows "fits_i32 (tc_value bs) \<Longrightarrow> decode_signed_i32 bs off = Inr (word_of_int (tc_value bs))"
    and "\<not> fits_i32 (tc_value bs) \<Longrightarrow> \<exists>n > 4. decode_signed_i32 bs off = Inl (IntegerTooLarge n off)"
  using decode_signed_i32_strip[OF assms refl] strip_sign_fits[OF assms refl] by auto

lemma hd_be_bytes_4: "hd (be_bytes 4 v) = word_of_nat (v div 16777216)"
proof -
  have "hd (be_bytes (Suc 3) v) = word_of_nat (v div 256 ^ 3)" by (simp only: be_bytes.simps list.sel)
  then show ?thesis by simp
qed

lemma sint_fits_i32 [simp]: "fits_i32 (sint (v::i32))"
  using unat_i32_less[of v] unfolding sint_unat fits_i32_def
  by (cases "unat v < 2147483648") (simp_all only: if_True if_False, linarith+)

lemma hd_be_bytes_sign: "128 \<le> unat (hd (be_bytes 4 (unat v))) \<longleftrightarrow> \<not> 0 \<le> sint (v::i32)"
proof -
  have "unat v div 16777216 < 256" using unat_i32_less[of v] by linarith
  then have "unat (hd (be_bytes 4 (unat v))) = unat v div 16777216"
    by (simp add: hd_be_bytes_4 unat_of_nat)
  then show ?thesis unfolding sint_nonneg by linarith
qed

lemma tc_value_be_bytes: "tc_value (be_bytes 4 (unat v)) = sint (v::i32)"
proof -
  have nat: "be_nat (be_bytes 4 (unat v)) = unat v"
    using unat_i32_less[of v] by (simp add: be_nat_be_bytes)
  note hd = hd_be_bytes_sign[of v, unfolded sint_nonneg]
  have ne: "be_bytes 4 (unat v) \<noteq> []" by (metis length_be_bytes list.size(3) zero_neq_numeral)
  show ?thesis using hd ne by (simp add: tc_value_def nat sint_unat)
qed

lemma list_length_4: "length xs = 4 \<Longrightarrow> \<exists>a b c d. xs = [a, b, c, d]"
  by (auto simp: numeral_eq_Suc length_Suc_conv)

lemma encode_signed_i32_strip:
  "encode_signed_i32 v = strip_sign (128 \<le> unat (hd (be_bytes 4 (unat v)))) (be_bytes 4 (unat v))"
proof -
  obtain a b c d where raw: "be_bytes 4 (unat v) = [a, b, c, d]"
    using list_length_4[of "be_bytes 4 (unat v)"] by auto
  have tc: "tc_value [a, b, c, d] = sint v" using tc_value_be_bytes[of v] by (simp add: raw)
  have nonneg: "0 \<le> sint v \<longleftrightarrow> \<not> 128 \<le> unat a"
    using hd_be_bytes_sign[of v] by (simp add: raw)
  have zero: "a = 0 \<and> b = 0 \<and> c = 0 \<and> d = 0" if "sint v = 0"
  proof -
    from that have "\<not> 128 \<le> unat a" using nonneg by simp
    then have "tc_value [a, b, c, d] = int (be_nat [a, b, c, d])"
      by (simp add: tc_value_def del: of_nat_unat be_nat.simps)
    then have "be_nat [a, b, c, d] = 0" using that tc by linarith
    then have "be_nat [a, b, c, d] = be_nat [0, 0, 0, 0]" by simp
    then show ?thesis using be_nat_eq_iff[of "[a, b, c, d]" "[0, 0, 0, 0]"] by simp
  qed
  have hb: "x AND 0x80 = 0 \<longleftrightarrow> unat x < 128" for x :: u8 by (rule high_bit_clear)
  show ?thesis
  proof (cases "sint v = 0")
    case True
    then show ?thesis using zero[OF True] by (simp add: encode_signed_i32_def raw Let_def list_get_def)
  next
    case False
    then have pos: "0 < sint v \<longleftrightarrow> \<not> 128 \<le> unat a" and neg: "sint v < 0 \<longleftrightarrow> 128 \<le> unat a"
      using nonneg by auto
    show ?thesis
    proof (cases "128 \<le> unat a")
      case True
      then show ?thesis
        unfolding encode_signed_i32_def Let_def raw nonneg pos neg
        by (auto simp: list_get_def hb)
    next
      case F: False
      then show ?thesis
        unfolding encode_signed_i32_def Let_def raw nonneg pos neg
        by (auto simp: list_get_def hb)
    qed
  qed
qed

lemma tc_value_encode_signed_i32: "tc_value (encode_signed_i32 v) = sint v"
  and encode_signed_i32_not_Nil: "encode_signed_i32 v \<noteq> []"
proof -
  have ne: "be_bytes 4 (unat v) \<noteq> []" by (metis length_be_bytes list.size(3) zero_neq_numeral)
  then show "tc_value (encode_signed_i32 v) = sint v" "encode_signed_i32 v \<noteq> []"
    using tc_value_strip_sign[OF ne refl] tc_value_be_bytes
    by (simp_all add: encode_signed_i32_strip)
qed

lemma decode_encode_signed_i32 [simp]: "decode_signed_i32 (encode_signed_i32 v) off = Inr v"
  using decode_signed_i32_value(1)[OF encode_signed_i32_not_Nil, of v off]
  by (simp add: tc_value_encode_signed_i32)

lemma length_encode_signed_i32: "0 < length (encode_signed_i32 v)" "length (encode_signed_i32 v) \<le> 4"
proof -
  show "0 < length (encode_signed_i32 v)" using encode_signed_i32_not_Nil by simp
  have "length (strip_sign neg bs) \<le> length bs" for neg bs
    by (induction neg bs rule: strip_sign.induct) auto
  then show "length (encode_signed_i32 v) \<le> 4"
    by (metis encode_signed_i32_strip length_be_bytes)
qed

text \<open>No shorter byte string has the encoded value.\<close>

lemma encode_signed_i32_minimal:
  assumes "bs \<noteq> []" "tc_value bs = sint v"
  shows "length (encode_signed_i32 v) \<le> length bs"
proof (rule ccontr)
  assume lt: "\<not> length (encode_signed_i32 v) \<le> length bs"
  let ?raw = "be_bytes 4 (unat v)" and ?e = "encode_signed_i32 v"
  have ne: "?raw \<noteq> []" by (metis length_be_bytes list.size(3) zero_neq_numeral)
  define neg where "neg = (128 \<le> unat (hd ?raw))"
  have e: "strip_sign neg ?raw = ?e" by (simp add: encode_signed_i32_strip neg_def)
  obtain b bs' where bs: "bs = b # bs'" using assms(1) by (cases bs) auto
  with lt obtain x y zs where s: "?e = x # y # zs" and len: "length bs' \<le> length zs"
    by (cases ?e; cases "tl ?e") auto
  have "(128 \<le> unat x) = neg" using tc_value_strip_sign[OF ne, of neg] e s by (simp add: neg_def)
  then have "tc_value ?e < - (128 * 256 ^ length zs) \<or> 128 * 256 ^ length zs \<le> tc_value ?e"
    using tc_value_needs_bytes[OF s] strip_sign_step[of neg ?raw x y zs] e s by simp
  moreover have "(256::int) ^ length bs' \<le> 256 ^ length zs" using len by (rule power_increasing) simp
  moreover have "tc_value ?e = tc_value bs" using assms(2) by (simp add: tc_value_encode_signed_i32)
  ultimately show False using tc_value_range[OF bs] by linarith
qed

section \<open>Unsigned INTEGER contents\<close>

fun strip_zeros :: "bytes \<Rightarrow> bytes" where
  "strip_zeros (a # b # bs) = (if a = 0 then strip_zeros (b # bs) else a # b # bs)"
| "strip_zeros bs = bs"

lemma strip_zeros_drop:
  "bs \<noteq> [] \<Longrightarrow> drop (case list_position (\<lambda>b. b \<noteq> 0) bs of None \<Rightarrow> length bs - 1 | Some i \<Rightarrow> i) bs
     = strip_zeros bs"
  by (induction bs rule: strip_zeros.induct) (auto split: option.splits)

lemma strip_zeros_takeWhile:
  "drop (length (takeWhile (\<lambda>b. b = 0) (take (length bs - 1) bs))) bs = strip_zeros bs"
  by (induction bs rule: strip_zeros.induct) auto

lemma be_nat_strip_zeros [simp]: "be_nat (strip_zeros bs) = be_nat bs"
  by (induction bs rule: strip_zeros.induct) auto

lemma strip_zeros_not_Nil [simp]: "strip_zeros bs = [] \<longleftrightarrow> bs = []"
  by (induction bs rule: strip_zeros.induct) auto

lemma strip_zeros_hd: "1 < length (strip_zeros bs) \<Longrightarrow> hd (strip_zeros bs) \<noteq> 0"
  by (induction bs rule: strip_zeros.induct) auto

lemma length_strip_zeros: "length (strip_zeros bs) \<le> length bs"
  by (induction bs rule: strip_zeros.induct) auto

lemma be_nat_hd: "bs \<noteq> [] \<Longrightarrow> hd bs \<noteq> 0 \<Longrightarrow> 256 ^ (length bs - 1) \<le> be_nat bs"
proof (cases bs)
  case (Cons b bs')
  assume "hd bs \<noteq> 0"
  then have "1 \<le> unat b" using Cons by (simp add: word_unat_eq_iff)
  then have "1 * 256 ^ length bs' \<le> unat b * 256 ^ length bs'" by (intro mult_right_mono) auto
  then have "256 ^ length bs' \<le> unat b * 256 ^ length bs' + be_nat bs'" by linarith
  then show ?thesis using Cons by simp
qed simp

lemma length_strip_zeros_le:
  assumes "bs \<noteq> []" "0 < n"
  shows "length (strip_zeros bs) \<le> n \<longleftrightarrow> be_nat bs < 256 ^ n"
proof
  assume "length (strip_zeros bs) \<le> n"
  then have "(256::nat) ^ length (strip_zeros bs) \<le> 256 ^ n" by (rule power_increasing) simp
  then show "be_nat bs < 256 ^ n" using be_nat_less[of "strip_zeros bs"]
    by (simp only: be_nat_strip_zeros less_le_trans)
next
  assume lt: "be_nat bs < 256 ^ n"
  show "length (strip_zeros bs) \<le> n"
  proof (rule ccontr)
    assume gt: "\<not> length (strip_zeros bs) \<le> n"
    then have "hd (strip_zeros bs) \<noteq> 0" using assms(2) by (intro strip_zeros_hd) linarith
    then have "256 ^ (length (strip_zeros bs) - 1) \<le> be_nat bs"
      using be_nat_hd[of "strip_zeros bs"] assms(1) by simp
    moreover have "(256::nat) ^ n \<le> 256 ^ (length (strip_zeros bs) - 1)"
      using gt by (intro power_increasing) auto
    ultimately show False using lt by linarith
  qed
qed

lemma be_nat_replicate_zero [simp]: "be_nat (replicate n 0 @ bs) = be_nat bs"
  by (induction n) auto

lemma decode_unsigned_value:
  assumes "bs \<noteq> []" "unat (hd bs) < 128" "0 < N"
  shows "be_nat bs < 256 ^ N \<Longrightarrow> decode_unsigned N bs off = Inr (word_of_nat (be_nat bs))"
    and "\<not> be_nat bs < 256 ^ N \<Longrightarrow>
      decode_unsigned N bs off = Inl (UnsignedTooLarge (N * 8) (length (strip_zeros bs)) off)"
proof -
  obtain b bs' where bs: "bs = b # bs'" using assms(1) by (cases bs) auto
  have hb: "b AND 0x80 = 0" using assms(2) by (simp add: high_bit_clear bs)
  have sig: "(if length bs > 1 then strip_zeros bs else bs) = strip_zeros bs"
    by (cases bs rule: strip_zeros.cases) auto
  have "decode_unsigned N bs off =
     (if length (strip_zeros bs) > N then Inl (UnsignedTooLarge (N * 8) (length (strip_zeros bs)) off)
      else Inr (word_of_nat (be_nat bs)))"
    unfolding decode_unsigned_def Let_def strip_zeros_drop[OF assms(1)] sig
    by (simp add: bs hb)
  then show "be_nat bs < 256 ^ N \<Longrightarrow> decode_unsigned N bs off = Inr (word_of_nat (be_nat bs))"
    "\<not> be_nat bs < 256 ^ N \<Longrightarrow>
      decode_unsigned N bs off = Inl (UnsignedTooLarge (N * 8) (length (strip_zeros bs)) off)"
    using length_strip_zeros_le[OF assms(1,3)] by auto
qed

lemma encode_unsigned_bytes_value:
  assumes "raw \<noteq> []"
  shows "be_nat (encode_unsigned_bytes raw) = be_nat raw" "encode_unsigned_bytes raw \<noteq> []"
    "unat (hd (encode_unsigned_bytes raw)) < 128" "length (encode_unsigned_bytes raw) \<le> length raw + 1"
proof -
  obtain b s where s: "strip_zeros raw = b # s" using assms by (cases "strip_zeros raw") auto
  have e: "encode_unsigned_bytes raw = (if b AND 0x80 \<noteq> 0 then 0 # b # s else b # s)"
    unfolding encode_unsigned_bytes_def Let_def strip_zeros_takeWhile s by simp
  have v: "be_nat (b # s) = be_nat raw" using be_nat_strip_zeros[of raw] s by simp
  show "be_nat (encode_unsigned_bytes raw) = be_nat raw" using v by (simp add: e)
  show "encode_unsigned_bytes raw \<noteq> []" by (simp add: e)
  show "unat (hd (encode_unsigned_bytes raw)) < 128" by (auto simp: e high_bit_clear)
  show "length (encode_unsigned_bytes raw) \<le> length raw + 1"
    using length_strip_zeros[of raw] by (auto simp: e s)
qed

lemma be_bytes_not_Nil: "0 < n \<Longrightarrow> be_bytes n v \<noteq> []"
  by (cases n) auto

lemma decode_encode_unsigned_u32 [simp]: "decode_unsigned_u32 (encode_unsigned_u32 v) off = Inr v"
proof -
  let ?e = "encode_unsigned_bytes (be_bytes 4 (unat v))"
  note e = encode_unsigned_bytes_value[OF be_bytes_not_Nil[of 4 "unat v"], simplified]
  have n: "be_nat ?e = unat v" using e(1) unat_i32_less[of v] by (simp add: be_nat_be_bytes)
  have "decode_unsigned 4 ?e off = Inr (word_of_nat (unat v))"
    using decode_unsigned_value(1)[OF e(2,3), of 4 off] n unat_i32_less[of v] by simp
  then show ?thesis
    using unat_i32_less[of v]
    by (simp add: decode_unsigned_u32_def encode_unsigned_u32_def u32_try_from_u64_def unat_ucast_up_u64
        ucast_ucast_u64)
qed

lemma decode_encode_unsigned_u64 [simp]: "decode_unsigned_u64 (encode_unsigned_u64 v) off = Inr v"
proof -
  let ?e = "encode_unsigned_bytes (be_bytes 8 (unat v))"
  have lt: "unat v < 18446744073709551616" using unsigned_less[of v, where ?'a=nat] by simp
  note e = encode_unsigned_bytes_value[OF be_bytes_not_Nil[of 8 "unat v"], simplified]
  have n: "be_nat ?e = unat v" using e(1) lt by (simp add: be_nat_be_bytes)
  have "decode_unsigned 8 ?e off = Inr (word_of_nat (unat v))"
    using decode_unsigned_value(1)[OF e(2,3), of 8 off] n lt by simp
  then show ?thesis by (simp add: decode_unsigned_u64_def encode_unsigned_u64_def)
qed

lemma length_encode_unsigned:
  "length (encode_unsigned_u32 v) \<le> 5" "length (encode_unsigned_u64 w) \<le> 9"
  using encode_unsigned_bytes_value(4)[OF be_bytes_not_Nil[of 4 "unat v"]]
    encode_unsigned_bytes_value(4)[OF be_bytes_not_Nil[of 8 "unat w"]]
  by (simp_all add: encode_unsigned_u32_def encode_unsigned_u64_def)


section \<open>Object identifier contents\<close>

definition u64_checked_shl :: "u64 \<Rightarrow> nat \<Rightarrow> u64 option" where
  "u64_checked_shl v s = (if s < 64 then Some (push_bit s v) else None)"

definition u64_checked_add :: "u64 \<Rightarrow> u64 \<Rightarrow> u64 option" where
  "u64_checked_add a b = (if unat a + unat b < 2 ^ 64 then Some (a + b) else None)"

function base128_groups :: "u64 \<Rightarrow> bytes" where
  "base128_groups remaining =
     (if remaining > 0 then ucast (remaining AND 0x7F) # base128_groups (drop_bit 7 remaining)
      else [])"
  by auto

termination base128_groups
proof (relation "measure unat")
  fix remaining :: u64
  assume "0 < remaining"
  then have "0 < unat remaining" by (simp add: word_less_nat_alt)
  then show "(drop_bit 7 remaining, remaining) \<in> measure unat"
    by (simp add: drop_bit_eq_div unat_div_distrib)
qed simp

declare base128_groups.simps [simp del]

definition encode_base128 :: "bytes \<Rightarrow> u64 \<Rightarrow> bytes" where
  "encode_base128 dest value =
     (if value = 0 then dest @ [0x00]
      else let groups = base128_groups value
        in dest @ map (\<lambda>(index, group). group + (if index > 0 then 0x80 else 0x00))
                    (rev (enumerate 0 groups)))"

definition encode_oid :: "Oid \<Rightarrow> bytes" where
  "encode_oid oid =
     (let (first_arc, second_arc, remaining_arcs) = decompose oid;
          first_combined = (ucast first_arc :: u64) * 40 + ucast second_arc;
          encoded = encode_base128 [] first_combined
      in foldl (\<lambda>encoded arc. encode_base128 encoded (ucast arc)) encoded remaining_arcs)"

fun decode_base128_loop :: "bytes \<Rightarrow> nat \<Rightarrow> u64 \<Rightarrow> nat \<Rightarrow> BerError + u64 \<times> nat" where
  "decode_base128_loop [] error_offset accumulator bytes_consumed = Inl (OidTruncated error_offset)"
| "decode_base128_loop (byte # rest) error_offset accumulator bytes_consumed =
     rbind (ok_or (Option.bind (u64_checked_shl accumulator 7)
                     (\<lambda>shifted. u64_checked_add shifted (ucast (byte AND 0x7F))))
                  (OidSubIdentifierOverflow error_offset))
       (\<lambda>accumulator.
          if byte AND 0x80 = 0 then Inr (accumulator, bytes_consumed + 1)
          else decode_base128_loop rest error_offset accumulator (bytes_consumed + 1))"

definition decode_base128 :: "bytes \<Rightarrow> nat \<Rightarrow> BerError + u64 \<times> nat" where
  "decode_base128 bytes error_offset = decode_base128_loop bytes error_offset 0 0"

function decode_sub_identifiers :: "bytes \<Rightarrow> nat \<Rightarrow> BerError + u64 list" where
  "decode_sub_identifiers remaining error_offset =
     (if remaining = [] then Inr []
      else rbind (decode_base128 remaining error_offset)
        (\<lambda>(sub_id, bytes_consumed).
           if bytes_consumed = 0 then Inl (OidZeroConsumed error_offset)
           else rbind (decode_sub_identifiers (drop bytes_consumed remaining) error_offset)
             (\<lambda>sub_identifiers. Inr (sub_id # sub_identifiers))))"
  by auto

termination decode_sub_identifiers
  by (relation "measure (\<lambda>(remaining, _). length remaining)") auto

declare decode_sub_identifiers.simps [simp del]

definition split_first_arcs :: "u64 \<Rightarrow> u64 \<times> u64" where
  "split_first_arcs first_combined =
     (if first_combined < 40 then (0, first_combined)
      else if first_combined < 80 then (1, first_combined - 40)
      else (2, first_combined - 80))"

definition decode_oid :: "bytes \<Rightarrow> nat \<Rightarrow> BerError + Oid" where
  "decode_oid oid_bytes error_offset =
     (if oid_bytes = [] then Inl (OidEmpty error_offset)
      else rbind (decode_sub_identifiers oid_bytes error_offset) (\<lambda>sub_identifiers.
        case sub_identifiers of
          [] \<Rightarrow> Inl (OidNoSubIdentifiers error_offset)
        | first_combined # rest \<Rightarrow>
            (let (first_arc, second_arc) = split_first_arcs first_combined
             in rbind (ok_or (u32_try_from_u64 first_arc) (OidFirstArcOverflow error_offset))
                  (\<lambda>first_arc_u32.
                rbind (ok_or (u32_try_from_u64 second_arc) (OidSecondArcOverflow error_offset))
                  (\<lambda>second_arc_u32.
                rbind (rcollect (\<lambda>sub_id. ok_or (u32_try_from_u64 sub_id) (OidArcOverflow error_offset)) rest)
                  (\<lambda>arcs.
                map_err (OidInvalid error_offset)
                  (oid_try_from (first_arc_u32 # second_arc_u32 # arcs))))))))"

subsection \<open>Base 128\<close>

text \<open>The base-128 value of a sub-identifier, and its shape: continuation octets with the
  high bit set, then one final octet without it.\<close>

definition base128_nat :: "bytes \<Rightarrow> nat" where
  "base128_nat bs = foldl (\<lambda>a b. a * 128 + unat b mod 128) 0 bs"

definition is_sub_identifier :: "bytes \<Rightarrow> bool" where
  "is_sub_identifier bs \<longleftrightarrow> bs \<noteq> [] \<and> (\<forall>b \<in> set (butlast bs). 128 \<le> unat b) \<and> unat (last bs) < 128"

lemma low7_u64: "ucast (b AND 0x7F :: u8) = (word_of_nat (unat b mod 128) :: u64)"
  by (simp add: low_seven_bits[symmetric])

lemma unat_low7: "unat (ucast ((v::u64) AND 0x7F) :: u8) = unat v mod 128"
proof -
  have m: "(0x7F :: u64) = mask 7" by (simp add: mask_eq_exp_minus_1)
  have "unat (v AND 0x7F) = unat v mod 128"
    unfolding m by (simp add: take_bit_eq_mask[symmetric] take_bit_eq_mod unat_mod_distrib)
  then show ?thesis by (simp add: unsigned_ucast_eq take_bit_eq_mod)
qed

lemma unat_push7: "unat (push_bit 7 (a::u64)) = unat a * 128 mod 2 ^ 64"
  by (simp add: push_bit_eq_mult unat_word_ariths)

lemma word_of_nat_u64_eq: "n mod 2 ^ 64 = m mod 2 ^ 64 \<Longrightarrow> (word_of_nat n :: u64) = word_of_nat m"
  by (simp add: word_unat_eq_iff unsigned_of_nat take_bit_eq_mod)

lemma checked_shift_add:
  "Option.bind (u64_checked_shl a 7) (\<lambda>shifted. u64_checked_add shifted (ucast (b AND 0x7F :: u8)))
     = Some (word_of_nat (unat a * 128 + unat b mod 128))"
proof -
  have d: "\<exists>k. unat a * 128 mod 2 ^ 64 = 128 * k \<and> k < 2 ^ 57"
  proof -
    have "unat a * 128 mod (2 ^ 57 * 128) = (unat a mod 2 ^ 57) * 128"
      by (rule mult_mod_left[symmetric])
    moreover have "unat a mod 2 ^ 57 < 2 ^ 57" by simp
    ultimately show ?thesis by (intro exI[of _ "unat a mod 2 ^ 57"]) (simp add: mult.commute)
  qed
  then obtain k where k: "unat a * 128 mod 2 ^ 64 = 128 * k" "k < 2 ^ 57" by blast
  have m: "unat b mod 128 < 128" by simp
  have u: "unat (word_of_nat (unat b mod 128) :: u64) = unat b mod 128"
    using m by (simp add: unsigned_of_nat take_bit_nat_eq_self)
  have "unat (push_bit 7 a) + unat b mod 128 < 2 ^ 64"
    unfolding unat_push7 k(1) using k(2) m by simp
  moreover have "push_bit 7 a = word_of_nat (unat a * 128)"
    by (simp add: push_bit_eq_mult)
  ultimately show ?thesis
    by (simp add: u64_checked_shl_def u64_checked_add_def low7_u64 u)
qed

lemma base128_nat_snoc [simp]: "base128_nat (bs @ [b]) = base128_nat bs * 128 + unat b mod 128"
  by (simp add: base128_nat_def)

lemma base128_nat_Nil [simp]: "base128_nat [] = 0"
  by (simp add: base128_nat_def)

lemma decode_base128_loop_step:
  "decode_base128_loop (b # rest) off (word_of_nat a) n =
    (if unat b < 128 then Inr (word_of_nat (a * 128 + unat b mod 128), n + 1)
     else decode_base128_loop rest off (word_of_nat (a * 128 + unat b mod 128)) (n + 1))"
proof -
  have w: "(word_of_nat (unat (word_of_nat a :: u64) * 128 + unat b mod 128) :: u64)
      = word_of_nat (a * 128 + unat b mod 128)"
    by simp
  show ?thesis
    by (simp only: decode_base128_loop.simps checked_shift_add ok_or_simps rbind_Inr w high_bit_clear)
qed

lemma decode_base128_loop_spec:
  assumes "\<forall>b \<in> set cs. 128 \<le> unat b" "unat l < 128"
  shows "decode_base128_loop (cs @ l # rest) off (word_of_nat a) n
    = Inr (word_of_nat (foldl (\<lambda>a b. a * 128 + unat b mod 128) a (cs @ [l])), n + length cs + 1)"
  using assms
proof (induction cs arbitrary: a n)
  case Nil
  then show ?case by (simp only: append_Nil decode_base128_loop_step) simp
next
  case (Cons c cs)
  have h: "\<not> unat c < 128" using Cons.prems by auto
  have "decode_base128_loop (cs @ l # rest) off (word_of_nat (a * 128 + unat c mod 128)) (n + 1)
    = Inr (word_of_nat (foldl (\<lambda>a b. a * 128 + unat b mod 128) (a * 128 + unat c mod 128) (cs @ [l])),
           n + 1 + length cs + 1)"
    using Cons.prems by (intro Cons.IH) auto
  moreover have "n + 1 + length cs + 1 = n + length (c # cs) + 1" by simp
  ultimately show ?case
    by (simp only: append_Cons decode_base128_loop_step h if_False foldl_Cons)
qed

lemma decode_base128_spec:
  assumes "is_sub_identifier bs"
  shows "decode_base128 (bs @ rest) off = Inr (word_of_nat (base128_nat bs), length bs)"
proof -
  obtain cs l where bs: "bs = cs @ [l]"
    using assms by (cases bs rule: rev_cases) (auto simp: is_sub_identifier_def)
  then have "\<forall>b \<in> set cs. 128 \<le> unat b" "unat l < 128"
    using assms by (auto simp: is_sub_identifier_def)
  from decode_base128_loop_spec[OF this, of rest off 0 0] show ?thesis
    unfolding bs decode_base128_def base128_nat_def by simp
qed

lemma decode_base128_truncated:
  "\<forall>b \<in> set bs. 128 \<le> unat b \<Longrightarrow> decode_base128_loop bs off (word_of_nat a) n = Inl (OidTruncated off)"
proof (induction bs arbitrary: a n)
  case Nil
  then show ?case by (simp only: decode_base128_loop.simps)
next
  case (Cons b bs)
  then have "\<not> unat b < 128" by auto
  moreover have "decode_base128_loop bs off (word_of_nat (a * 128 + unat b mod 128)) (n + 1) = Inl (OidTruncated off)"
    using Cons.prems by (intro Cons.IH) auto
  ultimately show ?case by (simp only: decode_base128_loop_step if_False)
qed

lemma base128_groups_spec:
  "(\<forall>g \<in> set (base128_groups v). unat g < 128) \<and> base128_nat (rev (base128_groups v)) = unat v
     \<and> (base128_groups v = [] \<longleftrightarrow> v = 0)"
proof (induction v rule: base128_groups.induct)
  case (1 v)
  show ?case
  proof (cases "0 < v")
    case True
    have g: "unat (ucast (v AND 0x7F) :: u8) = unat v mod 128" by (rule unat_low7)
    show ?thesis using 1[OF True] True
      by (subst (1 2 3) base128_groups.simps)
        (auto simp: g drop_bit_eq_div unat_div_distrib)
  next
    case False
    then have "v = 0" by (simp add: word_gt_0)
    then show ?thesis by (simp add: base128_groups.simps)
  qed
qed

lemma base128_emit_rev:
  "map (\<lambda>(index, group). group + (if index > 0 then 0x80 else 0x00)) (rev (enumerate 0 (g # gs)))
    = map (\<lambda>g. g + 0x80) (rev gs) @ [g :: u8]"
proof -
  have "map (\<lambda>(index, group). group + (if index > 0 then 0x80 else 0x00)) (enumerate (Suc n) gs)
    = map (\<lambda>g. g + (0x80::u8)) gs" for n
    by (induction gs arbitrary: n) auto
  then show ?thesis by (simp add: rev_map[symmetric])
qed

lemma unat_add_128: "unat (g::u8) < 128 \<Longrightarrow> unat (g + 0x80) = unat g + 128"
  by (simp add: unat_word_ariths)

lemma base128_nat_set_high:
  "\<forall>g \<in> set gs. unat g < 128 \<Longrightarrow> base128_nat (map (\<lambda>g. g + 0x80) gs) = base128_nat gs"
  by (induction gs rule: rev_induct) (auto simp: unat_add_128)

lemma encode_base128_append: "encode_base128 dest v = dest @ encode_base128 [] v"
  by (simp add: encode_base128_def Let_def)

lemma encode_base128_spec:
  "is_sub_identifier (encode_base128 [] v)" "base128_nat (encode_base128 [] v) = unat v"
proof -
  have "is_sub_identifier (encode_base128 [] v) \<and> base128_nat (encode_base128 [] v) = unat v"
  proof (cases "base128_groups v")
    case Nil
    then show ?thesis using base128_groups_spec[of v]
      by (simp add: encode_base128_def is_sub_identifier_def base128_nat_def)
  next
    case (Cons g gs)
    then have s: "\<forall>g \<in> set gs. unat g < 128" "unat g < 128" "v \<noteq> 0"
      "base128_nat (rev gs) * 128 + unat g = unat v"
      using base128_groups_spec[of v] by auto
    have e: "encode_base128 [] v = map (\<lambda>g. g + 0x80) (rev gs) @ [g]"
      using s(3) base128_emit_rev[of g gs] Cons by (simp add: encode_base128_def Let_def)
    show ?thesis using s base128_nat_set_high[of "rev gs"]
      by (simp add: e is_sub_identifier_def unat_add_128)
  qed
  then show "is_sub_identifier (encode_base128 [] v)" "base128_nat (encode_base128 [] v) = unat v"
    by auto
qed

lemma decode_encode_base128:
  "decode_base128 (encode_base128 [] v @ rest) off = Inr (v, length (encode_base128 [] v))"
  by (simp add: decode_base128_spec encode_base128_spec)


subsection \<open>Sub-identifier sequences\<close>

lemma length_is_sub_identifier: "is_sub_identifier bs \<Longrightarrow> 0 < length bs"
  by (simp add: is_sub_identifier_def)

lemma decode_sub_identifiers_append:
  assumes "is_sub_identifier bs"
  shows "decode_sub_identifiers (bs @ rest) off =
    rbind (decode_sub_identifiers rest off) (\<lambda>ids. Inr (word_of_nat (base128_nat bs) # ids))"
  using assms length_is_sub_identifier[OF assms]
  by (subst decode_sub_identifiers.simps) (auto simp: decode_base128_spec)

lemma decode_sub_identifiers_Nil [simp]: "decode_sub_identifiers [] off = Inr []"
  by (subst decode_sub_identifiers.simps) simp

lemma decode_sub_identifiers_encode:
  "decode_sub_identifiers (concat (map (encode_base128 []) vs)) off = Inr vs"
  by (induction vs) (simp_all add: decode_sub_identifiers_append encode_base128_spec)

lemma encode_oid_concat:
  "foldl (\<lambda>encoded arc. encode_base128 encoded (ucast arc)) dest arcs
    = dest @ concat (map (\<lambda>arc. encode_base128 [] (ucast arc)) arcs)"
proof (induction arcs arbitrary: dest)
  case (Cons a arcs)
  show ?case unfolding foldl_Cons Cons.IH by (subst encode_base128_append) simp
qed simp

lemma u32_try_from_ucast [simp]: "u32_try_from_u64 (ucast (v::u32)) = Some v"
  using unat_i32_less[of v]
  by (simp add: u32_try_from_u64_def unat_ucast_up_u64 ucast_ucast_u64)

definition combine_arcs :: "u32 \<Rightarrow> u32 \<Rightarrow> u64" where
  "combine_arcs a b = ucast a * 40 + ucast b"

lemma split_combine_arcs:
  assumes "unat a \<le> 2" "unat a \<le> 1 \<longrightarrow> unat b \<le> 39"
  shows "split_first_arcs (combine_arcs a b) = (ucast a, ucast b)"
proof -
  have b: "unat (ucast b :: u64) < 4294967296" using unat_i32_less[of b] by (simp only: unat_ucast_up_u64)
  have c: "unat a = 0 \<or> unat a = 1 \<or> unat a = 2" using assms(1) by linarith
  then have "a = 0 \<or> a = 1 \<or> a = 2" by (simp add: word_unat_eq_iff)
  then consider "a = 0" | "a = 1" | "a = 2" by blast
  then show ?thesis
  proof cases
    case 1
    then show ?thesis using assms(2)
      by (simp add: split_first_arcs_def combine_arcs_def word_less_nat_alt unat_ucast_up_u64)
  next
    case 2
    have "unat (40 + ucast b :: u64) = 40 + unat b"
      using b by (simp add: unat_word_ariths unat_ucast_up_u64)
    then show ?thesis using assms(2) 2
      by (simp add: split_first_arcs_def combine_arcs_def word_less_nat_alt)
  next
    case 3
    have "unat (80 + ucast b :: u64) = 80 + unat b"
      using b by (simp add: unat_word_ariths unat_ucast_up_u64)
    then show ?thesis using 3
      by (simp add: split_first_arcs_def combine_arcs_def word_less_nat_alt)
  qed
qed

lemma decode_encode_oid [simp]: "decode_oid (encode_oid oid) off = Inr oid"
proof -
  obtain a b arcs where d: "as_slice oid = a # b # arcs" "unat a \<le> 2" "unat a \<le> 1 \<longrightarrow> unat b \<le> 39"
    by (rule oid_arcs_cases)
  have e: "encode_oid oid = concat (map (encode_base128 []) (combine_arcs a b # map ucast arcs))"
    using d(1) by (simp add: encode_oid_def decompose_def combine_arcs_def encode_oid_concat comp_def)
  have ne: "encode_oid oid \<noteq> []"
    using encode_base128_spec(1)[of "combine_arcs a b"] by (simp add: e is_sub_identifier_def)
  have c: "rcollect (\<lambda>sub_id. ok_or (u32_try_from_u64 sub_id) (OidArcOverflow off)) (map ucast arcs) = Inr arcs"
    by (induction arcs) auto
  have "decode_sub_identifiers (encode_oid oid) off = Inr (combine_arcs a b # map ucast arcs)"
    unfolding e by (rule decode_sub_identifiers_encode)
  then show ?thesis
    using ne by (simp add: decode_oid_def split_combine_arcs[OF d(2,3)] c d(1)[symmetric])
qed

section \<open>Properties\<close>

lemma decode_signed_i32_iff:
  "decode_signed_i32 bs off = Inr v \<longleftrightarrow> bs \<noteq> [] \<and> tc_value bs = sint v"
proof (cases "bs = []")
  case True
  then show ?thesis by (simp add: decode_signed_i32_def)
next
  case False
  have s: "sint (word_of_int k :: i32) = k" if "fits_i32 k" for k
    using that by (simp add: fits_i32_def signed_of_int signed_take_bit_int_eq_self)
  show ?thesis
  proof (cases "fits_i32 (tc_value bs)")
    case True
    have "word_of_int (tc_value bs) = v \<longleftrightarrow> tc_value bs = sint v" using s[OF True] by auto
    then show ?thesis using decode_signed_i32_value(1)[OF False True, of off] False by simp
  next
    case F: False
    then have "tc_value bs \<noteq> sint v" using sint_fits_i32[of v] by metis
    then show ?thesis using decode_signed_i32_value(2)[OF False F, of off] by auto
  qed
qed

lemma decode_unsigned_iff:
  assumes "0 < N" "N \<le> 8"
  shows "decode_unsigned N bs off = Inr v \<longleftrightarrow>
    bs \<noteq> [] \<and> unat (hd bs) < 128 \<and> be_nat bs = unat v \<and> unat v < 256 ^ N"
proof (cases bs)
  case Nil
  then show ?thesis by (simp add: decode_unsigned_def)
next
  case (Cons b rest)
  show ?thesis
  proof (cases "unat b < 128")
    case False
    then show ?thesis by (simp add: decode_unsigned_def Cons high_bit_clear)
  next
    case True
    have h: "bs \<noteq> []" "unat (hd bs) < 128" using True by (simp_all add: Cons)
    have "(256::nat) ^ N \<le> 256 ^ 8" using assms(2) by (rule power_increasing) simp
    then have u: "be_nat bs < 256 ^ N \<Longrightarrow> unat (word_of_nat (be_nat bs) :: u64) = be_nat bs"
      by (simp add: unsigned_of_nat take_bit_nat_eq_self)
    show ?thesis
    proof (cases "be_nat bs < 256 ^ N")
      case True
      then have "word_of_nat (be_nat bs) = v \<longleftrightarrow> be_nat bs = unat v"
        using u by (auto simp: word_unat_eq_iff)
      then show ?thesis using decode_unsigned_value(1)[OF h assms(1) True, of off] h True by auto
    next
      case False
      then show ?thesis using decode_unsigned_value(2)[OF h assms(1) False, of off] h by auto
    qed
  qed
qed

lemma decode_unsigned_u32_iff:
  "decode_unsigned_u32 bs off = Inr v \<longleftrightarrow> bs \<noteq> [] \<and> unat (hd bs) < 128 \<and> be_nat bs = unat v"
proof -
  have "decode_unsigned_u32 bs off = Inr v \<longleftrightarrow>
    (\<exists>w. decode_unsigned 4 bs off = Inr w \<and> u32_try_from_u64 w = Some v)"
    by (auto simp: decode_unsigned_u32_def result_Inr_iffs)
  also have "\<dots> \<longleftrightarrow> decode_unsigned 4 bs off = Inr (ucast v)"
  proof
    assume "\<exists>w. decode_unsigned 4 bs off = Inr w \<and> u32_try_from_u64 w = Some v"
    then obtain w where w: "decode_unsigned 4 bs off = Inr w" "unat w < 4294967296" "word_of_nat (unat w) = v"
      by (auto simp: u32_try_from_u64_def split: if_splits)
    have "unat v = unat w"
      using w(2) by (simp add: w(3)[symmetric] unsigned_of_nat take_bit_nat_eq_self del: of_nat_unat)
    then have "w = ucast v" by (simp add: word_unat_eq_iff unat_ucast_up_u64)
    then show "decode_unsigned 4 bs off = Inr (ucast v)" using w(1) by simp
  qed auto
  also have "\<dots> \<longleftrightarrow> bs \<noteq> [] \<and> unat (hd bs) < 128 \<and> be_nat bs = unat v"
    using unat_i32_less[of v] by (subst decode_unsigned_iff) (auto simp: unat_ucast_up_u64)
  finally show ?thesis .
qed

text \<open>The INTEGER decoder accepts exactly the non-empty byte strings whose two's-complement
  value is representable as an \<open>i32\<close>, whatever redundant sign bytes they carry, and returns
  that value.\<close>

theorem integer_decoder_exact:
  "decode_signed_i32 bs off = Inr v \<longleftrightarrow> bs \<noteq> [] \<and> tc_value bs = sint v"
  by (rule decode_signed_i32_iff)

text \<open>The INTEGER encoder is inverted by the decoder and is the shortest encoding: no byte
  string the decoder reads as the same value has fewer bytes.\<close>

theorem integer_encoder_shortest:
  "decode_signed_i32 (encode_signed_i32 v) off = Inr v
   \<and> (decode_signed_i32 bs off' = Inr v \<longrightarrow> length (encode_signed_i32 v) \<le> length bs)"
  using encode_signed_i32_minimal[of bs v] by (simp add: decode_signed_i32_iff)

theorem integer_encoder_shortest_witness:
  "decode_signed_i32 [0x00, 0x00, 0x80] 0 = Inr 128 \<and> length (encode_signed_i32 128) \<le> 3"
proof -
  have d: "decode_signed_i32 [0x00, 0x00, 0x80] 0 = Inr 128"
    by (simp add: decode_signed_i32_iff tc_value_def)
  show ?thesis using d integer_encoder_shortest[of 128 0 "[0x00, 0x00, 0x80]" 0] by simp
qed

text \<open>The unsigned decoders accept exactly the non-empty byte strings whose sign bit is clear
  and whose big-endian value fits the target type, and return that value; negative INTEGERs
  and values out of range are errors.\<close>

theorem unsigned_decoder_exact:
  "(decode_unsigned_u32 bs off = Inr v \<longleftrightarrow> bs \<noteq> [] \<and> unat (hd bs) < 128 \<and> be_nat bs = unat v)
   \<and> (decode_unsigned_u64 bs off = Inr w \<longleftrightarrow> bs \<noteq> [] \<and> unat (hd bs) < 128 \<and> be_nat bs = unat w)"
  using decode_unsigned_u32_iff[of bs off v] decode_unsigned_iff[of 8 bs off w] unat_u64_less[of w]
  by (auto simp: decode_unsigned_u64_def)

text \<open>OBJECT IDENTIFIER contents survive the round trip for every valid OID, the arcs after
  a first arc of 2 included.\<close>

theorem oid_contents_round_trip:
  "decode_oid (encode_oid oid) off = Inr oid"
  by (rule decode_encode_oid)

text \<open>C40: A sub-identifier is decoded to its base-128 value modulo \<open>2 ^ 64\<close>: shifting with
  \<open>checked_shl\<close> never reports that bits were lost, so the overflow error of the decoder is
  never raised and an over-long sub-identifier is read as a different arc.\<close>

theorem sub_identifier_wraps:
  assumes "is_sub_identifier bs"
  shows "decode_base128 (bs @ rest) off = Inr (word_of_nat (base128_nat bs), length bs)"
  using assms by (rule decode_base128_spec)

theorem sub_identifier_wraps_witness:
  "decode_base128 [0x82, 0x80, 0x80, 0x80, 0x80, 0x80, 0x80, 0x80, 0x80, 0x05] 0 = Inr (5, 10)
   \<and> base128_nat [0x82, 0x80, 0x80, 0x80, 0x80, 0x80, 0x80, 0x80, 0x80, 0x05] = 2 ^ 64 + 5"
proof -
  let ?bs = "[0x82, 0x80, 0x80, 0x80, 0x80, 0x80, 0x80, 0x80, 0x80, 0x05] :: bytes"
  have n: "base128_nat ?bs = 2 ^ 64 + 5" by (simp add: base128_nat_def)
  have "is_sub_identifier ?bs" by (simp add: is_sub_identifier_def)
  from sub_identifier_wraps[OF this, of "[]" 0]
  have "decode_base128 ?bs 0 = Inr (word_of_nat (2 ^ 64 + 5), 10)" using n by simp
  moreover have "(word_of_nat (2 ^ 64 + 5) :: u64) = 5"
    by (simp add: word_unat_eq_iff unsigned_of_nat take_bit_eq_mod)
  ultimately show ?thesis using n by simp
qed

end
