(* ===== verification/Ber.thy ===== *)
theory Ber
  imports Ber_Prim
begin

text \<open>
  The TLV layer of \<open>src/src/codec/ber.rs\<close>: the tag constants, the \<open>BerWriter\<close>
  accumulator and the \<open>BerReader\<close> cursor. A reader operation takes the reader and
  returns an error or a value with the advanced reader; the code never uses a reader
  after an error (every call site propagates it with \<open>?\<close>), so the error carries no
  reader. The locale \<open>reader_op\<close> is the contract of a reading operation (it stays
  within its input and makes progress), the locale \<open>field_codec\<close> the contract of a
  writer and reader pair; both are interpreted on every primitive of the file.
\<close>

section \<open>Tags\<close>

definition TAG_INTEGER :: u8 where "TAG_INTEGER = 0x02"
definition TAG_OCTET_STRING :: u8 where "TAG_OCTET_STRING = 0x04"
definition TAG_NULL :: u8 where "TAG_NULL = 0x05"
definition TAG_OID :: u8 where "TAG_OID = 0x06"
definition TAG_SEQUENCE :: u8 where "TAG_SEQUENCE = 0x30"
definition TAG_GET_REQUEST :: u8 where "TAG_GET_REQUEST = 0xA0"
definition TAG_GET_NEXT_REQUEST :: u8 where "TAG_GET_NEXT_REQUEST = 0xA1"
definition TAG_RESPONSE :: u8 where "TAG_RESPONSE = 0xA2"
definition TAG_SET_REQUEST :: u8 where "TAG_SET_REQUEST = 0xA3"
definition TAG_GET_BULK_REQUEST :: u8 where "TAG_GET_BULK_REQUEST = 0xA5"
definition TAG_INFORM_REQUEST :: u8 where "TAG_INFORM_REQUEST = 0xA6"
definition TAG_TRAP :: u8 where "TAG_TRAP = 0xA7"
definition TAG_REPORT :: u8 where "TAG_REPORT = 0xA8"
definition TAG_NO_SUCH_OBJECT :: u8 where "TAG_NO_SUCH_OBJECT = 0x80"
definition TAG_NO_SUCH_INSTANCE :: u8 where "TAG_NO_SUCH_INSTANCE = 0x81"
definition TAG_END_OF_MIB_VIEW :: u8 where "TAG_END_OF_MIB_VIEW = 0x82"
definition TAG_IP_ADDRESS :: u8 where "TAG_IP_ADDRESS = 0x40"
definition TAG_COUNTER32 :: u8 where "TAG_COUNTER32 = 0x41"
definition TAG_GAUGE32 :: u8 where "TAG_GAUGE32 = 0x42"
definition TAG_TIMETICKS :: u8 where "TAG_TIMETICKS = 0x43"
definition TAG_OPAQUE :: u8 where "TAG_OPAQUE = 0x44"
definition TAG_COUNTER64 :: u8 where "TAG_COUNTER64 = 0x46"

lemmas tag_defs = TAG_INTEGER_def TAG_OCTET_STRING_def TAG_NULL_def TAG_OID_def TAG_SEQUENCE_def
  TAG_GET_REQUEST_def TAG_GET_NEXT_REQUEST_def TAG_RESPONSE_def TAG_SET_REQUEST_def
  TAG_GET_BULK_REQUEST_def TAG_INFORM_REQUEST_def TAG_TRAP_def TAG_REPORT_def
  TAG_NO_SUCH_OBJECT_def TAG_NO_SUCH_INSTANCE_def TAG_END_OF_MIB_VIEW_def TAG_IP_ADDRESS_def
  TAG_COUNTER32_def TAG_GAUGE32_def TAG_TIMETICKS_def TAG_OPAQUE_def TAG_COUNTER64_def

section \<open>The writer\<close>

record BerWriter =
  bw_buffer :: bytes

definition writer_new :: BerWriter where
  "writer_new = \<lparr>bw_buffer = []\<rparr>"

definition write_raw :: "bytes \<Rightarrow> BerWriter \<Rightarrow> BerWriter" where
  "write_raw bytes w = w\<lparr>bw_buffer := bw_buffer w @ bytes\<rparr>"

definition write_tlv :: "u8 \<Rightarrow> bytes \<Rightarrow> BerWriter \<Rightarrow> BerWriter" where
  "write_tlv tag value w =
     w\<lparr>bw_buffer := encode_length (bw_buffer w @ [tag]) (length value) @ value\<rparr>"

definition write_sequence :: "bytes \<Rightarrow> BerWriter \<Rightarrow> BerWriter" where
  "write_sequence contents w = write_tlv TAG_SEQUENCE contents w"

definition write_constructed :: "u8 \<Rightarrow> bytes \<Rightarrow> BerWriter \<Rightarrow> BerWriter" where
  "write_constructed tag contents w = write_tlv tag contents w"

definition write_integer :: "i32 \<Rightarrow> BerWriter \<Rightarrow> BerWriter" where
  "write_integer value w = write_tlv TAG_INTEGER (encode_signed_i32 value) w"

definition write_unsigned32 :: "u32 \<Rightarrow> BerWriter \<Rightarrow> BerWriter" where
  "write_unsigned32 value w = write_tlv TAG_INTEGER (encode_unsigned_u32 value) w"

definition write_unsigned64 :: "u64 \<Rightarrow> BerWriter \<Rightarrow> BerWriter" where
  "write_unsigned64 value w = write_tlv TAG_INTEGER (encode_unsigned_u64 value) w"

definition write_tagged_unsigned32 :: "u8 \<Rightarrow> u32 \<Rightarrow> BerWriter \<Rightarrow> BerWriter" where
  "write_tagged_unsigned32 tag value w = write_tlv tag (encode_unsigned_u32 value) w"

definition write_tagged_unsigned64 :: "u8 \<Rightarrow> u64 \<Rightarrow> BerWriter \<Rightarrow> BerWriter" where
  "write_tagged_unsigned64 tag value w = write_tlv tag (encode_unsigned_u64 value) w"

definition write_octet_string :: "bytes \<Rightarrow> BerWriter \<Rightarrow> BerWriter" where
  "write_octet_string bytes w = write_tlv TAG_OCTET_STRING bytes w"

definition write_null :: "BerWriter \<Rightarrow> BerWriter" where
  "write_null w = w\<lparr>bw_buffer := bw_buffer w @ [TAG_NULL] @ [0x00]\<rparr>"

definition write_oid :: "Oid \<Rightarrow> BerWriter \<Rightarrow> BerWriter" where
  "write_oid oid w = write_tlv TAG_OID (encode_oid oid) w"

definition as_bytes :: "BerWriter \<Rightarrow> bytes" where
  "as_bytes w = bw_buffer w"

definition writer_len :: "BerWriter \<Rightarrow> nat" where
  "writer_len w = length (bw_buffer w)"

definition into_vec :: "BerWriter \<Rightarrow> bytes" where
  "into_vec w = bw_buffer w"

section \<open>The reader\<close>

record BerReader =
  rd_input :: bytes
  rd_position :: nat
  rd_base_offset :: nat

type_synonym 'a ber_read = "BerReader \<Rightarrow> BerError + 'a \<times> BerReader"

definition reader_new_with_offset :: "bytes \<Rightarrow> nat \<Rightarrow> BerReader" where
  "reader_new_with_offset input base_offset =
     \<lparr>rd_input = input, rd_position = 0, rd_base_offset = base_offset\<rparr>"

definition reader_new :: "bytes \<Rightarrow> BerReader" where
  "reader_new input = \<lparr>rd_input = input, rd_position = 0, rd_base_offset = 0\<rparr>"

definition reader_offset :: "BerReader \<Rightarrow> nat" where
  "reader_offset r = rd_base_offset r + rd_position r"

definition reader_is_empty :: "BerReader \<Rightarrow> bool" where
  "reader_is_empty r \<longleftrightarrow> length (rd_input r) \<le> rd_position r"

text \<open>\<open>None\<close> is the panic of the \<open>expect\<close>.\<close>

definition remaining :: "BerReader \<Rightarrow> bytes option" where
  "remaining r = slice_get (rd_input r) (rd_position r) (length (rd_input r))"

text \<open>Moving the cursor: \<open>self.position += n\<close>.\<close>

definition advance :: "nat \<Rightarrow> BerReader \<Rightarrow> BerReader" where
  "advance n r = r\<lparr>rd_position := rd_position r + n\<rparr>"

definition peek_tag :: "BerReader \<Rightarrow> BerError + u8" where
  "peek_tag r = ok_or (list_get (rd_input r) (rd_position r)) (EndOfInputTag (reader_offset r))"

definition read_tag :: "u8 ber_read" where
  "read_tag r = rbind (peek_tag r) (\<lambda>tag. Inr (tag, advance 1 r))"

definition read_long_form_length :: "u8 \<Rightarrow> nat ber_read" where
  "read_long_form_length first_byte r =
     (if first_byte = 0xFF then Inl (ReservedLength (reader_offset r))
      else
        let extra_byte_count = unat (first_byte AND 0x7F)
        in if extra_byte_count = 0 then Inl (IndefiniteLength (reader_offset r))
           else if extra_byte_count > 8 then Inl (LengthTooLarge extra_byte_count (reader_offset r))
           else rbind (ok_or (slice_get (rd_input r) (rd_position r) (rd_position r + extra_byte_count))
                             (TruncatedLength extra_byte_count (reader_offset r)))
             (\<lambda>length_bytes.
                let r = advance extra_byte_count r
                in rbind (ok_or (accumulate_length length_bytes 0) (LengthOverflow (reader_offset r)))
                     (\<lambda>len. Inr (len, r))))"

definition read_length :: "nat ber_read" where
  "read_length r =
     rbind (ok_or (list_get (rd_input r) (rd_position r)) (EndOfInputLength (reader_offset r)))
       (\<lambda>first_byte.
          let r = advance 1 r
          in if first_byte AND 0x80 = 0 then Inr (unat first_byte, r)
             else read_long_form_length first_byte r)"

definition read_tlv :: "(u8 \<times> bytes) ber_read" where
  "read_tlv r =
     rbind (read_tag r) (\<lambda>(tag, r).
     rbind (read_length r) (\<lambda>(len, r).
     rbind (ok_or (Option.bind (usize_checked_add (rd_position r) len)
                     (\<lambda>end_pos. slice_get (rd_input r) (rd_position r) end_pos))
                  (TruncatedValue len (length (rd_input r) - rd_position r) tag (reader_offset r)))
       (\<lambda>value_slice. Inr ((tag, value_slice), advance len r))))"

definition read_expected_tlv :: "u8 \<Rightarrow> string \<Rightarrow> (nat \<times> bytes) ber_read" where
  "read_expected_tlv expected_tag type_name r =
     (let tag_start_offset = reader_offset r
      in rbind (read_tlv r) (\<lambda>((tag, value_bytes), r).
           if tag \<noteq> expected_tag
           then Inl (UnexpectedTag type_name expected_tag tag tag_start_offset)
           else Inr ((tag_start_offset, value_bytes), r)))"

definition read_constructed :: "u8 \<Rightarrow> BerReader ber_read" where
  "read_constructed expected_tag r =
     (let tag_start_offset = reader_offset r
      in rbind (read_tlv r) (\<lambda>((tag, contents), r).
           if tag \<noteq> expected_tag then Inl (UnexpectedConstructed expected_tag tag tag_start_offset)
           else
             let contents_offset = rd_base_offset r + rd_position r - length contents
             in Inr (reader_new_with_offset contents contents_offset, r)))"

definition read_sequence :: "BerReader ber_read" where
  "read_sequence r = read_constructed TAG_SEQUENCE r"

text \<open>The typed readers all decode the contents of one expected TLV.\<close>

definition read_integer :: "i32 ber_read" where
  "read_integer r =
     rbind (read_expected_tlv TAG_INTEGER ''INTEGER'' r) (\<lambda>((tag_start_offset, integer_bytes), r).
     rbind (decode_signed_i32 integer_bytes tag_start_offset) (\<lambda>v. Inr (v, r)))"

definition read_unsigned32 :: "u32 ber_read" where
  "read_unsigned32 r =
     rbind (read_expected_tlv TAG_INTEGER ''INTEGER'' r) (\<lambda>((tag_start_offset, integer_bytes), r).
     rbind (decode_unsigned_u32 integer_bytes tag_start_offset) (\<lambda>v. Inr (v, r)))"

definition read_unsigned64 :: "u64 ber_read" where
  "read_unsigned64 r =
     rbind (read_expected_tlv TAG_INTEGER ''INTEGER'' r) (\<lambda>((tag_start_offset, integer_bytes), r).
     rbind (decode_unsigned_u64 integer_bytes tag_start_offset) (\<lambda>v. Inr (v, r)))"

definition read_tagged_unsigned32 :: "u8 \<Rightarrow> u32 ber_read" where
  "read_tagged_unsigned32 expected_tag r =
     rbind (read_expected_tlv expected_tag ''tagged unsigned32'' r)
       (\<lambda>((tag_start_offset, integer_bytes), r).
     rbind (decode_unsigned_u32 integer_bytes tag_start_offset) (\<lambda>v. Inr (v, r)))"

definition read_tagged_unsigned64 :: "u8 \<Rightarrow> u64 ber_read" where
  "read_tagged_unsigned64 expected_tag r =
     rbind (read_expected_tlv expected_tag ''tagged unsigned64'' r)
       (\<lambda>((tag_start_offset, integer_bytes), r).
     rbind (decode_unsigned_u64 integer_bytes tag_start_offset) (\<lambda>v. Inr (v, r)))"

definition read_octet_string :: "bytes ber_read" where
  "read_octet_string r =
     rbind (read_expected_tlv TAG_OCTET_STRING ''OCTET STRING'' r)
       (\<lambda>((_, string_bytes), r). Inr (string_bytes, r))"

definition read_null :: "unit ber_read" where
  "read_null r =
     rbind (read_expected_tlv TAG_NULL ''NULL'' r) (\<lambda>((tag_start_offset, null_contents), r).
     if null_contents \<noteq> [] then Inl (NullNotEmpty (length null_contents) tag_start_offset)
     else Inr ((), r))"

definition read_oid :: "Oid ber_read" where
  "read_oid r =
     rbind (read_expected_tlv TAG_OID ''OID'' r) (\<lambda>((tag_start_offset, oid_bytes), r).
     rbind (decode_oid oid_bytes tag_start_offset) (\<lambda>v. Inr (v, r)))"

section \<open>Reading what was written\<close>

text \<open>The unread bytes; the bounds every reader of the program obeys (a Rust slice has at
  most \<open>2 ^ 63 - 1\<close> bytes); and the encoding of one TLV.\<close>

definition reader_rest :: "BerReader \<Rightarrow> bytes" where
  "reader_rest r = drop (rd_position r) (rd_input r)"

definition reader_wf :: "BerReader \<Rightarrow> bool" where
  "reader_wf r \<longleftrightarrow> rd_position r \<le> length (rd_input r)
     \<and> rd_base_offset r + length (rd_input r) < 9223372036854775808"

definition tlv :: "u8 \<Rightarrow> bytes \<Rightarrow> bytes" where
  "tlv tag value = tag # encode_length [] (length value) @ value"

named_theorems writer_simps \<open>the bytes each writer operation appends\<close>

lemma advance_simps [simp]:
  "rd_input (advance n r) = rd_input r" "rd_position (advance n r) = rd_position r + n"
  "rd_base_offset (advance n r) = rd_base_offset r" "advance m (advance n r) = advance (n + m) r"
  "reader_offset (advance n r) = reader_offset r + n"
  by (simp_all add: advance_def reader_offset_def add.assoc)

lemma reader_rest_advance [simp]: "reader_rest (advance n r) = drop n (reader_rest r)"
  by (simp add: reader_rest_def add.commute)

lemma reader_wf_advance:
  "reader_wf r \<Longrightarrow> reader_rest r = xs @ rest \<Longrightarrow> reader_wf (advance (length xs) r)"
proof -
  assume wf: "reader_wf r" and "reader_rest r = xs @ rest"
  then have "length (rd_input r) - rd_position r = length xs + length rest"
    by (metis length_append length_drop reader_rest_def)
  then show ?thesis using wf by (auto simp: reader_wf_def)
qed

lemma reader_rest_length:
  assumes "reader_wf r" "reader_rest r = xs @ rest"
  shows "rd_position r + length xs \<le> length (rd_input r)" "length xs < 9223372036854775808"
proof -
  have "length (rd_input r) - rd_position r = length xs + length rest"
    using assms(2) by (metis length_append length_drop reader_rest_def)
  with assms(1) show "rd_position r + length xs \<le> length (rd_input r)" "length xs < 9223372036854775808"
    by (auto simp: reader_wf_def)
qed

lemma writer_append [writer_simps]:
  "bw_buffer writer_new = []"
  "bw_buffer (write_raw bs w) = bw_buffer w @ bs"
  "bw_buffer (write_tlv tag v w) = bw_buffer w @ tlv tag v"
  "bw_buffer (write_sequence v w) = bw_buffer w @ tlv TAG_SEQUENCE v"
  "bw_buffer (write_constructed tag v w) = bw_buffer w @ tlv tag v"
  "bw_buffer (write_integer i w) = bw_buffer w @ tlv TAG_INTEGER (encode_signed_i32 i)"
  "bw_buffer (write_unsigned32 u w) = bw_buffer w @ tlv TAG_INTEGER (encode_unsigned_u32 u)"
  "bw_buffer (write_unsigned64 c w) = bw_buffer w @ tlv TAG_INTEGER (encode_unsigned_u64 c)"
  "bw_buffer (write_tagged_unsigned32 tag u w) = bw_buffer w @ tlv tag (encode_unsigned_u32 u)"
  "bw_buffer (write_tagged_unsigned64 tag c w) = bw_buffer w @ tlv tag (encode_unsigned_u64 c)"
  "bw_buffer (write_octet_string v w) = bw_buffer w @ tlv TAG_OCTET_STRING v"
  "bw_buffer (write_null w) = bw_buffer w @ tlv TAG_NULL []"
  "bw_buffer (write_oid oid w) = bw_buffer w @ tlv TAG_OID (encode_oid oid)"
  "as_bytes w = bw_buffer w" "into_vec w = bw_buffer w"
  using encode_length_append[of "bw_buffer w @ [tag]" for tag]
  by (simp_all add: writer_new_def write_raw_def write_tlv_def tlv_def write_sequence_def
      write_constructed_def write_integer_def write_unsigned32_def write_unsigned64_def
      write_tagged_unsigned32_def write_tagged_unsigned64_def write_octet_string_def write_null_def
      write_oid_def as_bytes_def into_vec_def encode_length_def)

lemma length_encode_length_pos [simp]: "encode_length [] n \<noteq> []"
  by (simp add: encode_length_def Let_def)

lemma length_tlv: "length (tlv tag v) = 1 + length (encode_length [] (length v)) + length v"
  by (simp add: tlv_def)

lemma length_octets_byte:
  assumes "127 < n" "n < usize_limit"
  shows "unat (0x80 + word_of_nat (length_octets n) :: u8) = 128 + length_octets n"
    "unat ((0x80 + word_of_nat (length_octets n) :: u8) AND 0x7F) = length_octets n"
proof -
  have b: "length_octets n < 128" using length_octets_bounds(2)[OF assms] by linarith
  then show u: "unat (0x80 + word_of_nat (length_octets n) :: u8) = 128 + length_octets n"
    by (simp add: unat_word_ariths unsigned_of_nat take_bit_nat_eq_self)
  show "unat ((0x80 + word_of_nat (length_octets n) :: u8) AND 0x7F) = length_octets n"
    unfolding low_seven_bits u using b by simp
qed

lemma read_length_encoded:
  assumes "reader_wf r" "reader_rest r = encode_length [] n @ rest" "n < usize_limit"
  shows "read_length r = Inr (n, advance (length (encode_length [] n)) r)"
proof (cases "n \<le> 127")
  case True
  then have e: "encode_length [] n = [word_of_nat n]" by (simp add: encode_length_def)
  have u: "unat (word_of_nat n :: u8) = n" using True by (simp add: unsigned_of_nat take_bit_nat_eq_self)
  have "list_get (rd_input r) (rd_position r) = Some (word_of_nat n)"
    using assms(2) unfolding e reader_rest_def by (intro list_get_drop) simp
  then show ?thesis using True u by (simp add: read_length_def high_bit_clear e)
next
  case False
  let ?k = "length_octets n" let ?b = "0x80 + word_of_nat (length_octets n) :: u8"
  have n: "127 < n" using False by simp
  note k = length_octets_bounds[OF n assms(3)] and b = length_octets_byte[OF n assms(3)]
  have e: "encode_length [] n = ?b # be_bytes ?k n" using n by (rule encode_length_long)
  have d: "drop (rd_position r) (rd_input r) = ?b # be_bytes ?k n @ rest"
    using assms(2) by (simp add: e reader_rest_def)
  have g: "list_get (rd_input r) (rd_position r) = Some ?b" using d by (rule list_get_drop)
  have nff: "?b \<noteq> 0xFF"
  proof
    assume "?b = 0xFF"
    then have "unat ?b = unat (0xFF :: u8)" by simp
    then show False using b(1) k(2) by simp
  qed
  have "rd_position r + 1 \<le> length (rd_input r)"
    using d by (metis Suc_eq_plus1 drop_eq_Nil2 list.discI not_less_eq_eq)
  moreover have "drop (rd_position r + 1) (rd_input r) = be_bytes ?k n @ rest"
    using d by (metis Suc_eq_plus1 drop_Suc drop_tl list.sel(3))
  ultimately have s: "slice_get (rd_input r) (rd_position r + 1) (rd_position r + 1 + ?k) = Some (be_bytes ?k n)"
    using slice_get_drop[of "rd_position r + 1" "rd_input r" "be_bytes ?k n" rest] by simp
  have a: "accumulate_length (be_bytes ?k n) 0 = Some n"
    using k by (simp add: accumulate_length_eight be_nat_be_bytes)
  have "read_long_form_length ?b (advance 1 r) = Inr (n, advance (1 + ?k) r)"
    unfolding read_long_form_length_def Let_def b(2) using nff k(1,2) s a by simp
  then show ?thesis unfolding read_length_def using g b(1)
    by (simp add: high_bit_clear e Let_def)
qed

lemma read_tlv_encoded:
  assumes "reader_wf r" "reader_rest r = tlv tag v @ rest"
  shows "read_tlv r = Inr ((tag, v), advance (length (tlv tag v)) r)"
proof -
  let ?L = "encode_length [] (length v)"
  have d: "reader_rest r = [tag] @ ?L @ v @ rest" using assms(2) by (simp add: tlv_def)
  have t: "read_tag r = Inr (tag, advance 1 r)"
    using d list_get_drop[of "rd_position r" "rd_input r"] unfolding reader_rest_def
    by (simp add: read_tag_def peek_tag_def)
  note len = reader_rest_length[OF assms]
  have wf1: "reader_wf (advance 1 r)" using reader_wf_advance[OF assms(1) d] by simp
  have "length v < usize_limit" using len by (simp add: length_tlv)
  then have l: "read_length (advance 1 r) = Inr (length v, advance (1 + length ?L) r)"
    using read_length_encoded[OF wf1, of "length v" "v @ rest"] d by simp
  have p: "rd_position r + 1 + length ?L + length v \<le> length (rd_input r)"
    using len(1) by (simp add: length_tlv)
  have "drop (rd_position r + 1 + length ?L) (rd_input r) = v @ rest"
    using d unfolding reader_rest_def
    by (metis (no_types, lifting) append.assoc append_eq_conv_conj drop_drop length_append
        One_nat_def add.commute length_Cons list.size(3))
  then have s: "slice_get (rd_input r) (rd_position r + 1 + length ?L)
      (rd_position r + 1 + length ?L + length v) = Some v"
    using p by (intro slice_get_drop) auto
  have "rd_position r + 1 + length ?L + length v < usize_limit"
    using p assms(1) by (simp add: reader_wf_def)
  then show ?thesis
    using t l s by (simp add: read_tlv_def usize_checked_add_def length_tlv add.assoc)
qed

lemma read_expected_tlv_encoded:
  assumes "reader_wf r" "reader_rest r = tlv tag v @ rest"
  shows "read_expected_tlv tag name r = Inr ((reader_offset r, v), advance (length (tlv tag v)) r)"
  using read_tlv_encoded[OF assms] by (simp add: read_expected_tlv_def Let_def)

lemma read_constructed_encoded:
  assumes "reader_wf r" "reader_rest r = tlv tag v @ rest"
  shows "read_constructed tag r =
    Inr (reader_new_with_offset v (reader_offset r + length (tlv tag v) - length v),
         advance (length (tlv tag v)) r)"
  using read_tlv_encoded[OF assms]
  by (simp add: read_constructed_def Let_def reader_offset_def add.assoc)

section \<open>Reading arbitrary input\<close>

text \<open>What one successful read consumes: a tag, a length field and the value, in this order,
  and nothing beyond the end of the input.\<close>

lemma list_get_rest:
  "list_get (rd_input r) (rd_position r) = Some b \<Longrightarrow> \<exists>ys. reader_rest r = b # ys"
  by (auto simp: list_get_def reader_rest_def Cons_nth_drop_Suc[symmetric] split: if_splits)

lemma read_tag_Inr:
  "read_tag r = Inr (tag, r') \<Longrightarrow> r' = advance 1 r \<and> (\<exists>ys. reader_rest r = tag # ys)"
  using list_get_rest[of r tag] by (auto simp: read_tag_def peek_tag_def result_Inr_iffs)

lemma read_length_Inr:
  assumes "read_length r = Inr (len, r')"
  shows "\<exists>h ys. h \<noteq> [] \<and> length h \<le> 9 \<and> r' = advance (length h) r \<and> reader_rest r = h @ ys"
proof -
  from assms obtain b where b: "list_get (rd_input r) (rd_position r) = Some b"
    and b': "(if b AND 0x80 = 0 then Inr (unat b, advance 1 r) else read_long_form_length b (advance 1 r))
       = Inr (len, r')"
    by (auto simp: read_length_def result_Inr_iffs Let_def simp del: One_nat_def)
  obtain ys where rest: "reader_rest r = b # ys" using list_get_rest[OF b] by blast
  show ?thesis
  proof (cases "b AND 0x80 = 0")
    case True
    then show ?thesis using b' rest by (intro exI[of _ "[b]"] exI[of _ ys]) auto
  next
    case False
    let ?k = "unat (b AND 0x7F)" let ?p = "rd_position r + 1"
    from False b' obtain bs where k: "?k \<noteq> 0" "?k \<le> 8" and r': "r' = advance (1 + ?k) r"
      and s: "slice_get (rd_input r) ?p (?p + ?k) = Some bs"
      by (auto simp: read_long_form_length_def Let_def result_Inr_iffs split: if_splits)
    have bs: "length bs = ?k" "drop ?p (rd_input r) = bs @ drop (?p + ?k) (rd_input r)"
      using slice_get_Some[OF s] by auto
    have "ys = drop 1 (reader_rest r)" using rest by simp
    also have "\<dots> = bs @ drop (?p + ?k) (rd_input r)" using bs(2) by (simp add: reader_rest_def)
    finally show ?thesis using rest bs(1) r' k
      by (intro exI[of _ "b # bs"] exI[of _ "drop (?p + ?k) (rd_input r)"]) simp
  qed
qed

lemma read_tlv_Inr:
  assumes "read_tlv r = Inr ((tag, v), r')"
  shows "\<exists>h ys. h \<noteq> [] \<and> length h \<le> 9 \<and> reader_rest r = tag # h @ v @ ys
    \<and> r' = advance (1 + length h + length v) r \<and> rd_position r' \<le> length (rd_input r)"
proof -
  from assms obtain len r1 r2 end_pos where t: "read_tag r = Inr (tag, r1)"
    and l: "read_length r1 = Inr (len, r2)" and r': "r' = advance len r2"
    and e: "usize_checked_add (rd_position r2) len = Some end_pos"
    and s: "slice_get (rd_input r2) (rd_position r2) end_pos = Some v"
    by (auto simp: read_tlv_def result_Inr_iffs bind_eq_Some_conv)
  obtain ys where r1: "r1 = advance 1 r" "reader_rest r = tag # ys" using read_tag_Inr[OF t] by blast
  obtain h zs where h: "h \<noteq> []" "r2 = advance (length h) r1" "reader_rest r1 = h @ zs" "length h \<le> 9"
    using read_length_Inr[OF l] by blast
  have ep: "end_pos = rd_position r2 + len" using e by (auto simp: usize_checked_add_def split: if_splits)
  note sl = slice_get_Some[OF s]
  have v: "length v = len" "reader_rest r2 = v @ drop end_pos (rd_input r2)"
    using sl by (auto simp: reader_rest_def ep)
  have "ys = h @ zs" using r1 h(3) by simp
  moreover have "zs = reader_rest r2" using h(2,3) by simp
  ultimately have "reader_rest r = tag # h @ v @ drop end_pos (rd_input r2)" using r1(2) v(2) by simp
  moreover have "rd_position r' \<le> length (rd_input r)" using sl r1 h(2) by (simp add: r' ep)
  moreover have "r' = advance (1 + length h + length v) r" using r' h(2) r1(1) v(1) by simp
  ultimately show ?thesis using h(1,4) by blast
qed

text \<open>The contract of a reading operation: success moves the cursor forward, within the input,
  and changes nothing else of the reader.\<close>

locale reader_op =
  fixes read :: "BerReader \<Rightarrow> BerError + 'a \<times> BerReader"
  assumes progress: "read r = Inr (x, r') \<Longrightarrow>
    \<exists>k>0. r' = advance k r \<and> rd_position r + k \<le> length (rd_input r)"
begin

lemma wf_preserved: "reader_wf r \<Longrightarrow> read r = Inr (x, r') \<Longrightarrow> reader_wf r'"
  using progress[of r x r'] by (auto simp: reader_wf_def)

lemma measure_decreases:
  "read r = Inr (x, r') \<Longrightarrow>
    length (rd_input r') - rd_position r' < length (rd_input r) - rd_position r"
  using progress[of r x r'] by auto

lemma remaining_never_panics:
  "reader_wf r \<Longrightarrow> read r = Inr (x, r') \<Longrightarrow> remaining r' = Some (reader_rest r')"
  using wf_preserved[of r x r'] by (simp add: remaining_def reader_wf_def slice_get_def reader_rest_def)

lemma not_on_empty: "reader_is_empty r \<Longrightarrow> read r \<noteq> Inr (x, r')"
  using progress[of r x r'] by (auto simp: reader_is_empty_def)

end

lemma read_tlv_progress:
  assumes "read_tlv r = Inr (x, r')"
  shows "\<exists>k>0. r' = advance k r \<and> rd_position r + k \<le> length (rd_input r)"
proof -
  obtain tag v where "read_tlv r = Inr ((tag, v), r')" using assms by (cases x) simp
  from read_tlv_Inr[OF this] obtain h :: bytes where
    "r' = advance (1 + length h + length v) r" "rd_position r' \<le> length (rd_input r)"
    by blast
  then show ?thesis by (intro exI[of _ "1 + length h + length v"]) (simp add: add.assoc)
qed

lemma read_expected_progress:
  assumes "read_expected_tlv tag name r = Inr (x, r')"
  shows "\<exists>k>0. r' = advance k r \<and> rd_position r + k \<le> length (rd_input r)"
proof -
  from assms obtain y where "read_tlv r = Inr (y, r')"
    by (auto simp: read_expected_tlv_def result_Inr_iffs Let_def split: if_splits)
  then show ?thesis by (rule read_tlv_progress)
qed

interpretation tlv_op: reader_op read_tlv
  by unfold_locales (rule read_tlv_progress)

interpretation constructed_op: reader_op "read_constructed tag" for tag
  by unfold_locales
    (auto simp: read_constructed_def result_Inr_iffs Let_def split: if_splits intro: read_tlv_progress)

interpretation sequence_op: reader_op read_sequence
  using constructed_op.progress by unfold_locales (simp add: read_sequence_def)

interpretation integer_op: reader_op read_integer
  by unfold_locales (auto simp: read_integer_def result_Inr_iffs intro: read_expected_progress)

interpretation unsigned32_op: reader_op read_unsigned32
  by unfold_locales (auto simp: read_unsigned32_def result_Inr_iffs intro: read_expected_progress)

interpretation unsigned64_op: reader_op read_unsigned64
  by unfold_locales (auto simp: read_unsigned64_def result_Inr_iffs intro: read_expected_progress)

interpretation tagged_unsigned32_op: reader_op "read_tagged_unsigned32 tag" for tag
  by unfold_locales (auto simp: read_tagged_unsigned32_def result_Inr_iffs intro: read_expected_progress)

interpretation tagged_unsigned64_op: reader_op "read_tagged_unsigned64 tag" for tag
  by unfold_locales (auto simp: read_tagged_unsigned64_def result_Inr_iffs intro: read_expected_progress)

interpretation octet_string_op: reader_op read_octet_string
  by unfold_locales (auto simp: read_octet_string_def result_Inr_iffs intro: read_expected_progress)

interpretation null_op: reader_op read_null
  by unfold_locales (auto simp: read_null_def result_Inr_iffs split: if_splits intro: read_expected_progress)

interpretation oid_op: reader_op read_oid
  by unfold_locales (auto simp: read_oid_def result_Inr_iffs intro: read_expected_progress)

text \<open>A reader over a window of a message: its base offset is where the window starts. Every
  sub-reader the program creates keeps this, so an offset it reports is an offset into the
  message.\<close>

definition reader_of :: "bytes \<Rightarrow> BerReader \<Rightarrow> bool" where
  "reader_of m r \<longleftrightarrow> rd_position r \<le> length (rd_input r)
     \<and> rd_base_offset r + length (rd_input r) \<le> length m
     \<and> take (length (rd_input r)) (drop (rd_base_offset r) m) = rd_input r"

lemma reader_of_new: "reader_of m (reader_new m)"
  by (simp add: reader_of_def reader_new_def)

lemma reader_of_wf: "reader_of m r \<Longrightarrow> length m < 9223372036854775808 \<Longrightarrow> reader_wf r"
  by (simp add: reader_of_def reader_wf_def)

lemma reader_of_rest:
  assumes "reader_of m r"
  shows "take (length (reader_rest r)) (drop (reader_offset r) m) = reader_rest r"
proof -
  have "drop (rd_position r) (take (length (rd_input r)) (drop (rd_base_offset r) m))
      = take (length (reader_rest r)) (drop (reader_offset r) m)"
    by (simp add: reader_rest_def reader_offset_def drop_take add.commute)
  then show ?thesis using assms unfolding reader_of_def by (simp only: reader_rest_def)
qed

context reader_op
begin

lemma reader_of_preserved: "reader_of m r \<Longrightarrow> read r = Inr (x, r') \<Longrightarrow> reader_of m r'"
  using progress[of r x r'] by (auto simp: reader_of_def)

end

lemma read_tlv_window:
  assumes "reader_of m r" "read_tlv r = Inr ((tag, v), r')"
  shows "reader_of m (reader_new_with_offset v (reader_offset r' - length v))" "length v \<le> reader_offset r'"
proof -
  obtain h ys where h: "reader_rest r = (tag # h) @ v @ ys"
    "r' = advance (1 + length h + length v) r" "rd_position r' \<le> length (rd_input r)"
    using read_tlv_Inr[OF assms(2)] by auto
  have off: "reader_offset r' - length v = reader_offset r + 1 + length h"
    by (simp add: h(2) reader_offset_def)
  have le: "reader_offset r' \<le> length m"
    using assms(1) h(2,3) by (simp add: reader_of_def reader_offset_def)
  have "take (length (reader_rest r)) (drop (reader_offset r) m) = (tag # h) @ v @ ys"
    using reader_of_rest[OF assms(1)] h(1) by (simp only:)
  then have "drop (reader_offset r) m = (tag # h) @ v @ (ys @ drop (length (reader_rest r)) (drop (reader_offset r) m))"
    using append_take_drop_id[of "length (reader_rest r)" "drop (reader_offset r) m"]
    by (simp only: append.assoc)
  then obtain z where "drop (reader_offset r) m = (tag # h) @ v @ z" by blast
  from arg_cong[OF this, of "drop (length (tag # h))"]
  have "drop (reader_offset r + 1 + length h) m = v @ z" by (simp add: add.commute)
  then show "reader_of m (reader_new_with_offset v (reader_offset r' - length v))"
    using le unfolding reader_of_def reader_new_with_offset_def off
    by (simp add: h(2) reader_offset_def add.assoc)
  show "length v \<le> reader_offset r'" by (simp add: h(2))
qed

lemma read_constructed_sub_reader:
  assumes "reader_of m r" "read_constructed tag r = Inr (sub, r')"
  shows "reader_of m sub" "rd_position sub = 0"
    "rd_base_offset sub + length (rd_input sub) = reader_offset r'"
proof -
  from assms(2) obtain v where t: "read_tlv r = Inr ((tag, v), r')"
    and sub: "sub = reader_new_with_offset v (reader_offset r' - length v)"
    by (auto simp: read_constructed_def result_Inr_iffs Let_def reader_offset_def split: if_splits)
  note w = read_tlv_window[OF assms(1) t]
  show "reader_of m sub" using w(1) by (simp add: sub)
  show "rd_position sub = 0" by (simp add: sub reader_new_with_offset_def)
  show "rd_base_offset sub + length (rd_input sub) = reader_offset r'"
    using w(2) by (simp add: sub reader_new_with_offset_def)
qed

lemma read_sequence_sub_reader:
  "reader_of m r \<Longrightarrow> read_sequence r = Inr (sub, r') \<Longrightarrow> reader_of m sub"
  unfolding read_sequence_def by (rule read_constructed_sub_reader(1))

lemma read_octet_string_window:
  assumes "reader_of m r" "read_octet_string r = Inr (bs, r')"
  shows "reader_of m (reader_new_with_offset bs (reader_offset r' - length bs))"
    "reader_offset r' - length bs + length bs \<le> length m"
    "take (length bs) (drop (reader_offset r' - length bs) m) = bs"
proof -
  from assms(2) have "read_tlv r = Inr ((TAG_OCTET_STRING, bs), r')"
    by (auto simp: read_octet_string_def read_expected_tlv_def result_Inr_iffs Let_def split: if_splits)
  from read_tlv_window(1)[OF assms(1) this]
  show "reader_of m (reader_new_with_offset bs (reader_offset r' - length bs))"
    "reader_offset r' - length bs + length bs \<le> length m"
    "take (length bs) (drop (reader_offset r' - length bs) m) = bs"
    by (simp_all add: reader_of_def reader_new_with_offset_def)
qed

section \<open>Writer and reader pairs\<close>

text \<open>The contract of a typed field: the writer appends an encoding that does not depend on what
  was written before, and the reader recovers the value whatever follows it. Its consequences
  are the round trip and unique decodability of sequences of fields.\<close>

locale field_codec =
  fixes put :: "'a \<Rightarrow> BerWriter \<Rightarrow> BerWriter" and get :: "BerReader \<Rightarrow> BerError + 'a \<times> BerReader"
  assumes write_appends: "bw_buffer (put x w) = bw_buffer w @ into_vec (put x writer_new)"
    and read_encoded: "reader_wf r \<Longrightarrow> reader_rest r = into_vec (put x writer_new) @ rest \<Longrightarrow>
      get r = Inr (x, advance (length (into_vec (put x writer_new))) r)"
begin

lemma round_trip:
  assumes "length (into_vec (put x writer_new)) < 9223372036854775808"
  shows "get (reader_new (into_vec (put x writer_new)))
    = Inr (x, advance (length (into_vec (put x writer_new))) (reader_new (into_vec (put x writer_new))))"
  using assms read_encoded[of "reader_new (into_vec (put x writer_new))" x "[]"]
  by (simp add: reader_wf_def reader_rest_def reader_new_def)

lemma two_fields:
  assumes "reader_wf r" "reader_rest r = bw_buffer (put y (put x w)) @ rest" "bw_buffer w = []"
  shows "rbind (get r) (\<lambda>(a, r). rbind (get r) (\<lambda>(b, r). Inr ((a, b), r)))
    = Inr ((x, y), advance (length (bw_buffer (put y (put x w)))) r)"
proof -
  let ?x = "into_vec (put x writer_new)" let ?y = "into_vec (put y writer_new)"
  have b: "bw_buffer (put y (put x w)) = ?x @ ?y"
    using write_appends[of y "put x w"] write_appends[of x w] assms(3) by simp
  then have r: "reader_rest r = ?x @ ?y @ rest" using assms(2) by simp
  have "get r = Inr (x, advance (length ?x) r)" using assms(1) r by (rule read_encoded)
  moreover have "get (advance (length ?x) r) = Inr (y, advance (length ?y) (advance (length ?x) r))"
    using r by (intro read_encoded reader_wf_advance[OF assms(1)]) auto
  ultimately show ?thesis by (simp add: b)
qed

lemma uniquely_decodable:
  assumes "into_vec (put x writer_new) @ s = into_vec (put y writer_new) @ t"
    and "length (into_vec (put x writer_new) @ s) < 9223372036854775808"
  shows "x = y \<and> s = t"
proof -
  let ?r = "reader_new (into_vec (put x writer_new) @ s)"
  have wf: "reader_wf ?r" using assms(2) by (simp add: reader_wf_def reader_new_def)
  have "get ?r = Inr (x, advance (length (into_vec (put x writer_new))) ?r)"
    by (rule read_encoded[OF wf]) (simp add: reader_rest_def reader_new_def)
  moreover have "get ?r = Inr (y, advance (length (into_vec (put y writer_new))) ?r)"
    by (rule read_encoded[OF wf, of y t]) (simp add: reader_rest_def reader_new_def assms(1))
  ultimately have "x = y" by simp
  then show ?thesis using assms(1) by simp
qed

end

lemmas typed_field_simps = writer_simps read_expected_tlv_encoded

interpretation integer_field: field_codec write_integer read_integer
  by unfold_locales (auto simp: typed_field_simps read_integer_def)

interpretation unsigned32_field: field_codec write_unsigned32 read_unsigned32
  by unfold_locales (auto simp: typed_field_simps read_unsigned32_def)

interpretation unsigned64_field: field_codec write_unsigned64 read_unsigned64
  by unfold_locales (auto simp: typed_field_simps read_unsigned64_def)

interpretation tagged_unsigned32_field:
  field_codec "write_tagged_unsigned32 tag" "read_tagged_unsigned32 tag" for tag
  by unfold_locales (auto simp: typed_field_simps read_tagged_unsigned32_def)

interpretation tagged_unsigned64_field:
  field_codec "write_tagged_unsigned64 tag" "read_tagged_unsigned64 tag" for tag
  by unfold_locales (auto simp: typed_field_simps read_tagged_unsigned64_def)

interpretation octet_string_field: field_codec write_octet_string read_octet_string
  by unfold_locales (auto simp: typed_field_simps read_octet_string_def)

interpretation null_field: field_codec "\<lambda>_::unit. write_null" read_null
  by unfold_locales (auto simp: typed_field_simps read_null_def)

interpretation oid_field: field_codec write_oid read_oid
  by unfold_locales (auto simp: typed_field_simps read_oid_def)

lemma reader_wf_new: "length bs < 9223372036854775808 \<Longrightarrow> reader_wf (reader_new bs)"
  by (simp add: reader_wf_def reader_new_def)

lemma reader_wf_sub:
  "reader_wf r \<Longrightarrow> reader_rest r = tlv tag v @ rest \<Longrightarrow>
    reader_wf (reader_new_with_offset v (reader_offset r + length (tlv tag v) - length v))"
  using reader_rest_length[of r "tlv tag v" rest]
  by (simp add: reader_wf_def reader_new_with_offset_def reader_offset_def length_tlv)

lemma reader_rest_new [simp]: "reader_rest (reader_new bs) = bs"
  "reader_rest (reader_new_with_offset bs off) = bs"
  by (simp_all add: reader_rest_def reader_new_def reader_new_with_offset_def)

lemma reader_empty_iff: "reader_is_empty r \<longleftrightarrow> reader_rest r = []"
  by (simp add: reader_is_empty_def reader_rest_def)

lemma remaining_rest: "reader_wf r \<Longrightarrow> remaining r = Some (reader_rest r)"
  by (simp add: remaining_def reader_wf_def slice_get_def reader_rest_def)

section \<open>Field by field\<close>

lemma peek_tag_rest: "reader_rest r = b # bs \<Longrightarrow> peek_tag r = Inr b"
  using list_get_drop[of "rd_position r" "rd_input r" b bs] by (simp add: peek_tag_def reader_rest_def)

lemma read_constructed_obtain:
  assumes "reader_wf r" "reader_rest r = tlv tag v @ rest"
  obtains sub where "read_constructed tag r = Inr (sub, advance (length (tlv tag v)) r)"
    "reader_wf sub" "reader_rest sub = v" "reader_offset sub = reader_offset r + length (tlv tag v) - length v"
  by (rule that[OF read_constructed_encoded[OF assms] reader_wf_sub[OF assms]])
    (simp_all add: reader_rest_def reader_offset_def reader_new_with_offset_def)

lemma read_sequence_obtain:
  assumes "reader_wf r" "reader_rest r = tlv TAG_SEQUENCE v @ rest"
  obtains sub where "read_sequence r = Inr (sub, advance (length (tlv TAG_SEQUENCE v)) r)"
    "reader_wf sub" "reader_rest sub = v"
    "reader_offset sub = reader_offset r + length (tlv TAG_SEQUENCE v) - length v"
  using read_constructed_obtain[OF assms] unfolding read_sequence_def by metis

lemma read_oid_encoded:
  assumes "reader_wf r" "reader_rest r = tlv TAG_OID (encode_oid oid) @ rest"
  shows "read_oid r = Inr (oid, advance (length (tlv TAG_OID (encode_oid oid))) r)"
  using oid_field.read_encoded[of r oid rest] assms by (simp add: writer_simps)

lemma read_integer_encoded:
  assumes "reader_wf r" "reader_rest r = tlv TAG_INTEGER (encode_signed_i32 v) @ rest"
  shows "read_integer r = Inr (v, advance (length (tlv TAG_INTEGER (encode_signed_i32 v))) r)"
  using integer_field.read_encoded[of r v rest] assms by (simp add: writer_simps)

lemma read_octet_string_encoded:
  assumes "reader_wf r" "reader_rest r = tlv TAG_OCTET_STRING bs @ rest"
  shows "read_octet_string r = Inr (bs, advance (length (tlv TAG_OCTET_STRING bs)) r)"
  using octet_string_field.read_encoded[of r bs rest] assms by (simp add: writer_simps)

text \<open>The same steps in the form the sequential decoders use: the reader after the field, what
  is left of it and where it stands.\<close>

lemma read_integer_obtain:
  assumes "reader_wf r" "reader_rest r = tlv TAG_INTEGER (encode_signed_i32 v) @ rest"
  obtains r' where "read_integer r = Inr (v, r')" "reader_wf r'" "reader_rest r' = rest"
    "reader_offset r' = reader_offset r + length (tlv TAG_INTEGER (encode_signed_i32 v))"
  using that[OF read_integer_encoded[OF assms] reader_wf_advance[OF assms]] assms(2) by simp

lemma read_octet_string_obtain:
  assumes "reader_wf r" "reader_rest r = tlv TAG_OCTET_STRING bs @ rest"
  obtains r' where "read_octet_string r = Inr (bs, r')" "reader_wf r'" "reader_rest r' = rest"
    "reader_offset r' = reader_offset r + length (tlv TAG_OCTET_STRING bs)"
  using that[OF read_octet_string_encoded[OF assms] reader_wf_advance[OF assms]] assms(2) by simp

lemma read_sequence_step:
  assumes "reader_wf r" "reader_rest r = tlv TAG_SEQUENCE v @ rest"
  obtains sub r' where "read_sequence r = Inr (sub, r')" "reader_wf sub" "reader_rest sub = v"
    "reader_wf r'" "reader_rest r' = rest" "reader_offset r' = reader_offset r + length (tlv TAG_SEQUENCE v)"
proof -
  obtain sub where "read_sequence r = Inr (sub, advance (length (tlv TAG_SEQUENCE v)) r)"
    "reader_wf sub" "reader_rest sub = v"
    using assms by (rule read_sequence_obtain)
  then show thesis using that reader_wf_advance[OF assms] assms(2) by simp
qed

end
