(* ===== verification/Ber_Varbind.thy ===== *)
theory Ber_Varbind
  imports Ber Smi
begin

text \<open>
  Varbinds and varbind lists on the wire (\<open>src/src/codec/ber/varbind.rs\<close>): the structural
  decoder, the promotion of APPLICATION-tagged values to SMIv2 values, and the encoders.
  Encoding then decoding a list of varbinds gives back the same names and values.
\<close>

section \<open>Definitions\<close>

datatype DecodedVarbindValue =
    DUnspecified
  | DNoSuchObject
  | DNoSuchInstance
  | DEndOfMibView
  | DInteger i32
  | DOctetString bytes
  | DObjectIdentifier Oid
  | DRaw u8 bytes

record DecodedVarbind =
  dvb_name :: Oid
  dvb_value :: DecodedVarbindValue

definition decode_varbind_choice :: "u8 \<Rightarrow> DecodedVarbindValue ber_read" where
  "decode_varbind_choice tag r =
     (if tag = TAG_NULL then rbind (read_null r) (\<lambda>(_, r). Inr (DUnspecified, r))
      else if tag = TAG_NO_SUCH_OBJECT \<or> tag = TAG_NO_SUCH_INSTANCE \<or> tag = TAG_END_OF_MIB_VIEW then
        rbind (read_tlv r) (\<lambda>((_, exception_bytes), r).
          if exception_bytes \<noteq> [] then Inl (BerMessageLen ''exception tag must have length 0'' (length exception_bytes))
          else if tag = TAG_NO_SUCH_OBJECT then Inr (DNoSuchObject, r)
          else if tag = TAG_NO_SUCH_INSTANCE then Inr (DNoSuchInstance, r)
          else if tag = TAG_END_OF_MIB_VIEW then Inr (DEndOfMibView, r)
          else Inl (BerMessageTag ''unexpected exception tag'' tag))
      else if tag = TAG_INTEGER then rbind (read_integer r) (\<lambda>(v, r). Inr (DInteger v, r))
      else if tag = TAG_OCTET_STRING then rbind (read_octet_string r) (\<lambda>(bs, r). Inr (DOctetString bs, r))
      else if tag = TAG_OID then rbind (read_oid r) (\<lambda>(oid, r). Inr (DObjectIdentifier oid, r))
      else rbind (read_tlv r) (\<lambda>((raw_tag, raw_value), r). Inr (DRaw raw_tag raw_value, r)))"

definition decode_varbind_value :: "BerReader \<Rightarrow> BerError + DecodedVarbindValue" where
  "decode_varbind_value varbind_reader =
     rbind (peek_tag varbind_reader) (\<lambda>tag.
     rbind (decode_varbind_choice tag varbind_reader) (\<lambda>(value, varbind_reader).
       if \<not> reader_is_empty varbind_reader then
         rbind (ok_or (remaining varbind_reader) BerPanic)
           (\<lambda>rest. Inl (BerMessageLen ''trailing bytes in VarBind SEQUENCE'' (length rest)))
       else Inr value))"

function decode_varbinds :: "BerReader \<Rightarrow> BerError + DecodedVarbind list" where
  "decode_varbinds list_reader =
     (if reader_is_empty list_reader then Inr []
      else rbind (read_sequence list_reader) (\<lambda>(varbind_reader, list_reader).
           rbind (read_oid varbind_reader) (\<lambda>(name, varbind_reader).
           rbind (decode_varbind_value varbind_reader) (\<lambda>value.
           rbind (decode_varbinds list_reader) (\<lambda>varbinds.
           Inr (\<lparr>dvb_name = name, dvb_value = value\<rparr> # varbinds))))))"
  by auto

termination decode_varbinds
  by (relation "measure (\<lambda>r. length (rd_input r) - rd_position r)")
    (auto dest: sequence_op.measure_decreases)

declare decode_varbinds.simps [simp del]

definition decode_varbind_list :: "bytes \<Rightarrow> BerError + DecodedVarbind list" where
  "decode_varbind_list raw_varbind_list_bytes =
     rbind (read_sequence (reader_new raw_varbind_list_bytes)) (\<lambda>(list_reader, outer_reader).
       if \<not> reader_is_empty outer_reader
       then Inl (BerMessage ''trailing bytes after VarBindList SEQUENCE'')
       else decode_varbinds list_reader)"

text \<open>\<open><[u8; 4]>::try_from\<close> on a slice.\<close>

fun array4_try_from :: "bytes \<Rightarrow> (u8 \<times> u8 \<times> u8 \<times> u8) option" where
  "array4_try_from [a, b, c, d] = Some (a, b, c, d)"
| "array4_try_from bs = None"

fun decode_varbind_value_to_value :: "DecodedVarbindValue \<Rightarrow> BerError + VarbindValue" where
  "decode_varbind_value_to_value DUnspecified = Inr Unspecified"
| "decode_varbind_value_to_value DNoSuchObject = Inr NoSuchObject"
| "decode_varbind_value_to_value DNoSuchInstance = Inr NoSuchInstance"
| "decode_varbind_value_to_value DEndOfMibView = Inr EndOfMibView"
| "decode_varbind_value_to_value (DInteger v) = Inr (Value (Integer32 v))"
| "decode_varbind_value_to_value (DOctetString bs) = Inr (Value (OctetString bs))"
| "decode_varbind_value_to_value (DObjectIdentifier oid) = Inr (Value (ObjectIdentifier oid))"
| "decode_varbind_value_to_value (DRaw tag bs) =
     (if tag = TAG_IP_ADDRESS then
        rbind (ok_or (array4_try_from bs) (BerMessageLen ''IpAddress must be exactly 4 bytes'' (length bs)))
          (\<lambda>octets. Inr (Value (IpAddress octets)))
      else if tag = TAG_COUNTER32 then rbind (decode_unsigned_u32 bs 0) (\<lambda>v. Inr (Value (Counter32 v)))
      else if tag = TAG_GAUGE32 then rbind (decode_unsigned_u32 bs 0) (\<lambda>v. Inr (Value (Gauge32 v)))
      else if tag = TAG_TIMETICKS then rbind (decode_unsigned_u32 bs 0) (\<lambda>v. Inr (Value (TimeTicks v)))
      else if tag = TAG_OPAQUE then Inr (Value (Opaque bs))
      else if tag = TAG_COUNTER64 then rbind (decode_unsigned_u64 bs 0) (\<lambda>v. Inr (Value (Counter64 v)))
      else Inl (BerMessageTag ''unsupported APPLICATION tag'' tag))"

definition encode_varbind_list :: "bytes list \<Rightarrow> bytes" where
  "encode_varbind_list encoded_varbinds =
     (let inner_writer = foldl (\<lambda>w encoded_varbind. write_raw encoded_varbind w) writer_new encoded_varbinds
      in into_vec (write_sequence (as_bytes inner_writer) writer_new))"

definition encode_varbind :: "Oid \<Rightarrow> bytes \<Rightarrow> bytes" where
  "encode_varbind oid encoded_value_tlv =
     (let inner_writer = write_raw encoded_value_tlv (write_oid oid writer_new)
      in into_vec (write_sequence (as_bytes inner_writer) writer_new))"

definition encode_null_value :: bytes where
  "encode_null_value = [TAG_NULL, 0x00]"

definition encode_integer_value :: "i32 \<Rightarrow> bytes" where
  "encode_integer_value value = into_vec (write_integer value writer_new)"

definition encode_octet_string_value :: "bytes \<Rightarrow> bytes" where
  "encode_octet_string_value bs = into_vec (write_octet_string bs writer_new)"

definition encode_oid_value :: "Oid \<Rightarrow> bytes" where
  "encode_oid_value oid = into_vec (write_oid oid writer_new)"

definition encode_exception :: "u8 \<Rightarrow> BerError + bytes" where
  "encode_exception tag =
     (if tag \<noteq> TAG_NO_SUCH_OBJECT \<and> tag \<noteq> TAG_NO_SUCH_INSTANCE \<and> tag \<noteq> TAG_END_OF_MIB_VIEW
      then Inl (BerMessageTag ''invalid exception tag'' tag) else Inr [tag, 0x00])"

fun encode_varbind_value :: "VarbindValue \<Rightarrow> BerError + bytes" where
  "encode_varbind_value Unspecified = Inr encode_null_value"
| "encode_varbind_value NoSuchObject = encode_exception TAG_NO_SUCH_OBJECT"
| "encode_varbind_value NoSuchInstance = encode_exception TAG_NO_SUCH_INSTANCE"
| "encode_varbind_value EndOfMibView = encode_exception TAG_END_OF_MIB_VIEW"
| "encode_varbind_value (Value (Integer32 v)) = Inr (encode_integer_value v)"
| "encode_varbind_value (Value (OctetString bs)) = Inr (encode_octet_string_value bs)"
| "encode_varbind_value (Value (ObjectIdentifier oid)) = Inr (encode_oid_value oid)"
| "encode_varbind_value (Value (IpAddress (a, b, c, d))) =
     Inr (into_vec (write_tlv TAG_IP_ADDRESS [a, b, c, d] writer_new))"
| "encode_varbind_value (Value (Counter32 v)) =
     Inr (into_vec (write_tagged_unsigned32 TAG_COUNTER32 v writer_new))"
| "encode_varbind_value (Value (Gauge32 v)) =
     Inr (into_vec (write_tagged_unsigned32 TAG_GAUGE32 v writer_new))"
| "encode_varbind_value (Value (TimeTicks v)) =
     Inr (into_vec (write_tagged_unsigned32 TAG_TIMETICKS v writer_new))"
| "encode_varbind_value (Value (Opaque bs)) = Inr (into_vec (write_tlv TAG_OPAQUE bs writer_new))"
| "encode_varbind_value (Value (Counter64 v)) =
     Inr (into_vec (write_tagged_unsigned64 TAG_COUNTER64 v writer_new))"

section \<open>Round trip\<close>

text \<open>The tag and contents of a value on the wire, and what the structural decoder makes of it.\<close>

fun wire_tag :: "VarbindValue \<Rightarrow> u8" where
  "wire_tag Unspecified = TAG_NULL"
| "wire_tag NoSuchObject = TAG_NO_SUCH_OBJECT"
| "wire_tag NoSuchInstance = TAG_NO_SUCH_INSTANCE"
| "wire_tag EndOfMibView = TAG_END_OF_MIB_VIEW"
| "wire_tag (Value (Integer32 v)) = TAG_INTEGER"
| "wire_tag (Value (OctetString bs)) = TAG_OCTET_STRING"
| "wire_tag (Value (ObjectIdentifier oid)) = TAG_OID"
| "wire_tag (Value (IpAddress a)) = TAG_IP_ADDRESS"
| "wire_tag (Value (Counter32 v)) = TAG_COUNTER32"
| "wire_tag (Value (Gauge32 v)) = TAG_GAUGE32"
| "wire_tag (Value (TimeTicks v)) = TAG_TIMETICKS"
| "wire_tag (Value (Opaque bs)) = TAG_OPAQUE"
| "wire_tag (Value (Counter64 v)) = TAG_COUNTER64"

fun wire_contents :: "VarbindValue \<Rightarrow> bytes" where
  "wire_contents (Value (Integer32 v)) = encode_signed_i32 v"
| "wire_contents (Value (OctetString bs)) = bs"
| "wire_contents (Value (ObjectIdentifier oid)) = encode_oid oid"
| "wire_contents (Value (IpAddress (a, b, c, d))) = [a, b, c, d]"
| "wire_contents (Value (Counter32 v)) = encode_unsigned_u32 v"
| "wire_contents (Value (Gauge32 v)) = encode_unsigned_u32 v"
| "wire_contents (Value (TimeTicks v)) = encode_unsigned_u32 v"
| "wire_contents (Value (Opaque bs)) = bs"
| "wire_contents (Value (Counter64 v)) = encode_unsigned_u64 v"
| "wire_contents v = []"

fun wire_value :: "VarbindValue \<Rightarrow> DecodedVarbindValue" where
  "wire_value Unspecified = DUnspecified"
| "wire_value NoSuchObject = DNoSuchObject"
| "wire_value NoSuchInstance = DNoSuchInstance"
| "wire_value EndOfMibView = DEndOfMibView"
| "wire_value (Value (Integer32 v)) = DInteger v"
| "wire_value (Value (OctetString bs)) = DOctetString bs"
| "wire_value (Value (ObjectIdentifier oid)) = DObjectIdentifier oid"
| "wire_value (Value v) = DRaw (wire_tag (Value v)) (wire_contents (Value v))"

lemma encode_oid_not_Nil [simp]: "encode_oid oid \<noteq> []"
  using decode_encode_oid[of oid 0] by (auto simp: decode_oid_def)

lemma varbind_value_cases:
  obtains "v = Unspecified" | "v = NoSuchObject" | "v = NoSuchInstance" | "v = EndOfMibView"
  | i where "v = Value (Integer32 i)" | oid where "v = Value (ObjectIdentifier oid)"
  | a b c d where "v = Value (IpAddress (a, b, c, d))" | bs where "v = Value (OctetString bs)"
  | n where "v = Value (Counter32 n)" | m where "v = Value (Counter64 m)"
  | n where "v = Value (Gauge32 n)" | n where "v = Value (TimeTicks n)"
  | bs where "v = Value (Opaque bs)"
  by (cases v rule: wire_contents.cases) blast+

lemma encode_varbind_value_tlv: "encode_varbind_value v = Inr (tlv (wire_tag v) (wire_contents v))"
  by (cases v rule: varbind_value_cases)
    (simp_all add: writer_simps encode_integer_value_def encode_octet_string_value_def encode_oid_value_def
      encode_exception_def encode_null_value_def, simp_all add: tlv_def encode_length_def)

lemma decode_wire_value [simp]: "decode_varbind_value_to_value (wire_value v) = Inr v"
  by (cases v rule: varbind_value_cases) (simp_all add: tag_defs)

lemma decode_varbind_choice_encoded:
  assumes "reader_wf r" "reader_rest r = tlv (wire_tag v) (wire_contents v) @ rest"
  shows "decode_varbind_choice (wire_tag v) r
    = Inr (wire_value v, advance (length (tlv (wire_tag v) (wire_contents v))) r)"
proof -
  note t = read_tlv_encoded[OF assms]
  have e: "read_expected_tlv (wire_tag v) name r
      = Inr ((reader_offset r, wire_contents v), advance (length (tlv (wire_tag v) (wire_contents v))) r)" for name
    using assms by (rule read_expected_tlv_encoded)
  show ?thesis
    using t e
    by (cases v rule: varbind_value_cases)
      (simp_all add: decode_varbind_choice_def read_null_def read_integer_def read_octet_string_def
        read_oid_def, simp_all add: tag_defs)
qed

lemma decode_varbind_value_encoded:
  assumes "reader_wf r" "reader_rest r = tlv (wire_tag v) (wire_contents v)"
  shows "decode_varbind_value r = Inr (wire_value v)"
proof -
  have "peek_tag r = Inr (wire_tag v)" using assms(2) by (intro peek_tag_rest) (simp add: tlv_def)
  then show ?thesis
    using decode_varbind_choice_encoded[OF assms(1), of v "[]"] assms(2)
    by (simp add: decode_varbind_value_def reader_empty_iff)
qed

text \<open>One varbind and a list of varbinds.\<close>

definition wire_varbind :: "Varbind \<Rightarrow> bytes" where
  "wire_varbind vb = encode_varbind (vb_oid vb) (tlv (wire_tag (vb_value vb)) (wire_contents (vb_value vb)))"

definition wire_decoded :: "Varbind \<Rightarrow> DecodedVarbind" where
  "wire_decoded vb = \<lparr>dvb_name = vb_oid vb, dvb_value = wire_value (vb_value vb)\<rparr>"

lemma wire_varbind_tlv:
  "wire_varbind vb = tlv TAG_SEQUENCE (tlv TAG_OID (encode_oid (vb_oid vb))
     @ tlv (wire_tag (vb_value vb)) (wire_contents (vb_value vb)))"
  by (simp add: wire_varbind_def encode_varbind_def writer_simps)

lemma decode_varbinds_encoded:
  assumes "reader_wf r" "reader_rest r = concat (map wire_varbind vbs)"
  shows "decode_varbinds r = Inr (map wire_decoded vbs)"
  using assms
proof (induction vbs arbitrary: r)
  case Nil
  then show ?case by (subst decode_varbinds.simps) (simp add: reader_empty_iff)
next
  case (Cons vb vbs)
  let ?o = "tlv TAG_OID (encode_oid (vb_oid vb))"
  let ?v = "tlv (wire_tag (vb_value vb)) (wire_contents (vb_value vb))"
  let ?s = "tlv TAG_SEQUENCE (?o @ ?v)"
  have rest: "reader_rest r = ?s @ concat (map wire_varbind vbs)"
    using Cons.prems(2) by (simp add: wire_varbind_tlv[of vb])
  obtain sub where s: "read_sequence r = Inr (sub, advance (length ?s) r)"
    and wf: "reader_wf sub" and sub: "reader_rest sub = ?o @ ?v"
    using Cons.prems(1) rest by (rule read_sequence_obtain)
  have o: "read_oid sub = Inr (vb_oid vb, advance (length ?o) sub)" using wf sub by (rule read_oid_encoded)
  have v: "decode_varbind_value (advance (length ?o) sub) = Inr (wire_value (vb_value vb))"
    using sub by (intro decode_varbind_value_encoded reader_wf_advance[OF wf]) auto
  have ih: "decode_varbinds (advance (length ?s) r) = Inr (map wire_decoded vbs)"
    using rest by (intro Cons.IH reader_wf_advance[OF Cons.prems(1)]) auto
  have "\<not> reader_is_empty r" using rest by (simp add: reader_empty_iff tlv_def)
  then show ?case
    by (subst decode_varbinds.simps) (simp add: s o v ih wire_decoded_def del: length_append)
qed

lemma encode_varbind_list_tlv: "encode_varbind_list bss = tlv TAG_SEQUENCE (concat bss)"
proof -
  have "bw_buffer (foldl (\<lambda>w b. write_raw b w) w bss) = bw_buffer w @ concat bss" for w
    by (induction bss arbitrary: w) (simp_all add: writer_simps)
  then show ?thesis by (simp add: encode_varbind_list_def writer_simps)
qed

lemma decode_varbind_list_encoded:
  assumes "length (encode_varbind_list (map wire_varbind vbs)) < 9223372036854775808"
  shows "decode_varbind_list (encode_varbind_list (map wire_varbind vbs)) = Inr (map wire_decoded vbs)"
proof -
  let ?c = "concat (map wire_varbind vbs)" let ?bs = "tlv TAG_SEQUENCE ?c"
  have e: "encode_varbind_list (map wire_varbind vbs) = ?bs" by (rule encode_varbind_list_tlv)
  have wf: "reader_wf (reader_new ?bs)" using assms unfolding e by (rule reader_wf_new)
  have rest: "reader_rest (reader_new ?bs) = ?bs @ []" by simp
  obtain sub where "read_sequence (reader_new ?bs) = Inr (sub, advance (length ?bs) (reader_new ?bs))"
    "reader_wf sub" "reader_rest sub = ?c"
    using wf rest by (rule read_sequence_obtain)
  then show ?thesis
    unfolding e decode_varbind_list_def
    by (simp add: reader_empty_iff decode_varbinds_encoded)
qed

end
