(* ===== verification/Ber_Pdu.thy ===== *)
theory Ber_Pdu
  imports Ber
begin

text \<open>
  The PDU structure layer (\<open>src/src/codec/ber/pdu.rs\<close>): context-tagged PDUs whose varbind
  list stays raw. The encoders are inverted by the decoder, which also rejects unknown tags,
  trailing bytes and a missing varbind list.
\<close>

section \<open>Definitions\<close>

datatype DecodedPdu =
    Standard u8 i32 bytes
  | Bulk i32 i32 i32 bytes

definition read_validated_varbind_list :: "BerReader \<Rightarrow> BerError + bytes" where
  "read_validated_varbind_list pdu_reader =
     (if reader_is_empty pdu_reader then Inl (BerMessage ''PDU missing VarBindList'')
      else rbind (ok_or (remaining pdu_reader) BerPanic) (\<lambda>raw_varbind_list.
           rbind (read_sequence pdu_reader) (\<lambda>(_, pdu_reader).
             if \<not> reader_is_empty pdu_reader
             then Inl (BerMessage ''trailing bytes after VarBindList in PDU'')
             else Inr raw_varbind_list)))"

definition VALID_STANDARD_PDU_TAGS :: "u8 list" where
  "VALID_STANDARD_PDU_TAGS =
     [TAG_GET_REQUEST, TAG_GET_NEXT_REQUEST, TAG_RESPONSE, TAG_SET_REQUEST, TAG_INFORM_REQUEST,
      TAG_TRAP, TAG_REPORT]"

definition ber_decode_pdu :: "bytes \<Rightarrow> BerError + DecodedPdu" where
  "ber_decode_pdu raw_pdu_bytes =
     (let outer_reader = reader_new raw_pdu_bytes in
      rbind (peek_tag outer_reader) (\<lambda>pdu_tag.
      rbind (read_constructed pdu_tag outer_reader) (\<lambda>(pdu_reader, outer_reader).
      if \<not> reader_is_empty outer_reader then Inl (BerMessage ''trailing bytes after PDU TLV'')
      else
        rbind (read_integer pdu_reader) (\<lambda>(request_id, pdu_reader).
        if pdu_tag = TAG_GET_BULK_REQUEST then
          rbind (read_integer pdu_reader) (\<lambda>(non_repeaters, pdu_reader).
          rbind (read_integer pdu_reader) (\<lambda>(max_repetitions, pdu_reader).
          rbind (read_validated_varbind_list pdu_reader) (\<lambda>raw_varbind_list.
          Inr (Bulk request_id non_repeaters max_repetitions raw_varbind_list))))
        else if pdu_tag = TAG_GET_REQUEST \<or> pdu_tag = TAG_GET_NEXT_REQUEST \<or> pdu_tag = TAG_RESPONSE
          \<or> pdu_tag = TAG_SET_REQUEST \<or> pdu_tag = TAG_INFORM_REQUEST \<or> pdu_tag = TAG_TRAP
          \<or> pdu_tag = TAG_REPORT then
          rbind (read_integer pdu_reader) (\<lambda>(_, pdu_reader).
          rbind (read_integer pdu_reader) (\<lambda>(_, pdu_reader).
          rbind (read_validated_varbind_list pdu_reader) (\<lambda>raw_varbind_list.
          Inr (Standard pdu_tag request_id raw_varbind_list))))
        else Inl (BerMessageTag ''unrecognised PDU tag'' pdu_tag)))))"

definition encode_pdu :: "u8 \<Rightarrow> i32 \<Rightarrow> i32 \<Rightarrow> i32 \<Rightarrow> bytes \<Rightarrow> BerError + bytes" where
  "encode_pdu tag request_id error_status error_index raw_varbind_list =
     (if tag \<notin> set VALID_STANDARD_PDU_TAGS then Inl (BerMessageTag ''invalid standard PDU tag'' tag)
      else
        let inner = write_raw raw_varbind_list (write_integer error_index
                      (write_integer error_status (write_integer request_id writer_new)))
        in Inr (into_vec (write_constructed tag (as_bytes inner) writer_new)))"

definition encode_bulk_pdu :: "i32 \<Rightarrow> i32 \<Rightarrow> i32 \<Rightarrow> bytes \<Rightarrow> bytes" where
  "encode_bulk_pdu request_id non_repeaters max_repetitions raw_varbind_list =
     (let inner = write_raw raw_varbind_list (write_integer max_repetitions
                    (write_integer non_repeaters (write_integer request_id writer_new)))
      in into_vec (write_constructed TAG_GET_BULK_REQUEST (as_bytes inner) writer_new))"

section \<open>Round trip\<close>

abbreviation int_tlv :: "i32 \<Rightarrow> bytes" where
  "int_tlv v \<equiv> tlv TAG_INTEGER (encode_signed_i32 v)"

definition pdu_body :: "i32 \<Rightarrow> i32 \<Rightarrow> i32 \<Rightarrow> bytes \<Rightarrow> bytes" where
  "pdu_body a b c vbl = int_tlv a @ int_tlv b @ int_tlv c @ vbl"

lemma encode_pdu_tlv:
  "encode_pdu tag a b c vbl = (if tag \<in> set VALID_STANDARD_PDU_TAGS then Inr (tlv tag (pdu_body a b c vbl))
     else Inl (BerMessageTag ''invalid standard PDU tag'' tag))"
  "encode_bulk_pdu a b c vbl = tlv TAG_GET_BULK_REQUEST (pdu_body a b c vbl)"
  by (simp_all add: encode_pdu_def encode_bulk_pdu_def writer_simps pdu_body_def)

lemma read_validated_encoded:
  assumes "reader_wf r" "reader_rest r = tlv TAG_SEQUENCE v"
  shows "read_validated_varbind_list r = Inr (tlv TAG_SEQUENCE v)"
proof -
  have ne: "\<not> reader_is_empty r" using assms(2) by (simp add: reader_empty_iff tlv_def)
  have rest: "reader_rest r = tlv TAG_SEQUENCE v @ []" using assms(2) by simp
  obtain sub where "read_sequence r = Inr (sub, advance (length (tlv TAG_SEQUENCE v)) r)"
    using assms(1) rest by (rule read_sequence_obtain)
  then show ?thesis using ne assms
    by (simp add: read_validated_varbind_list_def remaining_rest reader_empty_iff)
qed

lemma read_pdu_body:
  assumes "reader_wf r" "reader_rest r = pdu_body a b c (tlv TAG_SEQUENCE v)"
  obtains r1 r2 r3 where "read_integer r = Inr (a, r1)" "read_integer r1 = Inr (b, r2)"
    "read_integer r2 = Inr (c, r3)" "read_validated_varbind_list r3 = Inr (tlv TAG_SEQUENCE v)"
proof -
  let ?r1 = "advance (length (int_tlv a)) r"
  let ?r2 = "advance (length (int_tlv b)) ?r1"
  let ?r3 = "advance (length (int_tlv c)) ?r2"
  have rest: "reader_rest r = int_tlv a @ int_tlv b @ int_tlv c @ tlv TAG_SEQUENCE v"
    using assms(2) by (simp add: pdu_body_def)
  then have rest1: "reader_rest ?r1 = int_tlv b @ int_tlv c @ tlv TAG_SEQUENCE v" by simp
  then have rest2: "reader_rest ?r2 = int_tlv c @ tlv TAG_SEQUENCE v"
    by (simp only: reader_rest_advance append_eq_conv_conj[symmetric]) simp
  then have rest3: "reader_rest ?r3 = tlv TAG_SEQUENCE v"
    by (simp only: reader_rest_advance append_eq_conv_conj[symmetric]) simp
  note wf1 = reader_wf_advance[OF assms(1) rest]
  note wf2 = reader_wf_advance[OF wf1 rest1]
  note wf3 = reader_wf_advance[OF wf2 rest2]
  show ?thesis
    by (rule that[OF read_integer_encoded[OF assms(1) rest] read_integer_encoded[OF wf1 rest1]
          read_integer_encoded[OF wf2 rest2] read_validated_encoded[OF wf3 rest3]])
qed

lemma ber_decode_pdu_encoded:
  assumes "length (tlv tag (pdu_body a b c (tlv TAG_SEQUENCE v))) < 9223372036854775808"
  shows "tag \<in> set VALID_STANDARD_PDU_TAGS \<Longrightarrow>
      ber_decode_pdu (tlv tag (pdu_body a b c (tlv TAG_SEQUENCE v))) = Inr (Standard tag a (tlv TAG_SEQUENCE v))"
    and "tag = TAG_GET_BULK_REQUEST \<Longrightarrow>
      ber_decode_pdu (tlv tag (pdu_body a b c (tlv TAG_SEQUENCE v))) = Inr (Bulk a b c (tlv TAG_SEQUENCE v))"
proof -
  let ?b = "pdu_body a b c (tlv TAG_SEQUENCE v)" let ?r = "reader_new (tlv tag ?b)"
  have wf: "reader_wf ?r" using assms by (rule reader_wf_new)
  have rest: "reader_rest ?r = tlv tag ?b @ []" by simp
  have p: "peek_tag ?r = Inr tag" by (rule peek_tag_rest) (simp add: tlv_def)
  obtain sub where s: "read_constructed tag ?r = Inr (sub, advance (length (tlv tag ?b)) ?r)"
    "reader_wf sub" "reader_rest sub = ?b"
    using wf rest by (rule read_constructed_obtain)
  obtain r1 r2 r3 where i: "read_integer sub = Inr (a, r1)" "read_integer r1 = Inr (b, r2)"
    "read_integer r2 = Inr (c, r3)" "read_validated_varbind_list r3 = Inr (tlv TAG_SEQUENCE v)"
    using s(2,3) by (rule read_pdu_body)
  show "tag \<in> set VALID_STANDARD_PDU_TAGS \<Longrightarrow> ber_decode_pdu (tlv tag ?b) = Inr (Standard tag a (tlv TAG_SEQUENCE v))"
    using p s(1) i
    by (auto simp: ber_decode_pdu_def Let_def reader_empty_iff VALID_STANDARD_PDU_TAGS_def)
      (simp_all add: tag_defs)
  show "tag = TAG_GET_BULK_REQUEST \<Longrightarrow> ber_decode_pdu (tlv tag ?b) = Inr (Bulk a b c (tlv TAG_SEQUENCE v))"
    using p s(1) i by (simp add: ber_decode_pdu_def Let_def reader_empty_iff)
qed

end
