(* ===== verification/Ber_Snmp.thy ===== *)
theory Ber_Snmp
  imports Ber
begin

text \<open>
  The message layer (\<open>src/src/codec/ber/snmp.rs\<close>): the SNMPv3 envelope with its header, USM
  security parameters and scoped PDU, and the SNMPv2c envelope of plain traps. The decoder
  reports where the authentication parameters stand in the message; that offset is shown to
  be exact on every input, and the encoder's own offset to be the one its output decodes to.
\<close>

section \<open>Definitions\<close>

definition SNMPV3_VERSION :: i32 where "SNMPV3_VERSION = 3"
definition MSG_USER_NAME_MAX_LENGTH :: nat where "MSG_USER_NAME_MAX_LENGTH = 32"
definition SNMPV2C_VERSION :: i32 where "SNMPV2C_VERSION = 1"
definition MSG_MAX_SIZE_UDP :: i32 where "MSG_MAX_SIZE_UDP = 0xFFFF"

record UsmFields =
  uf_engine_id :: bytes
  uf_engine_boots :: i32
  uf_engine_time :: i32
  uf_user_name :: bytes
  uf_auth_params :: bytes
  uf_priv_params :: bytes

datatype ScopedData =
    ScopedPlaintext bytes bytes bytes
  | ScopedEncrypted bytes

record DecodedScopedPduFields =
  dsf_context_engine_id :: bytes
  dsf_context_name :: bytes
  dsf_raw_pdu :: bytes

record HeaderData =
  hd_msg_id :: i32
  hd_max_size :: i32
  hd_security_flags :: u8
  hd_security_model :: i32

record DecodedUsm =
  du_fields :: UsmFields
  du_auth_params_offset :: "nat option"

record V3MessageEnvelope =
  env_msg_id :: i32
  env_max_size :: i32
  env_security_flags :: u8
  env_security_model :: i32
  env_usm :: UsmFields
  env_scoped_data :: ScopedData
  env_raw_message :: bytes
  env_auth_params_offset :: "nat option"

definition decode_header_data :: "HeaderData ber_read" where
  "decode_header_data msg_reader =
     rbind (read_sequence msg_reader) (\<lambda>(header_reader, msg_reader).
     rbind (read_integer header_reader) (\<lambda>(msg_id, header_reader).
     if sint msg_id < 0 then Inl (BerMessage ''msgID must be non-negative'')
     else
       rbind (read_integer header_reader) (\<lambda>(max_size, header_reader).
       if sint max_size < 484 then Inl (BerMessage ''msgMaxSize must be at least 484'')
       else
         rbind (read_octet_string header_reader) (\<lambda>(flags_bytes, header_reader).
         case flags_bytes of
           [security_flags] \<Rightarrow>
             rbind (read_integer header_reader) (\<lambda>(security_model, header_reader).
             Inr (\<lparr>hd_msg_id = msg_id, hd_max_size = max_size, hd_security_flags = security_flags,
                    hd_security_model = security_model\<rparr>, msg_reader))
         | _ \<Rightarrow> Inl (BerMessageLen ''msgFlags must be exactly 1 byte'' (length flags_bytes))))))"

definition decode_usm_security_parameters :: "DecodedUsm ber_read" where
  "decode_usm_security_parameters msg_reader =
     rbind (read_octet_string msg_reader) (\<lambda>(usm_params_bytes, msg_reader).
     let usm_value_offset = reader_offset msg_reader - length usm_params_bytes;
         usm_outer_reader = reader_new_with_offset usm_params_bytes usm_value_offset
     in rbind (read_sequence usm_outer_reader) (\<lambda>(usm_reader, usm_outer_reader).
        rbind (read_octet_string usm_reader) (\<lambda>(engine_id, usm_reader).
        rbind (read_integer usm_reader) (\<lambda>(engine_boots, usm_reader).
        rbind (read_integer usm_reader) (\<lambda>(engine_time, usm_reader).
        rbind (read_octet_string usm_reader) (\<lambda>(user_name, usm_reader).
        if length user_name > MSG_USER_NAME_MAX_LENGTH
        then Inl (BerMessageLen ''msgUserName length exceeds maximum'' (length user_name))
        else
          rbind (read_octet_string usm_reader) (\<lambda>(auth_params, usm_reader).
          let auth_params_offset =
                (if auth_params = [] then None else Some (reader_offset usm_reader - length auth_params))
          in rbind (read_octet_string usm_reader) (\<lambda>(priv_params, usm_reader).
             Inr (\<lparr>du_fields = \<lparr>uf_engine_id = engine_id, uf_engine_boots = engine_boots,
                      uf_engine_time = engine_time, uf_user_name = user_name,
                      uf_auth_params = auth_params, uf_priv_params = priv_params\<rparr>,
                    du_auth_params_offset = auth_params_offset\<rparr>, msg_reader)))))))))"

definition decode_scoped_pdu_data :: "BerReader \<Rightarrow> BerError + ScopedData" where
  "decode_scoped_pdu_data msg_reader =
     rbind (peek_tag msg_reader) (\<lambda>scoped_data_tag.
     if scoped_data_tag = TAG_SEQUENCE then
       rbind (read_sequence msg_reader) (\<lambda>(scoped_reader, msg_reader).
       rbind (read_octet_string scoped_reader) (\<lambda>(context_engine_id, scoped_reader).
       rbind (read_octet_string scoped_reader) (\<lambda>(context_name, scoped_reader).
       rbind (ok_or (remaining scoped_reader) BerPanic) (\<lambda>raw_pdu.
       Inr (ScopedPlaintext context_engine_id context_name raw_pdu)))))
     else if scoped_data_tag = TAG_OCTET_STRING then
       rbind (read_octet_string msg_reader) (\<lambda>(ciphertext, msg_reader). Inr (ScopedEncrypted ciphertext))
     else Inl (BerMessageTag ''expected ScopedPduData'' scoped_data_tag))"

definition decode_v3_envelope :: "bytes \<Rightarrow> BerError + V3MessageEnvelope" where
  "decode_v3_envelope bytes =
     rbind (read_sequence (reader_new bytes)) (\<lambda>(msg_reader, outer_reader).
     rbind (read_integer msg_reader) (\<lambda>(version, msg_reader).
     if version \<noteq> SNMPV3_VERSION then Inl (WrongVersionError version)
     else
       rbind (decode_header_data msg_reader) (\<lambda>(header, msg_reader).
       rbind (decode_usm_security_parameters msg_reader) (\<lambda>(decoded_usm, msg_reader).
       rbind (decode_scoped_pdu_data msg_reader) (\<lambda>scoped_data.
       Inr \<lparr>env_msg_id = hd_msg_id header, env_max_size = hd_max_size header,
            env_security_flags = hd_security_flags header,
            env_security_model = hd_security_model header, env_usm = du_fields decoded_usm,
            env_scoped_data = scoped_data, env_raw_message = bytes,
            env_auth_params_offset = du_auth_params_offset decoded_usm\<rparr>)))))"

definition ber_decode_scoped_pdu :: "bytes \<Rightarrow> BerError + DecodedScopedPduFields" where
  "ber_decode_scoped_pdu bytes =
     rbind (read_sequence (reader_new bytes)) (\<lambda>(scoped_reader, outer_reader).
     rbind (read_octet_string scoped_reader) (\<lambda>(context_engine_id, scoped_reader).
     rbind (read_octet_string scoped_reader) (\<lambda>(context_name, scoped_reader).
     rbind (ok_or (remaining scoped_reader) BerPanic) (\<lambda>raw_pdu.
     Inr \<lparr>dsf_context_engine_id = context_engine_id, dsf_context_name = context_name,
          dsf_raw_pdu = raw_pdu\<rparr>))))"

definition wrap_in_outer_sequence :: "bytes \<Rightarrow> bytes" where
  "wrap_in_outer_sequence inner_bytes = into_vec (write_sequence inner_bytes writer_new)"

definition encode_scoped_pdu :: "bytes \<Rightarrow> bytes \<Rightarrow> bytes \<Rightarrow> bytes" where
  "encode_scoped_pdu context_engine_id context_name raw_pdu_bytes =
     (let inner = write_raw raw_pdu_bytes (write_octet_string context_name
                    (write_octet_string context_engine_id writer_new))
      in wrap_in_outer_sequence (as_bytes inner))"

definition encode_usm_params :: "bytes \<Rightarrow> i32 \<Rightarrow> i32 \<Rightarrow> bytes \<Rightarrow> bytes \<Rightarrow> bytes \<Rightarrow> bytes" where
  "encode_usm_params engine_id engine_boots engine_time user_name auth_params priv_params =
     (let inner = write_octet_string priv_params (write_octet_string auth_params
                    (write_octet_string user_name (write_integer engine_time
                      (write_integer engine_boots (write_octet_string engine_id writer_new)))))
      in wrap_in_outer_sequence (as_bytes inner))"

definition encode_header_data :: "i32 \<Rightarrow> i32 \<Rightarrow> u8 \<Rightarrow> i32 \<Rightarrow> bytes" where
  "encode_header_data msg_id max_size flags_byte security_model =
     (let inner = write_integer security_model (write_octet_string [flags_byte]
                    (write_integer max_size (write_integer msg_id writer_new)))
      in wrap_in_outer_sequence (as_bytes inner))"

definition find_auth_params_offset :: "bytes \<Rightarrow> nat \<Rightarrow> BerError + nat option" where
  "find_auth_params_offset encoded_message auth_params_len =
     (if auth_params_len = 0 then Inr None
      else
        rbind (read_sequence (reader_new encoded_message)) (\<lambda>(msg_reader, outer_reader).
        rbind (read_integer msg_reader) (\<lambda>(_, msg_reader).
        rbind (read_sequence msg_reader) (\<lambda>(_, msg_reader).
        rbind (read_octet_string msg_reader) (\<lambda>(usm_params_bytes, msg_reader).
        let usm_value_offset = reader_offset msg_reader - length usm_params_bytes;
            usm_outer_reader = reader_new_with_offset usm_params_bytes usm_value_offset
        in rbind (read_sequence usm_outer_reader) (\<lambda>(usm_reader, usm_outer_reader).
           rbind (read_octet_string usm_reader) (\<lambda>(_, usm_reader).
           rbind (read_integer usm_reader) (\<lambda>(_, usm_reader).
           rbind (read_integer usm_reader) (\<lambda>(_, usm_reader).
           rbind (read_octet_string usm_reader) (\<lambda>(_, usm_reader).
           rbind (read_octet_string usm_reader) (\<lambda>(auth_params_value, usm_reader).
           Inr (Some (reader_offset usm_reader - length auth_params_value)))))))))))))"

definition encode_v3_message ::
  "i32 \<Rightarrow> i32 \<Rightarrow> u8 \<Rightarrow> i32 \<Rightarrow> bytes \<Rightarrow> i32 \<Rightarrow> i32 \<Rightarrow> bytes \<Rightarrow> bytes \<Rightarrow> bytes \<Rightarrow> bytes \<Rightarrow> bool
    \<Rightarrow> BerError + bytes \<times> nat option" where
  "encode_v3_message msg_id max_size flags_byte security_model engine_id engine_boots engine_time
     user_name auth_params priv_params scoped_pdu_or_ciphertext encrypted =
     (let header_bytes = encode_header_data msg_id max_size flags_byte security_model;
          usm_bytes = encode_usm_params engine_id engine_boots engine_time user_name auth_params priv_params;
          msg_inner = write_octet_string usm_bytes (write_raw header_bytes
                        (write_integer SNMPV3_VERSION writer_new));
          msg_inner = (if encrypted then write_octet_string scoped_pdu_or_ciphertext msg_inner
                       else write_raw scoped_pdu_or_ciphertext msg_inner);
          encoded_message = wrap_in_outer_sequence (as_bytes msg_inner)
      in rbind (find_auth_params_offset encoded_message (length auth_params))
           (\<lambda>auth_params_offset. Inr (encoded_message, auth_params_offset)))"

definition encode_v2c_message :: "bytes \<Rightarrow> bytes \<Rightarrow> bytes" where
  "encode_v2c_message community raw_pdu_tlv =
     (let inner = write_raw raw_pdu_tlv (write_octet_string community
                    (write_integer SNMPV2C_VERSION writer_new))
      in wrap_in_outer_sequence (as_bytes inner))"

section \<open>The authentication parameters of a decoded message\<close>

lemma decode_usm_offset:
  assumes "reader_of m r" "decode_usm_security_parameters r = Inr (du, r')"
    and "du_auth_params_offset du = Some off"
  shows "uf_auth_params (du_fields du) \<noteq> []" "off + length (uf_auth_params (du_fields du)) \<le> length m"
    "take (length (uf_auth_params (du_fields du))) (drop off m) = uf_auth_params (du_fields du)"
proof -
  from assms(2) obtain usm r0 u uo eid u1 eb u2 et u3 un u4 ap u5 pp u6 where
    steps: "read_octet_string r = Inr (usm, r0)"
      "read_sequence (reader_new_with_offset usm (reader_offset r0 - length usm)) = Inr (u, uo)"
      "read_octet_string u = Inr (eid, u1)" "read_integer u1 = Inr (eb, u2)"
      "read_integer u2 = Inr (et, u3)" "read_octet_string u3 = Inr (un, u4)"
      "read_octet_string u4 = Inr (ap, u5)" "read_octet_string u5 = Inr (pp, u6)"
    and du: "uf_auth_params (du_fields du) = ap"
      "du_auth_params_offset du = (if ap = [] then None else Some (reader_offset u5 - length ap))"
    by (auto simp: decode_usm_security_parameters_def result_Inr_iffs Let_def split: if_splits)
  have "reader_of m u4"
    using octet_string_op.reader_of_preserved integer_op.reader_of_preserved read_sequence_sub_reader
      read_octet_string_window(1) assms(1) steps(1-6) by metis
  from read_octet_string_window(2,3)[OF this steps(7)]
  show "uf_auth_params (du_fields du) \<noteq> []" "off + length (uf_auth_params (du_fields du)) \<le> length m"
    "take (length (uf_auth_params (du_fields du))) (drop off m) = uf_auth_params (du_fields du)"
    using du assms(3) by (auto split: if_splits)
qed

lemma singleton_case_Inr:
  "(case xs of [a] \<Rightarrow> f a | _ \<Rightarrow> Inl e) = Inr y \<longleftrightarrow> (\<exists>a. xs = [a] \<and> f a = Inr y)"
  by (auto split: list.splits)

lemma decode_header_reader_of:
  "reader_of m r \<Longrightarrow> decode_header_data r = Inr (h, r') \<Longrightarrow> reader_of m r'"
  by (auto simp: decode_header_data_def result_Inr_iffs singleton_case_Inr split: if_splits
      intro: sequence_op.reader_of_preserved)

lemma decode_v3_envelope_offset:
  assumes "decode_v3_envelope m = Inr env" "env_auth_params_offset env = Some off"
  shows "uf_auth_params (env_usm env) \<noteq> []" "off + length (uf_auth_params (env_usm env)) \<le> length m"
    "take (length (uf_auth_params (env_usm env))) (drop off m) = uf_auth_params (env_usm env)"
proof -
  from assms(1) obtain mr ro v mr1 h mr2 du mr3 where
    steps: "read_sequence (reader_new m) = Inr (mr, ro)" "read_integer mr = Inr (v, mr1)"
      "decode_header_data mr1 = Inr (h, mr2)" "decode_usm_security_parameters mr2 = Inr (du, mr3)"
    and env: "env_usm env = du_fields du" "env_auth_params_offset env = du_auth_params_offset du"
    by (auto simp: decode_v3_envelope_def result_Inr_iffs split: if_splits)
  have "reader_of m mr2"
    using read_sequence_sub_reader[OF reader_of_new steps(1)] steps(2,3)
    by (blast intro: integer_op.reader_of_preserved decode_header_reader_of)
  from decode_usm_offset[OF this steps(4)]
  show "uf_auth_params (env_usm env) \<noteq> []" "off + length (uf_auth_params (env_usm env)) \<le> length m"
    "take (length (uf_auth_params (env_usm env))) (drop off m) = uf_auth_params (env_usm env)"
    using assms(2) env by auto
qed

lemma decode_v3_envelope_facts:
  assumes "decode_v3_envelope m = Inr env"
  shows "env_raw_message env = m" "0 \<le> sint (env_msg_id env)" "484 \<le> sint (env_max_size env)"
    "length (uf_user_name (env_usm env)) \<le> 32"
    "env_auth_params_offset env = None \<longleftrightarrow> uf_auth_params (env_usm env) = []"
  using assms
  by (auto simp: decode_v3_envelope_def decode_header_data_def decode_usm_security_parameters_def
      MSG_USER_NAME_MAX_LENGTH_def result_Inr_iffs Let_def split: if_splits list.splits)

section \<open>Round trip\<close>

abbreviation oct_tlv :: "bytes \<Rightarrow> bytes" where
  "oct_tlv bs \<equiv> tlv TAG_OCTET_STRING bs"

abbreviation i32_tlv :: "i32 \<Rightarrow> bytes" where
  "i32_tlv v \<equiv> tlv TAG_INTEGER (encode_signed_i32 v)"

definition usm_body :: "UsmFields \<Rightarrow> bytes" where
  "usm_body u = oct_tlv (uf_engine_id u) @ i32_tlv (uf_engine_boots u) @ i32_tlv (uf_engine_time u)
     @ oct_tlv (uf_user_name u) @ oct_tlv (uf_auth_params u) @ oct_tlv (uf_priv_params u)"

definition header_body :: "HeaderData \<Rightarrow> bytes" where
  "header_body h = i32_tlv (hd_msg_id h) @ i32_tlv (hd_max_size h) @ oct_tlv [hd_security_flags h]
     @ i32_tlv (hd_security_model h)"

fun scoped_body :: "ScopedData \<Rightarrow> bytes" where
  "scoped_body (ScopedPlaintext e n p) = tlv TAG_SEQUENCE (oct_tlv e @ oct_tlv n @ p)"
| "scoped_body (ScopedEncrypted c) = oct_tlv c"

definition message_body :: "HeaderData \<Rightarrow> UsmFields \<Rightarrow> bytes \<Rightarrow> bytes" where
  "message_body h u s = i32_tlv SNMPV3_VERSION @ tlv TAG_SEQUENCE (header_body h)
     @ oct_tlv (tlv TAG_SEQUENCE (usm_body u)) @ s"

lemma decode_header_encoded:
  assumes "reader_wf r" "reader_rest r = tlv TAG_SEQUENCE (header_body h) @ rest"
    and "0 \<le> sint (hd_msg_id h)" "484 \<le> sint (hd_max_size h)"
  obtains r' where "decode_header_data r = Inr (h, r')" "reader_wf r'" "reader_rest r' = rest"
    "reader_offset r' = reader_offset r + length (tlv TAG_SEQUENCE (header_body h))"
proof -
  obtain s r' where s: "read_sequence r = Inr (s, r')" "reader_wf s" "reader_rest s = header_body h"
    and r': "reader_wf r'" "reader_rest r' = rest"
      "reader_offset r' = reader_offset r + length (tlv TAG_SEQUENCE (header_body h))"
    using assms(1,2) by (rule read_sequence_step)
  obtain s1 where 1: "read_integer s = Inr (hd_msg_id h, s1)" "reader_wf s1"
    "reader_rest s1 = i32_tlv (hd_max_size h) @ oct_tlv [hd_security_flags h] @ i32_tlv (hd_security_model h)"
    using s(2,3) unfolding header_body_def by (rule read_integer_obtain)
  obtain s2 where 2: "read_integer s1 = Inr (hd_max_size h, s2)" "reader_wf s2"
    "reader_rest s2 = oct_tlv [hd_security_flags h] @ i32_tlv (hd_security_model h)"
    using 1(2,3) by (rule read_integer_obtain)
  obtain s3 where 3: "read_octet_string s2 = Inr ([hd_security_flags h], s3)" "reader_wf s3"
    "reader_rest s3 = i32_tlv (hd_security_model h)"
    using 2(2,3) by (rule read_octet_string_obtain)
  then have "reader_rest s3 = i32_tlv (hd_security_model h) @ []" by simp
  with 3(2) obtain s4 where 4: "read_integer s3 = Inr (hd_security_model h, s4)"
    by (rule read_integer_obtain)
  have "decode_header_data r = Inr (h, r')"
    using s(1) 1(1) 2(1) 3(1) 4 assms(3,4) by (simp add: decode_header_data_def not_less)
  then show thesis using r' that by blast
qed

lemma read_usm_body:
  assumes "reader_wf r" "reader_rest r = usm_body u"
  obtains r1 r2 r3 r4 r5 r6 where
    "read_octet_string r = Inr (uf_engine_id u, r1)" "read_integer r1 = Inr (uf_engine_boots u, r2)"
    "read_integer r2 = Inr (uf_engine_time u, r3)" "read_octet_string r3 = Inr (uf_user_name u, r4)"
    "read_octet_string r4 = Inr (uf_auth_params u, r5)" "read_octet_string r5 = Inr (uf_priv_params u, r6)"
    "reader_offset r5 = reader_offset r + length (oct_tlv (uf_engine_id u)) + length (i32_tlv (uf_engine_boots u))
       + length (i32_tlv (uf_engine_time u)) + length (oct_tlv (uf_user_name u)) + length (oct_tlv (uf_auth_params u))"
proof -
  obtain r1 where 1: "read_octet_string r = Inr (uf_engine_id u, r1)" "reader_wf r1"
    "reader_rest r1 = i32_tlv (uf_engine_boots u) @ i32_tlv (uf_engine_time u) @ oct_tlv (uf_user_name u)
       @ oct_tlv (uf_auth_params u) @ oct_tlv (uf_priv_params u)"
    "reader_offset r1 = reader_offset r + length (oct_tlv (uf_engine_id u))"
    using assms unfolding usm_body_def by (rule read_octet_string_obtain)
  obtain r2 where 2: "read_integer r1 = Inr (uf_engine_boots u, r2)" "reader_wf r2"
    "reader_rest r2 = i32_tlv (uf_engine_time u) @ oct_tlv (uf_user_name u)
       @ oct_tlv (uf_auth_params u) @ oct_tlv (uf_priv_params u)"
    "reader_offset r2 = reader_offset r1 + length (i32_tlv (uf_engine_boots u))"
    using 1(2,3) by (rule read_integer_obtain)
  obtain r3 where 3: "read_integer r2 = Inr (uf_engine_time u, r3)" "reader_wf r3"
    "reader_rest r3 = oct_tlv (uf_user_name u) @ oct_tlv (uf_auth_params u) @ oct_tlv (uf_priv_params u)"
    "reader_offset r3 = reader_offset r2 + length (i32_tlv (uf_engine_time u))"
    using 2(2,3) by (rule read_integer_obtain)
  obtain r4 where 4: "read_octet_string r3 = Inr (uf_user_name u, r4)" "reader_wf r4"
    "reader_rest r4 = oct_tlv (uf_auth_params u) @ oct_tlv (uf_priv_params u)"
    "reader_offset r4 = reader_offset r3 + length (oct_tlv (uf_user_name u))"
    using 3(2,3) by (rule read_octet_string_obtain)
  obtain r5 where 5: "read_octet_string r4 = Inr (uf_auth_params u, r5)" "reader_wf r5"
    "reader_rest r5 = oct_tlv (uf_priv_params u) @ []"
    "reader_offset r5 = reader_offset r4 + length (oct_tlv (uf_auth_params u))"
    using 4(2,3) by (rule read_octet_string_obtain) simp
  obtain r6 where 6: "read_octet_string r5 = Inr (uf_priv_params u, r6)"
    using 5(2,3) by (rule read_octet_string_obtain)
  show thesis by (rule that[OF 1(1) 2(1) 3(1) 4(1) 5(1) 6]) (simp only: 1(4) 2(4) 3(4) 4(4) 5(4))
qed

text \<open>The decoder and the encoder's own search read the same fields, so they agree on the offset.\<close>

definition usm_read_at :: "BerReader \<Rightarrow> UsmFields \<Rightarrow> nat \<Rightarrow> BerReader \<Rightarrow> bool" where
  "usm_read_at r u off r' \<longleftrightarrow> (\<exists>usm s so r1 r2 r3 r4 r5 r6. read_octet_string r = Inr (usm, r')
     \<and> read_sequence (reader_new_with_offset usm (reader_offset r' - length usm)) = Inr (s, so)
     \<and> read_octet_string s = Inr (uf_engine_id u, r1) \<and> read_integer r1 = Inr (uf_engine_boots u, r2)
     \<and> read_integer r2 = Inr (uf_engine_time u, r3) \<and> read_octet_string r3 = Inr (uf_user_name u, r4)
     \<and> read_octet_string r4 = Inr (uf_auth_params u, r5) \<and> read_octet_string r5 = Inr (uf_priv_params u, r6)
     \<and> off = reader_offset r5 - length (uf_auth_params u))"

text \<open>What precedes the authentication parameters within the USM field and within the message.\<close>

definition tlv_header :: "u8 \<Rightarrow> nat \<Rightarrow> bytes" where
  "tlv_header tag n = tag # encode_length [] n"

definition usm_prefix :: "UsmFields \<Rightarrow> bytes" where
  "usm_prefix u = tlv_header TAG_OCTET_STRING (length (tlv TAG_SEQUENCE (usm_body u)))
     @ tlv_header TAG_SEQUENCE (length (usm_body u))
     @ oct_tlv (uf_engine_id u) @ i32_tlv (uf_engine_boots u) @ i32_tlv (uf_engine_time u)
     @ oct_tlv (uf_user_name u) @ tlv_header TAG_OCTET_STRING (length (uf_auth_params u))"

lemma tlv_header_append: "tlv tag v = tlv_header tag (length v) @ v"
  by (simp add: tlv_def tlv_header_def)

lemma length_tlv_header: "length (tlv tag v) = length (tlv_header tag (length v)) + length v"
  by (simp add: tlv_header_append)

lemma usm_read_encoded:
  assumes "reader_wf r" "reader_rest r = oct_tlv (tlv TAG_SEQUENCE (usm_body u)) @ rest"
  obtains r' where "usm_read_at r u (reader_offset r + length (usm_prefix u)) r'" "reader_wf r'"
    "reader_rest r' = rest"
proof -
  let ?usm = "tlv TAG_SEQUENCE (usm_body u)"
  obtain r' where o: "read_octet_string r = Inr (?usm, r')" "reader_wf r'" "reader_rest r' = rest"
    "reader_offset r' = reader_offset r + length (oct_tlv ?usm)"
    using assms by (rule read_octet_string_obtain)
  let ?s = "reader_new_with_offset ?usm (reader_offset r' - length ?usm)"
  have wf: "reader_wf ?s" unfolding o(4) using assms by (rule reader_wf_sub)
  have rest: "reader_rest ?s = ?usm @ []" by simp
  obtain s where s: "read_sequence ?s = Inr (s, advance (length ?usm) ?s)" "reader_wf s" "reader_rest s = usm_body u"
    "reader_offset s = reader_offset ?s + length ?usm - length (usm_body u)"
    using wf rest by (rule read_sequence_obtain)
  obtain r1 r2 r3 r4 r5 r6 where
    "read_octet_string s = Inr (uf_engine_id u, r1)" "read_integer r1 = Inr (uf_engine_boots u, r2)"
    "read_integer r2 = Inr (uf_engine_time u, r3)" "read_octet_string r3 = Inr (uf_user_name u, r4)"
    "read_octet_string r4 = Inr (uf_auth_params u, r5)" "read_octet_string r5 = Inr (uf_priv_params u, r6)"
    and off: "reader_offset r5 = reader_offset s + length (oct_tlv (uf_engine_id u)) + length (i32_tlv (uf_engine_boots u))
       + length (i32_tlv (uf_engine_time u)) + length (oct_tlv (uf_user_name u)) + length (oct_tlv (uf_auth_params u))"
    using s(2,3) by (rule read_usm_body)
  then have at: "usm_read_at r u (reader_offset r5 - length (uf_auth_params u)) r'"
    unfolding usm_read_at_def using o(1) s(1) by blast
  have "reader_offset ?s = reader_offset r' - length ?usm"
    by (simp add: reader_offset_def reader_new_with_offset_def)
  then have "reader_offset r5 - length (uf_auth_params u) = reader_offset r + length (usm_prefix u)"
    unfolding off s(4) o(4) usm_prefix_def length_append
      length_tlv_header[of TAG_OCTET_STRING "uf_auth_params u"] length_tlv_header[of TAG_OCTET_STRING ?usm]
      length_tlv_header[of TAG_SEQUENCE "usm_body u"] by simp
  then show thesis using that at o(2,3) by simp
qed

lemma decode_usm_read_at:
  assumes "usm_read_at r u off r'" "length (uf_user_name u) \<le> 32"
  shows "decode_usm_security_parameters r = Inr (\<lparr>du_fields = u,
      du_auth_params_offset = (if uf_auth_params u = [] then None else Some off)\<rparr>, r')"
  using assms by (auto simp: usm_read_at_def decode_usm_security_parameters_def MSG_USER_NAME_MAX_LENGTH_def not_less)

lemma decode_scoped_encoded:
  assumes "reader_wf r" "reader_rest r = scoped_body sd"
  shows "decode_scoped_pdu_data r = Inr sd"
proof (cases sd)
  case (ScopedPlaintext e n p)
  let ?b = "oct_tlv e @ oct_tlv n @ p"
  have rest: "reader_rest r = tlv TAG_SEQUENCE ?b @ []" using assms(2) ScopedPlaintext by simp
  have pk: "peek_tag r = Inr TAG_SEQUENCE" using rest by (intro peek_tag_rest) (simp add: tlv_def)
  obtain s where s: "read_sequence r = Inr (s, advance (length (tlv TAG_SEQUENCE ?b)) r)"
    "reader_wf s" "reader_rest s = ?b"
    using assms(1) rest by (rule read_sequence_obtain)
  obtain s1 where 1: "read_octet_string s = Inr (e, s1)" "reader_wf s1" "reader_rest s1 = oct_tlv n @ p"
    using s(2,3) by (rule read_octet_string_obtain)
  obtain s2 where 2: "read_octet_string s1 = Inr (n, s2)" "reader_wf s2" "reader_rest s2 = p"
    using 1(2,3) by (rule read_octet_string_obtain)
  show ?thesis
    using pk s(1) 1(1) 2 by (simp add: decode_scoped_pdu_data_def remaining_rest ScopedPlaintext)
next
  case (ScopedEncrypted c)
  have rest: "reader_rest r = oct_tlv c @ []" using assms(2) ScopedEncrypted by simp
  have pk: "peek_tag r = Inr TAG_OCTET_STRING" using rest by (intro peek_tag_rest) (simp add: tlv_def)
  show ?thesis using pk read_octet_string_encoded[OF assms(1) rest]
    by (simp add: decode_scoped_pdu_data_def ScopedEncrypted tag_defs)
qed

lemma encoded_layers:
  "encode_scoped_pdu e n p = scoped_body (ScopedPlaintext e n p)"
  "encode_usm_params (uf_engine_id u) (uf_engine_boots u) (uf_engine_time u) (uf_user_name u)
     (uf_auth_params u) (uf_priv_params u) = tlv TAG_SEQUENCE (usm_body u)"
  "encode_header_data (hd_msg_id h) (hd_max_size h) (hd_security_flags h) (hd_security_model h)
     = tlv TAG_SEQUENCE (header_body h)"
  by (simp_all add: encode_scoped_pdu_def encode_usm_params_def encode_header_data_def
      wrap_in_outer_sequence_def writer_simps usm_body_def header_body_def)

text \<open>A message as the encoder lays it out, from the pieces the decoder returns.\<close>

definition encoded_v3 :: "HeaderData \<Rightarrow> UsmFields \<Rightarrow> bytes \<Rightarrow> bytes" where
  "encoded_v3 h u s = tlv TAG_SEQUENCE (message_body h u s)"

definition auth_prefix :: "HeaderData \<Rightarrow> UsmFields \<Rightarrow> bytes \<Rightarrow> bytes" where
  "auth_prefix h u s = tlv_header TAG_SEQUENCE (length (message_body h u s)) @ i32_tlv SNMPV3_VERSION
     @ tlv TAG_SEQUENCE (header_body h) @ usm_prefix u"

lemma usm_field_split:
  "oct_tlv (tlv TAG_SEQUENCE (usm_body u)) = usm_prefix u @ uf_auth_params u @ oct_tlv (uf_priv_params u)"
proof -
  have b: "usm_body u = oct_tlv (uf_engine_id u) @ i32_tlv (uf_engine_boots u) @ i32_tlv (uf_engine_time u)
      @ oct_tlv (uf_user_name u) @ (tlv_header TAG_OCTET_STRING (length (uf_auth_params u)) @ uf_auth_params u)
      @ oct_tlv (uf_priv_params u)"
    unfolding usm_body_def tlv_header_append[of TAG_OCTET_STRING "uf_auth_params u"] ..
  have "oct_tlv (tlv TAG_SEQUENCE (usm_body u)) = tlv_header TAG_OCTET_STRING (length (tlv TAG_SEQUENCE (usm_body u)))
      @ tlv_header TAG_SEQUENCE (length (usm_body u)) @ usm_body u"
    using tlv_header_append[of TAG_OCTET_STRING "tlv TAG_SEQUENCE (usm_body u)"]
      tlv_header_append[of TAG_SEQUENCE "usm_body u"] by metis
  also have "\<dots> = usm_prefix u @ uf_auth_params u @ oct_tlv (uf_priv_params u)"
    unfolding usm_prefix_def by (subst (3) b) simp
  finally show ?thesis .
qed

lemma encoded_v3_split:
  "encoded_v3 h u s = auth_prefix h u s @ uf_auth_params u @ oct_tlv (uf_priv_params u) @ s"
proof -
  have "encoded_v3 h u s = tlv_header TAG_SEQUENCE (length (message_body h u s)) @ message_body h u s"
    unfolding encoded_v3_def by (rule tlv_header_append)
  also have "\<dots> = auth_prefix h u s @ uf_auth_params u @ oct_tlv (uf_priv_params u) @ s"
    unfolding auth_prefix_def by (subst (2) message_body_def) (simp add: usm_field_split)
  finally show ?thesis .
qed

text \<open>Exchanging the authentication parameters for others of the same length changes those
  bytes and no others.\<close>

lemma length_tlv_cong: "length v = length w \<Longrightarrow> length (tlv tag v) = length (tlv tag w)"
  by (simp add: length_tlv)

lemma auth_prefix_exchange:
  assumes "length ap = length (uf_auth_params u)"
  shows "auth_prefix h (u\<lparr>uf_auth_params := ap\<rparr>) s = auth_prefix h u s"
proof -
  have b: "length (usm_body (u\<lparr>uf_auth_params := ap\<rparr>)) = length (usm_body u)"
    using length_tlv_cong[OF assms, of TAG_OCTET_STRING] by (simp add: usm_body_def)
  then have p: "usm_prefix (u\<lparr>uf_auth_params := ap\<rparr>) = usm_prefix u"
    using assms length_tlv_cong[OF b, of TAG_SEQUENCE] by (simp add: usm_prefix_def)
  have "length (message_body h (u\<lparr>uf_auth_params := ap\<rparr>) s) = length (message_body h u s)"
    unfolding message_body_def length_append length_tlv_cong[OF length_tlv_cong[OF b]] ..
  with p show ?thesis by (simp add: auth_prefix_def)
qed

lemma encoded_v3_exchange:
  assumes "length ap = length (uf_auth_params u)"
  shows "slice_set (encoded_v3 h u s) (length (auth_prefix h u s)) ap = encoded_v3 h (u\<lparr>uf_auth_params := ap\<rparr>) s"
  using assms unfolding slice_set_def encoded_v3_split auth_prefix_exchange[OF assms] by simp

lemma read_encoded_v3:
  assumes "length (encoded_v3 h u s) < 9223372036854775808"
  obtains mr ro mr1 where
    "read_sequence (reader_new (encoded_v3 h u s)) = Inr (mr, ro)"
    "read_integer mr = Inr (SNMPV3_VERSION, mr1)" "reader_wf mr1"
    "reader_rest mr1 = tlv TAG_SEQUENCE (header_body h) @ oct_tlv (tlv TAG_SEQUENCE (usm_body u)) @ s"
    "reader_offset mr1 = length (tlv_header TAG_SEQUENCE (length (message_body h u s))) + length (i32_tlv SNMPV3_VERSION)"
proof -
  have wf: "reader_wf (reader_new (encoded_v3 h u s))" using assms by (rule reader_wf_new)
  have rest: "reader_rest (reader_new (encoded_v3 h u s)) = tlv TAG_SEQUENCE (message_body h u s) @ []"
    by (simp add: encoded_v3_def)
  obtain mr ro where m: "read_sequence (reader_new (encoded_v3 h u s)) = Inr (mr, ro)" "reader_wf mr"
    "reader_rest mr = message_body h u s"
    "reader_offset mr = reader_offset (reader_new (encoded_v3 h u s)) + length (tlv TAG_SEQUENCE (message_body h u s))
       - length (message_body h u s)"
    using wf rest by (rule read_sequence_obtain)
  obtain mr1 where "read_integer mr = Inr (SNMPV3_VERSION, mr1)" "reader_wf mr1"
    "reader_rest mr1 = tlv TAG_SEQUENCE (header_body h) @ oct_tlv (tlv TAG_SEQUENCE (usm_body u)) @ s"
    "reader_offset mr1 = reader_offset mr + length (i32_tlv SNMPV3_VERSION)"
    using m(2,3) unfolding message_body_def by (rule read_integer_obtain)
  then show thesis using that m(1,4)
    by (simp add: length_tlv_header reader_offset_def reader_new_def)
qed

lemma decode_encoded_v3:
  assumes "length (encoded_v3 h u (scoped_body sd)) < 9223372036854775808"
    and "0 \<le> sint (hd_msg_id h)" "484 \<le> sint (hd_max_size h)" "length (uf_user_name u) \<le> 32"
  obtains off where "off = length (auth_prefix h u (scoped_body sd))"
    "decode_v3_envelope (encoded_v3 h u (scoped_body sd)) = Inr \<lparr>env_msg_id = hd_msg_id h,
       env_max_size = hd_max_size h, env_security_flags = hd_security_flags h,
       env_security_model = hd_security_model h, env_usm = u, env_scoped_data = sd,
       env_raw_message = encoded_v3 h u (scoped_body sd),
       env_auth_params_offset = (if uf_auth_params u = [] then None else Some off)\<rparr>"
    "find_auth_params_offset (encoded_v3 h u (scoped_body sd)) (length (uf_auth_params u))
       = Inr (if uf_auth_params u = [] then None else Some off)"
proof -
  let ?m = "encoded_v3 h u (scoped_body sd)"
  obtain mr ro mr1 where m: "read_sequence (reader_new ?m) = Inr (mr, ro)"
    "read_integer mr = Inr (SNMPV3_VERSION, mr1)" and wf: "reader_wf mr1"
    and rest: "reader_rest mr1 = tlv TAG_SEQUENCE (header_body h) @ oct_tlv (tlv TAG_SEQUENCE (usm_body u))
      @ scoped_body sd"
    and o1: "reader_offset mr1 = length (tlv_header TAG_SEQUENCE (length (message_body h u (scoped_body sd))))
      + length (i32_tlv SNMPV3_VERSION)"
    using assms(1) by (rule read_encoded_v3)
  obtain mr2 where h: "decode_header_data mr1 = Inr (h, mr2)" "reader_wf mr2"
    "reader_rest mr2 = oct_tlv (tlv TAG_SEQUENCE (usm_body u)) @ scoped_body sd"
    and o2: "reader_offset mr2 = reader_offset mr1 + length (tlv TAG_SEQUENCE (header_body h))"
    using wf rest assms(2,3) by (rule decode_header_encoded)
  obtain mr3 where u3: "usm_read_at mr2 u (reader_offset mr2 + length (usm_prefix u)) mr3" "reader_wf mr3"
    "reader_rest mr3 = scoped_body sd"
    using h(2,3) by (rule usm_read_encoded)
  define off where "off = length (auth_prefix h u (scoped_body sd))"
  have "reader_offset mr2 + length (usm_prefix u) = off"
    unfolding off_def auth_prefix_def length_append o1 o2 by simp
  then have u: "usm_read_at mr2 u off mr3" "reader_wf mr3" "reader_rest mr3 = scoped_body sd" using u3 by simp_all
  have s: "decode_scoped_pdu_data mr3 = Inr sd" using u(2,3) by (rule decode_scoped_encoded)
  obtain hs where hs: "read_sequence mr1 = Inr (hs, mr2)"
    using h(1) by (auto simp: decode_header_data_def result_Inr_iffs singleton_case_Inr split: if_splits)
  have "find_auth_params_offset ?m (length (uf_auth_params u))
      = Inr (if uf_auth_params u = [] then None else Some off)"
    using u(1) m hs by (auto simp: find_auth_params_offset_def usm_read_at_def)
  moreover have "decode_v3_envelope ?m = Inr \<lparr>env_msg_id = hd_msg_id h,
       env_max_size = hd_max_size h, env_security_flags = hd_security_flags h,
       env_security_model = hd_security_model h, env_usm = u, env_scoped_data = sd,
       env_raw_message = ?m, env_auth_params_offset = (if uf_auth_params u = [] then None else Some off)\<rparr>"
    using m h(1) decode_usm_read_at[OF u(1) assms(4)] s by (simp add: decode_v3_envelope_def)
  ultimately show thesis using that off_def by blast
qed

lemma encode_v3_message_layers:
  "encode_v3_message (hd_msg_id h) (hd_max_size h) (hd_security_flags h) (hd_security_model h)
     (uf_engine_id u) (uf_engine_boots u) (uf_engine_time u) (uf_user_name u) (uf_auth_params u)
     (uf_priv_params u) sp encrypted =
   (let m = encoded_v3 h u (if encrypted then oct_tlv sp else sp)
    in rbind (find_auth_params_offset m (length (uf_auth_params u))) (\<lambda>off. Inr (m, off)))"
  by (simp add: encode_v3_message_def Let_def encoded_layers wrap_in_outer_sequence_def writer_simps
      encoded_v3_def message_body_def)

lemma ber_decode_scoped_pdu_encoded:
  assumes "length (encode_scoped_pdu e n p) < 9223372036854775808"
  shows "ber_decode_scoped_pdu (encode_scoped_pdu e n p)
    = Inr \<lparr>dsf_context_engine_id = e, dsf_context_name = n, dsf_raw_pdu = p\<rparr>"
proof -
  let ?b = "oct_tlv e @ oct_tlv n @ p" let ?r = "reader_new (encode_scoped_pdu e n p)"
  have wf: "reader_wf ?r" using assms by (rule reader_wf_new)
  have rest: "reader_rest ?r = tlv TAG_SEQUENCE ?b @ []" by (simp add: encoded_layers)
  obtain s where s: "read_sequence ?r = Inr (s, advance (length (tlv TAG_SEQUENCE ?b)) ?r)"
    "reader_wf s" "reader_rest s = ?b"
    using wf rest by (rule read_sequence_obtain)
  obtain s1 where 1: "read_octet_string s = Inr (e, s1)" "reader_wf s1" "reader_rest s1 = oct_tlv n @ p"
    using s(2,3) by (rule read_octet_string_obtain)
  obtain s2 where 2: "read_octet_string s1 = Inr (n, s2)" "reader_wf s2" "reader_rest s2 = p"
    using 1(2,3) by (rule read_octet_string_obtain)
  show ?thesis using s(1) 1(1) 2 by (simp add: ber_decode_scoped_pdu_def remaining_rest)
qed

lemma length_encode_length_le: "length (encode_length [] n) \<le> 9"
  by (cases "n \<le> 127")
    (simp_all add: encode_length_def[of "[]"] encode_length_long not_le length_octets_def)

lemma length_tlv_le: "length (tlv tag v) \<le> length v + 10"
  using length_encode_length_le[of "length v"] by (simp add: length_tlv)

lemma length_i32_tlv_le: "length (i32_tlv v) \<le> 14"
  using length_tlv_le[of TAG_INTEGER "encode_signed_i32 v"] length_encode_signed_i32(2)[of v] by linarith

lemma length_encoded_v3_le:
  "length (encoded_v3 h u s) \<le> length (uf_engine_id u) + length (uf_user_name u)
     + length (uf_auth_params u) + length (uf_priv_params u) + length s + 200"
  using length_tlv_le[of TAG_SEQUENCE "message_body h u s"]
    length_tlv_le[of TAG_SEQUENCE "header_body h"] length_tlv_le[of TAG_OCTET_STRING "[hd_security_flags h]"]
    length_i32_tlv_le[of "hd_msg_id h"] length_i32_tlv_le[of "hd_max_size h"]
    length_i32_tlv_le[of "hd_security_model h"] length_i32_tlv_le[of SNMPV3_VERSION]
    length_tlv_le[of TAG_OCTET_STRING "tlv TAG_SEQUENCE (usm_body u)"]
    length_tlv_le[of TAG_SEQUENCE "usm_body u"]
    length_tlv_le[of TAG_OCTET_STRING "uf_engine_id u"] length_tlv_le[of TAG_OCTET_STRING "uf_user_name u"]
    length_tlv_le[of TAG_OCTET_STRING "uf_auth_params u"] length_tlv_le[of TAG_OCTET_STRING "uf_priv_params u"]
    length_i32_tlv_le[of "uf_engine_boots u"] length_i32_tlv_le[of "uf_engine_time u"]
  unfolding encoded_v3_def message_body_def header_body_def usm_body_def length_append
  by simp

text \<open>An authenticated message of user \<open>u\<close> for the witnesses.\<close>

definition sample_header :: HeaderData where
  "sample_header = \<lparr>hd_msg_id = 7, hd_max_size = 1500, hd_security_flags = 1, hd_security_model = 3\<rparr>"

definition sample_usm :: UsmFields where
  "sample_usm = \<lparr>uf_engine_id = [0x80, 0, 0x1F, 0x88, 4], uf_engine_boots = 2, uf_engine_time = 30,
     uf_user_name = [0x75], uf_auth_params = replicate 24 0xAB, uf_priv_params = []\<rparr>"

lemma sample_facts:
  "0 \<le> sint (hd_msg_id sample_header)" "484 \<le> sint (hd_max_size sample_header)"
  "length (uf_user_name sample_usm) \<le> 32" "uf_auth_params sample_usm \<noteq> []"
  "length (encoded_v3 sample_header sample_usm (scoped_body (ScopedEncrypted [1, 2, 3]))) < 9223372036854775808"
  using length_encoded_v3_le[of sample_header sample_usm "scoped_body (ScopedEncrypted [1, 2, 3])"]
    length_tlv_le[of TAG_OCTET_STRING "[1, 2, 3]"]
  by (simp_all add: sample_header_def sample_usm_def)

section \<open>Properties\<close>

text \<open>Whatever bytes a peer sends, if the envelope decodes and reports an offset for the
  authentication parameters, then the bytes of the message from that offset are exactly the
  decoded authentication parameters and lie within the message; an offset is reported exactly
  when the field is not empty. Zeroing that range before computing the MAC touches nothing
  else.\<close>

theorem auth_params_offset_exact:
  assumes "decode_v3_envelope m = Inr env"
  shows "(env_auth_params_offset env = None \<longleftrightarrow> uf_auth_params (env_usm env) = [])
    \<and> (\<forall>off. env_auth_params_offset env = Some off \<longrightarrow>
         off + length (uf_auth_params (env_usm env)) \<le> length m
         \<and> take (length (uf_auth_params (env_usm env))) (drop off m) = uf_auth_params (env_usm env))"
  using decode_v3_envelope_offset[OF assms] decode_v3_envelope_facts(5)[OF assms] by blast

theorem auth_params_offset_exact_witness:
  "\<exists>m env off. decode_v3_envelope m = Inr env \<and> env_auth_params_offset env = Some off
     \<and> uf_auth_params (env_usm env) = replicate 24 0xAB \<and> take 24 (drop off m) = replicate 24 0xAB"
proof -
  let ?m = "encoded_v3 sample_header sample_usm (scoped_body (ScopedEncrypted [1, 2, 3]))"
  obtain env off where d: "decode_v3_envelope ?m = Inr env" "env_auth_params_offset env = Some off"
    "env_usm env = sample_usm"
    by (rule decode_encoded_v3[OF sample_facts(5,1,2,3)]) (use sample_facts(4) in auto)
  then have "take 24 (drop off ?m) = replicate 24 0xAB"
    using auth_params_offset_exact[OF d(1)] by (simp add: sample_usm_def)
  then show ?thesis using d by (intro exI[of _ ?m] exI[of _ env] exI[of _ off]) (simp add: sample_usm_def)
qed

text \<open>C21: An encoded SNMPv3 message decodes to the fields it was built from, for plaintext and
  for encrypted scoped data, and the offset the encoder returns is the one the decoder finds.
  The encoder cannot fail on such a message.\<close>

theorem v3_message_round_trip:
  assumes "0 \<le> sint (hd_msg_id h)" "484 \<le> sint (hd_max_size h)" "length (uf_user_name u) \<le> 32"
    and "sd = ScopedPlaintext e n p \<and> \<not> encrypted \<and> sp = encode_scoped_pdu e n p
       \<or> sd = ScopedEncrypted sp \<and> encrypted"
    and "length (encoded_v3 h u (scoped_body sd)) < 2 ^ 63"
  shows "\<exists>m off. encode_v3_message (hd_msg_id h) (hd_max_size h) (hd_security_flags h) (hd_security_model h)
       (uf_engine_id u) (uf_engine_boots u) (uf_engine_time u) (uf_user_name u) (uf_auth_params u)
       (uf_priv_params u) sp encrypted = Inr (m, off)
    \<and> decode_v3_envelope m = Inr \<lparr>env_msg_id = hd_msg_id h, env_max_size = hd_max_size h,
       env_security_flags = hd_security_flags h, env_security_model = hd_security_model h, env_usm = u,
       env_scoped_data = sd, env_raw_message = m, env_auth_params_offset = off\<rparr>"
proof -
  have sp: "(if encrypted then oct_tlv sp else sp) = scoped_body sd"
    using assms(4) by (auto simp: encoded_layers)
  have len: "length (encoded_v3 h u (scoped_body sd)) < 9223372036854775808" using assms(5) by simp
  obtain off where d: "decode_v3_envelope (encoded_v3 h u (scoped_body sd)) = Inr \<lparr>env_msg_id = hd_msg_id h,
       env_max_size = hd_max_size h, env_security_flags = hd_security_flags h,
       env_security_model = hd_security_model h, env_usm = u, env_scoped_data = sd,
       env_raw_message = encoded_v3 h u (scoped_body sd),
       env_auth_params_offset = (if uf_auth_params u = [] then None else Some off)\<rparr>"
    and f: "find_auth_params_offset (encoded_v3 h u (scoped_body sd)) (length (uf_auth_params u))
       = Inr (if uf_auth_params u = [] then None else Some off)"
    using len assms(1-3) by (rule decode_encoded_v3)
  show ?thesis
    unfolding encode_v3_message_layers sp Let_def f rbind_Inr by (intro exI conjI, rule refl, rule d)
qed

theorem v3_message_round_trip_witness:
  "\<exists>m off env. encode_v3_message 7 1500 1 3 [0x80, 0, 0x1F, 0x88, 4] 2 30 [0x75] (replicate 24 0xAB) []
     [1, 2, 3] True = Inr (m, off) \<and> decode_v3_envelope m = Inr env
     \<and> env_scoped_data env = ScopedEncrypted [1, 2, 3]"
  using v3_message_round_trip[of sample_header sample_usm "ScopedEncrypted [1, 2, 3]" "[]" "[]" "[]" True "[1, 2, 3]"]
    sample_facts by (auto simp: sample_header_def sample_usm_def)

end
