(* ===== verification/Usm_Crypto.thy ===== *)
theory Usm_Crypto
  imports Prelude
begin

text \<open>
  Key material, authentication and privacy protocols and the password-to-key function
  (\<open>src/src/usm/keys.rs\<close>, \<open>auth.rs\<close>, \<open>privacy.rs\<close>, \<open>kdf.rs\<close>). The primitives come from
  third-party crates (\<open>hmac\<close>, \<open>sha2\<close>, \<open>aes\<close>, \<open>cfb-mode\<close>): they are the fields of the
  record \<open>crypto\<close>, an argument of every definition that uses them, and \<open>crypto_ok\<close>
  states what their documentation promises (output sizes, truncated comparison, and that
  decryption inverts encryption). No secrecy or unforgeability is assumed.
\<close>

section \<open>Keys\<close>

definition zeroize_slice :: "bytes \<Rightarrow> bytes" where
  "zeroize_slice bs = map (\<lambda>_. 0) bs"

datatype SecretKey = SecretKey (secret_key_bytes: bytes)

definition new_from_exposed_slice :: "bytes \<Rightarrow> SecretKey" where
  "new_from_exposed_slice bs = SecretKey bs"

definition secret_key_zeroed :: "nat \<Rightarrow> SecretKey" where
  "secret_key_zeroed len = SecretKey (replicate len 0)"

definition secret_key_len :: "SecretKey \<Rightarrow> nat" where
  "secret_key_len key = length (secret_key_bytes key)"

text \<open>\<open>truncate\<close> asserts that it does not grow the key (\<open>None\<close> is the panic); the tail is
  zeroised in place before the buffer is cut.\<close>

definition secret_key_truncate :: "nat \<Rightarrow> SecretKey \<Rightarrow> SecretKey option" where
  "secret_key_truncate new_len key =
     (if new_len \<le> secret_key_len key then
        let vec = take new_len (secret_key_bytes key) @ zeroize_slice (drop new_len (secret_key_bytes key))
        in Some (SecretKey (take new_len vec))
      else None)"

definition secret_key_drop :: "SecretKey \<Rightarrow> bytes" where
  "secret_key_drop key = zeroize_slice (secret_key_bytes key)"

section \<open>Protocols and primitives\<close>

datatype AuthProtocol = HmacSha256 | HmacSha512

datatype PrivProtocol = Aes128 | Aes256

fun auth_key_len :: "AuthProtocol \<Rightarrow> nat" where
  "auth_key_len HmacSha256 = 32"
| "auth_key_len HmacSha512 = 64"

fun mac_len :: "AuthProtocol \<Rightarrow> nat" where
  "mac_len HmacSha256 = 24"
| "mac_len HmacSha512 = 48"

fun priv_key_len :: "PrivProtocol \<Rightarrow> nat" where
  "priv_key_len Aes128 = 16"
| "priv_key_len Aes256 = 32"

text \<open>
  \<open>hmac_finalize p key msg\<close> and \<open>hmac_verify_truncated_left p key msg tag\<close> are
  \<open>Hmac::<H>::new_from_slice\<close> followed by \<open>update\<close> and the named call, \<open>None\<close> when the
  constructor rejects the key; \<open>digest p\<close> is the hash of the concatenated updates;
  \<open>cfb_encrypt\<close> and \<open>cfb_decrypt\<close> are \<open>new_from_slices\<close> and the in-place transformation.
\<close>

record crypto =
  hmac_finalize :: "AuthProtocol \<Rightarrow> bytes \<Rightarrow> bytes \<Rightarrow> bytes option"
  hmac_verify_truncated_left :: "AuthProtocol \<Rightarrow> bytes \<Rightarrow> bytes \<Rightarrow> bytes \<Rightarrow> bool option"
  digest :: "AuthProtocol \<Rightarrow> bytes \<Rightarrow> bytes"
  cfb_encrypt :: "PrivProtocol \<Rightarrow> bytes \<Rightarrow> bytes \<Rightarrow> bytes \<Rightarrow> bytes option"
  cfb_decrypt :: "PrivProtocol \<Rightarrow> bytes \<Rightarrow> bytes \<Rightarrow> bytes \<Rightarrow> bytes option"

definition crypto_ok :: "crypto \<Rightarrow> bool" where
  "crypto_ok cr \<longleftrightarrow>
     (\<forall>p key msg. \<exists>mac. hmac_finalize cr p key msg = Some mac \<and> length mac = auth_key_len p)
   \<and> (\<forall>p key msg tag mac. hmac_finalize cr p key msg = Some mac \<longrightarrow> tag \<noteq> [] \<longrightarrow> length tag \<le> length mac \<longrightarrow>
        hmac_verify_truncated_left cr p key msg tag = Some (take (length tag) mac = tag))
   \<and> (\<forall>p msg. length (digest cr p msg) = auth_key_len p)
   \<and> (\<forall>p key iv msg. length key = priv_key_len p \<longrightarrow> length iv = 16 \<longrightarrow>
        (\<exists>ct. cfb_encrypt cr p key iv msg = Some ct \<and> length ct = length msg
           \<and> cfb_decrypt cr p key iv ct = Some msg))"

section \<open>Authentication\<close>

datatype AuthError =
    AuthInvalidKeyLength nat nat
  | AuthInvalidMacLength nat nat
  | MacMismatch
  | HmacInitialisation

definition compute_mac :: "crypto \<Rightarrow> AuthProtocol \<Rightarrow> SecretKey \<Rightarrow> bytes \<Rightarrow> AuthError + bytes" where
  "compute_mac cr p key message =
     (if secret_key_len key \<noteq> auth_key_len p
      then Inl (AuthInvalidKeyLength (auth_key_len p) (secret_key_len key))
      else rbind (ok_or (hmac_finalize cr p (secret_key_bytes key) message) HmacInitialisation)
             (\<lambda>mac. Inr (take (mac_len p) mac)))"

definition verify_mac :: "crypto \<Rightarrow> AuthProtocol \<Rightarrow> SecretKey \<Rightarrow> bytes \<Rightarrow> bytes \<Rightarrow> AuthError + unit" where
  "verify_mac cr p key message expected_mac =
     (if secret_key_len key \<noteq> auth_key_len p
      then Inl (AuthInvalidKeyLength (auth_key_len p) (secret_key_len key))
      else if length expected_mac \<noteq> mac_len p
      then Inl (AuthInvalidMacLength (mac_len p) (length expected_mac))
      else rbind (ok_or (hmac_verify_truncated_left cr p (secret_key_bytes key) message expected_mac)
                        HmacInitialisation)
             (\<lambda>result. if result then Inr () else Inl MacMismatch))"

section \<open>Privacy\<close>

datatype PrivError =
    PrivInvalidKeyLength nat nat
  | CipherInitialisation

definition priv_encrypt :: "crypto \<Rightarrow> PrivProtocol \<Rightarrow> SecretKey \<Rightarrow> bytes \<Rightarrow> bytes \<Rightarrow> PrivError + bytes" where
  "priv_encrypt cr p key iv plaintext =
     (if secret_key_len key \<noteq> priv_key_len p
      then Inl (PrivInvalidKeyLength (priv_key_len p) (secret_key_len key))
      else ok_or (cfb_encrypt cr p (secret_key_bytes key) iv plaintext) CipherInitialisation)"

definition priv_decrypt :: "crypto \<Rightarrow> PrivProtocol \<Rightarrow> SecretKey \<Rightarrow> bytes \<Rightarrow> bytes \<Rightarrow> PrivError + bytes" where
  "priv_decrypt cr p key iv ciphertext =
     (if secret_key_len key \<noteq> priv_key_len p
      then Inl (PrivInvalidKeyLength (priv_key_len p) (secret_key_len key))
      else ok_or (cfb_decrypt cr p (secret_key_bytes key) iv ciphertext) CipherInitialisation)"

section \<open>Key derivation\<close>

definition KDF_STREAM_LEN :: nat where
  "KDF_STREAM_LEN = 1048576"

datatype KdfError = EmptyPassword | PasswordTooShort nat

definition kdf_stream :: "bytes \<Rightarrow> bytes" where
  "kdf_stream password =
     (let full_copies = KDF_STREAM_LEN div length password;
          remainder_len = KDF_STREAM_LEN mod length password;
          final_chunk = take remainder_len password
      in concat (replicate full_copies password) @ final_chunk)"

definition finalise_into_secret_key :: "crypto \<Rightarrow> AuthProtocol \<Rightarrow> bytes \<Rightarrow> SecretKey" where
  "finalise_into_secret_key cr p updates = SecretKey (digest cr p updates)"

definition localise_key :: "crypto \<Rightarrow> bytes \<Rightarrow> bytes \<Rightarrow> AuthProtocol \<Rightarrow> SecretKey" where
  "localise_key cr key engine_id p = finalise_into_secret_key cr p (key @ engine_id @ key)"

text \<open>\<open>None\<close> is the panic of the final truncation.\<close>

definition password_to_localised_key ::
  "crypto \<Rightarrow> bytes \<Rightarrow> bytes \<Rightarrow> AuthProtocol \<Rightarrow> (KdfError + SecretKey) option" where
  "password_to_localised_key cr password engine_id protocol =
     (if password = [] then Some (Inl EmptyPassword)
      else if length password < 8 then Some (Inl (PasswordTooShort (length password)))
      else
        let master_key = finalise_into_secret_key cr protocol (kdf_stream password);
            localised = localise_key cr (secret_key_bytes master_key) engine_id protocol
        in map_option Inr (secret_key_truncate (auth_key_len protocol) localised))"

section \<open>Lemmas\<close>

lemma crypto_ok_mac:
  assumes "crypto_ok cr"
  obtains mac where "hmac_finalize cr p key msg = Some mac" "length mac = auth_key_len p"
  using assms unfolding crypto_ok_def by blast

lemma mac_len_bounds: "0 < mac_len p" "mac_len p \<le> auth_key_len p" "mac_len p \<le> 48"
  by (cases p; simp)+

lemma compute_mac_length:
  assumes "crypto_ok cr" "compute_mac cr p key msg = Inr mac"
  shows "length mac = mac_len p"
proof -
  obtain full where "hmac_finalize cr p (secret_key_bytes key) msg = Some full" "length full = auth_key_len p"
    using assms(1) by (rule crypto_ok_mac)
  then show ?thesis using assms(2) mac_len_bounds(2)[of p]
    by (auto simp: compute_mac_def result_Inr_iffs split: if_splits)
qed

lemma compute_mac_total:
  assumes "crypto_ok cr" "secret_key_len key = auth_key_len p"
  obtains mac where "compute_mac cr p key msg = Inr mac"
proof -
  obtain full where "hmac_finalize cr p (secret_key_bytes key) msg = Some full"
    using assms(1) by (rule crypto_ok_mac)
  then show thesis using that assms(2) by (simp add: compute_mac_def)
qed

text \<open>Verification accepts exactly the MAC the sender computes.\<close>

lemma verify_mac_iff:
  assumes "crypto_ok cr"
  shows "verify_mac cr p key msg mac = Inr () \<longleftrightarrow> compute_mac cr p key msg = Inr mac"
proof -
  obtain full where f: "hmac_finalize cr p (secret_key_bytes key) msg = Some full" "length full = auth_key_len p"
    using assms by (rule crypto_ok_mac)
  have v: "hmac_verify_truncated_left cr p (secret_key_bytes key) msg mac = Some (take (length mac) full = mac)"
    if "length mac = mac_len p"
    using assms f that mac_len_bounds(1,2)[of p] unfolding crypto_ok_def by (metis length_greater_0_conv)
  show ?thesis
    using f v mac_len_bounds(2)[of p]
    by (auto simp: verify_mac_def compute_mac_def result_Inr_iffs)
qed

lemma priv_decrypt_encrypt:
  assumes "crypto_ok cr" "length iv = 16" "priv_encrypt cr p key iv plaintext = Inr ct"
  shows "priv_decrypt cr p key iv ct = Inr plaintext" "length ct = length plaintext"
proof -
  have k: "length (secret_key_bytes key) = priv_key_len p" "cfb_encrypt cr p (secret_key_bytes key) iv plaintext = Some ct"
    using assms(3) by (auto simp: priv_encrypt_def secret_key_len_def result_Inr_iffs split: if_splits)
  from assms(1) obtain ct' where ct': "cfb_encrypt cr p (secret_key_bytes key) iv plaintext = Some ct'"
    "length ct' = length plaintext" "cfb_decrypt cr p (secret_key_bytes key) iv ct' = Some plaintext"
    unfolding crypto_ok_def using k(1) assms(2) by blast
  then show "priv_decrypt cr p key iv ct = Inr plaintext" "length ct = length plaintext"
    using k by (simp_all add: priv_decrypt_def secret_key_len_def)
qed

lemma concat_replicate_nth:
  "i < n * length xs \<Longrightarrow> concat (replicate n xs) ! i = xs ! (i mod length xs)"
proof (induction n arbitrary: i)
  case (Suc n)
  show ?case
  proof (cases "i < length xs")
    case True
    then show ?thesis by (simp add: nth_append)
  next
    case False
    then have "concat (replicate n xs) ! (i - length xs) = xs ! ((i - length xs) mod length xs)"
      using Suc by auto
    then show ?thesis using False by (simp add: nth_append le_mod_geq not_less)
  qed
qed simp

lemma length_concat_replicate: "length (concat (replicate n xs)) = n * length xs"
  by (induction n) simp_all

lemma kdf_stream_spec:
  assumes "password \<noteq> []"
  shows "length (kdf_stream password) = KDF_STREAM_LEN"
    "i < KDF_STREAM_LEN \<Longrightarrow> kdf_stream password ! i = password ! (i mod length password)"
proof -
  let ?n = "length password" let ?q = "KDF_STREAM_LEN div ?n" let ?r = "KDF_STREAM_LEN mod ?n"
  have r: "?r < ?n" using assms by simp
  have s: "?q * ?n + ?r = KDF_STREAM_LEN" by simp
  have l: "length (take ?r password) = ?r" using r by simp
  show "length (kdf_stream password) = KDF_STREAM_LEN"
    unfolding kdf_stream_def Let_def length_append length_concat_replicate l using s .
  assume i: "i < KDF_STREAM_LEN"
  show "kdf_stream password ! i = password ! (i mod length password)"
  proof (cases "i < ?q * ?n")
    case True
    then show ?thesis by (simp add: kdf_stream_def Let_def nth_append length_concat_replicate concat_replicate_nth)
  next
    case False
    then have d: "i - ?q * ?n < ?r" using i s by linarith
    then have "i mod ?n = i - ?q * ?n"
      by (metis False le_add_diff_inverse less_trans mod_less mod_mult_self3 not_less r)
    then show ?thesis using False d
      by (simp add: kdf_stream_def Let_def nth_append length_concat_replicate)
  qed
qed

text \<open>The assumptions are consistent: a checksum in place of the hash and the identity in
  place of the cipher satisfy them. The witnesses use it.\<close>

definition checksum_crypto :: crypto where
  "checksum_crypto =
     \<lparr>hmac_finalize = (\<lambda>p key msg. Some (replicate (auth_key_len p) (foldl (+) 0 (key @ msg)))),
      hmac_verify_truncated_left = (\<lambda>p key msg tag.
        Some (take (length tag) (replicate (auth_key_len p) (foldl (+) 0 (key @ msg))) = tag)),
      digest = (\<lambda>p msg. replicate (auth_key_len p) (foldl (+) 0 msg)),
      cfb_encrypt = (\<lambda>p key iv msg. Some msg), cfb_decrypt = (\<lambda>p key iv msg. Some msg)\<rparr>"

lemma checksum_crypto_ok: "crypto_ok checksum_crypto"
  by (simp add: crypto_ok_def checksum_crypto_def)

section \<open>Properties\<close>

text \<open>With primitives that behave as documented, a received MAC is accepted exactly when it
  is the truncated MAC the key holder computes over the same bytes; in particular every MAC
  of another length, empty ones included, is rejected.\<close>

theorem verify_mac_exact:
  assumes "crypto_ok cr"
  shows "(verify_mac cr p key msg mac = Inr () \<longleftrightarrow> compute_mac cr p key msg = Inr mac)
    \<and> (length mac \<noteq> mac_len p \<longrightarrow> verify_mac cr p key msg mac \<noteq> Inr ())"
  using verify_mac_iff[OF assms, of p key msg mac] compute_mac_length[OF assms, of p key msg mac] by blast

theorem verify_mac_exact_witness:
  "verify_mac checksum_crypto HmacSha256 (SecretKey (replicate 32 0)) [1, 2] (replicate 24 3) = Inr ()
   \<and> compute_mac checksum_crypto HmacSha256 (SecretKey (replicate 32 0)) [1, 2] = Inr (replicate 24 3)"
proof -
  have z: "foldl (+) (0::u8) (replicate n 0) = 0" for n by (induction n) simp_all
  have c: "compute_mac checksum_crypto HmacSha256 (SecretKey (replicate 32 0)) [1, 2] = Inr (replicate 24 3)"
    by (simp add: compute_mac_def checksum_crypto_def secret_key_len_def z)
  then show ?thesis
    using verify_mac_exact[OF checksum_crypto_ok, of HmacSha256 "SecretKey (replicate 32 0)" "[1, 2]" "replicate 24 3"]
    by blast
qed

text \<open>C24: The password-to-key function fails exactly on passwords shorter than eight bytes;
  otherwise it hashes exactly \<open>2 ^ 20\<close> bytes, the cyclic repetition of the password, localises
  that digest around the engine ID, and returns a key of the protocol's length without
  panicking.\<close>

theorem password_to_key_correct:
  assumes "crypto_ok cr"
  shows "(length password < 8 \<longrightarrow> (\<exists>e. password_to_localised_key cr password engine_id p = Some (Inl e)))
    \<and> (8 \<le> length password \<longrightarrow>
        (\<exists>stream. length stream = 2 ^ 20 \<and> (\<forall>i < 2 ^ 20. stream ! i = password ! (i mod length password))
          \<and> password_to_localised_key cr password engine_id p
            = Some (Inr (SecretKey (digest cr p (digest cr p stream @ engine_id @ digest cr p stream))))
          \<and> length (digest cr p (digest cr p stream @ engine_id @ digest cr p stream)) = auth_key_len p))"
proof (intro conjI impI)
  assume "length password < 8"
  then show "\<exists>e. password_to_localised_key cr password engine_id p = Some (Inl e)"
    by (simp add: password_to_localised_key_def)
next
  assume len: "8 \<le> length password"
  then have ne: "password \<noteq> []" by auto
  have d: "length (digest cr p msg) = auth_key_len p" for msg
    using assms unfolding crypto_ok_def by blast
  have "password_to_localised_key cr password engine_id p = Some (Inr (SecretKey
      (digest cr p (digest cr p (kdf_stream password) @ engine_id @ digest cr p (kdf_stream password)))))"
    using len ne by (simp add: password_to_localised_key_def Let_def finalise_into_secret_key_def
        localise_key_def secret_key_truncate_def secret_key_len_def d not_less)
  then show "\<exists>stream. length stream = 2 ^ 20 \<and> (\<forall>i < 2 ^ 20. stream ! i = password ! (i mod length password))
      \<and> password_to_localised_key cr password engine_id p
        = Some (Inr (SecretKey (digest cr p (digest cr p stream @ engine_id @ digest cr p stream))))
      \<and> length (digest cr p (digest cr p stream @ engine_id @ digest cr p stream)) = auth_key_len p"
    using kdf_stream_spec[OF ne] d by (intro exI[of _ "kdf_stream password"]) (simp add: KDF_STREAM_LEN_def)
qed

theorem password_to_key_correct_witness:
  "\<exists>key. password_to_localised_key checksum_crypto (replicate 8 0x61) [1] HmacSha512 = Some (Inr key)
     \<and> secret_key_len key = 64"
  using password_to_key_correct[OF checksum_crypto_ok, of "replicate 8 0x61" "[1]" HmacSha512]
  by (auto simp: secret_key_len_def)

end
