(* ===== verification/Usm_User.thy ===== *)
theory Usm_User
  imports Usm_Crypto
begin

text \<open>
  USM users and the typed fields of a message header (\<open>src/src/usm/user.rs\<close>,
  \<open>security_params.rs\<close>, \<open>engine_id.rs\<close>): user names, message flags and security levels,
  users with their credentials and the two public constructors, authentication parameters,
  privacy salts and engine identifiers. A constructed user always has keys of the right
  length and never privacy without authentication.
\<close>

section \<open>Engine identifiers and security parameters\<close>

datatype EngineId = EngineId (engine_id_bytes: bytes)

datatype InvalidEngineIdLength = InvalidEngineIdLength nat

definition engine_id_try_from :: "bytes \<Rightarrow> InvalidEngineIdLength + EngineId" where
  "engine_id_try_from bs =
     (if length bs < 5 \<or> length bs > 32 then Inl (InvalidEngineIdLength (length bs)) else Inr (EngineId bs))"

datatype AuthenticationParams = AuthenticationParams (auth_params_bytes: bytes)

datatype EmptyAuthParams = EmptyAuthParams

definition auth_params_try_from :: "bytes \<Rightarrow> EmptyAuthParams + AuthenticationParams" where
  "auth_params_try_from bs = (if bs = [] then Inl EmptyAuthParams else Inr (AuthenticationParams bs))"

datatype PrivacySalt = PrivacySalt (privacy_salt_bytes: bytes)

datatype InvalidPrivSaltLength = InvalidPrivSaltLength nat

definition privacy_salt_try_from :: "bytes \<Rightarrow> InvalidPrivSaltLength + PrivacySalt" where
  "privacy_salt_try_from bs =
     (if length bs = 8 then Inr (PrivacySalt bs) else Inl (InvalidPrivSaltLength (length bs)))"

section \<open>User names\<close>

datatype InvalidUserNameError = UserNameEmpty | UserNameTooLong nat

datatype UserName = UserName (user_name_bytes: bytes)

definition UserName_MAX_LENGTH :: nat where
  "UserName_MAX_LENGTH = 32"

definition user_name_new :: "bytes \<Rightarrow> InvalidUserNameError + UserName" where
  "user_name_new name =
     (if name = [] then Inl UserNameEmpty
      else if length name > UserName_MAX_LENGTH then Inl (UserNameTooLong (length name))
      else Inr (UserName name))"

section \<open>Message flags and security levels\<close>

datatype SecurityLevel = NoAuthNoPriv | AuthNoPriv | AuthPriv

fun level_rank :: "SecurityLevel \<Rightarrow> nat" where
  "level_rank NoAuthNoPriv = 0"
| "level_rank AuthNoPriv = 1"
| "level_rank AuthPriv = 2"

instantiation SecurityLevel :: linorder
begin

definition less_eq_SecurityLevel :: "SecurityLevel \<Rightarrow> SecurityLevel \<Rightarrow> bool" where
  "less_eq_SecurityLevel a b \<longleftrightarrow> level_rank a \<le> level_rank b"

definition less_SecurityLevel :: "SecurityLevel \<Rightarrow> SecurityLevel \<Rightarrow> bool" where
  "less_SecurityLevel a b \<longleftrightarrow> level_rank a < level_rank b"

instance
proof
  fix a b :: SecurityLevel
  show "a \<le> b \<Longrightarrow> b \<le> a \<Longrightarrow> a = b"
    by (cases a; cases b) (simp_all add: less_eq_SecurityLevel_def)
qed (auto simp: less_eq_SecurityLevel_def less_SecurityLevel_def)

end

datatype MsgFlags = MsgFlags (msg_flags_u8: u8)

datatype InvalidMsgFlags = InvalidMsgFlags u8

definition AUTH_BIT :: u8 where "AUTH_BIT = 0x01"
definition PRIV_BIT :: u8 where "PRIV_BIT = 0x02"
definition REPORTABLE_BIT :: u8 where "REPORTABLE_BIT = 0x04"

definition is_auth :: "MsgFlags \<Rightarrow> bool" where
  "is_auth f \<longleftrightarrow> msg_flags_u8 f AND AUTH_BIT \<noteq> 0"

definition is_priv :: "MsgFlags \<Rightarrow> bool" where
  "is_priv f \<longleftrightarrow> msg_flags_u8 f AND PRIV_BIT \<noteq> 0"

definition is_reportable :: "MsgFlags \<Rightarrow> bool" where
  "is_reportable f \<longleftrightarrow> msg_flags_u8 f AND REPORTABLE_BIT \<noteq> 0"

definition security_level_try_from :: "u8 \<Rightarrow> InvalidMsgFlags + SecurityLevel" where
  "security_level_try_from flags =
     (case (is_auth (MsgFlags flags), is_priv (MsgFlags flags)) of
        (False, False) \<Rightarrow> Inr NoAuthNoPriv
      | (True, False) \<Rightarrow> Inr AuthNoPriv
      | (True, True) \<Rightarrow> Inr AuthPriv
      | (False, True) \<Rightarrow> Inl (InvalidMsgFlags flags))"

definition flags_security_level :: "MsgFlags \<Rightarrow> InvalidMsgFlags + SecurityLevel" where
  "flags_security_level f = security_level_try_from (msg_flags_u8 f)"

section \<open>Users\<close>

record AuthCredentials =
  ac_protocol :: AuthProtocol
  ac_key :: SecretKey

record PrivCredentials =
  pc_protocol :: PrivProtocol
  pc_key :: SecretKey

record UsmUser =
  usm_name :: UserName
  usm_auth_credentials :: "AuthCredentials option"
  usm_priv_credentials :: "PrivCredentials option"

definition security_level_requires_user :: "UsmUser option \<Rightarrow> SecurityLevel \<Rightarrow> bool" where
  "security_level_requires_user usm_user minimum_security_level \<longleftrightarrow>
     usm_user = None \<and> minimum_security_level > NoAuthNoPriv"

text \<open>The last case is a failed \<open>debug_assert\<close> in a debug build; the release build returns the
  lowest level.\<close>

definition user_security_level :: "UsmUser \<Rightarrow> SecurityLevel" where
  "user_security_level u =
     (case (usm_auth_credentials u, usm_priv_credentials u) of
        (Some _, Some _) \<Rightarrow> AuthPriv
      | (Some _, None) \<Rightarrow> AuthNoPriv
      | (None, None) \<Rightarrow> NoAuthNoPriv
      | (None, Some _) \<Rightarrow> NoAuthNoPriv)"

definition user_auth_protocol :: "UsmUser \<Rightarrow> AuthProtocol option" where
  "user_auth_protocol u = map_option ac_protocol (usm_auth_credentials u)"

definition user_auth_key :: "UsmUser \<Rightarrow> SecretKey option" where
  "user_auth_key u = map_option ac_key (usm_auth_credentials u)"

definition user_priv_protocol :: "UsmUser \<Rightarrow> PrivProtocol option" where
  "user_priv_protocol u = map_option pc_protocol (usm_priv_credentials u)"

definition user_priv_key :: "UsmUser \<Rightarrow> SecretKey option" where
  "user_priv_key u = map_option pc_key (usm_priv_credentials u)"

datatype InvalidKeyLength = InvalidKeyLength nat nat

definition validate_auth_key_length :: "AuthProtocol \<Rightarrow> SecretKey \<Rightarrow> InvalidKeyLength + unit" where
  "validate_auth_key_length auth_protocol auth_key =
     (let expected = auth_key_len auth_protocol
      in if secret_key_len auth_key \<noteq> expected
         then Inl (InvalidKeyLength expected (secret_key_len auth_key)) else Inr ())"

record AuthNoPrivUser =
  anp_name :: UserName
  anp_auth_protocol :: AuthProtocol
  anp_auth_key :: SecretKey

definition auth_no_priv_user_new ::
  "UserName \<Rightarrow> AuthProtocol \<Rightarrow> SecretKey \<Rightarrow> InvalidKeyLength + AuthNoPrivUser" where
  "auth_no_priv_user_new name auth_protocol auth_key =
     rbind (validate_auth_key_length auth_protocol auth_key)
       (\<lambda>_. Inr \<lparr>anp_name = name, anp_auth_protocol = auth_protocol, anp_auth_key = auth_key\<rparr>)"

definition usm_user_from_auth_no_priv :: "AuthNoPrivUser \<Rightarrow> UsmUser" where
  "usm_user_from_auth_no_priv u =
     \<lparr>usm_name = anp_name u,
      usm_auth_credentials = Some \<lparr>ac_protocol = anp_auth_protocol u, ac_key = anp_auth_key u\<rparr>,
      usm_priv_credentials = None\<rparr>"

record AuthPrivUser =
  ap_name :: UserName
  ap_auth_protocol :: AuthProtocol
  ap_auth_key :: SecretKey
  ap_priv_protocol :: PrivProtocol

definition auth_priv_user_new ::
  "UserName \<Rightarrow> AuthProtocol \<Rightarrow> SecretKey \<Rightarrow> PrivProtocol \<Rightarrow> InvalidKeyLength + AuthPrivUser" where
  "auth_priv_user_new name auth_protocol auth_key priv_protocol =
     rbind (validate_auth_key_length auth_protocol auth_key)
       (\<lambda>_. Inr \<lparr>ap_name = name, ap_auth_protocol = auth_protocol, ap_auth_key = auth_key,
                 ap_priv_protocol = priv_protocol\<rparr>)"

text \<open>\<open>None\<close> is the panic of the \<open>expect\<close>.\<close>

definition usm_user_from_auth_priv :: "AuthPrivUser \<Rightarrow> UsmUser option" where
  "usm_user_from_auth_priv u =
     map_option (\<lambda>priv_key_bytes.
       \<lparr>usm_name = ap_name u,
        usm_auth_credentials = Some \<lparr>ac_protocol = ap_auth_protocol u, ac_key = ap_auth_key u\<rparr>,
        usm_priv_credentials = Some \<lparr>pc_protocol = ap_priv_protocol u,
                                     pc_key = new_from_exposed_slice priv_key_bytes\<rparr>\<rparr>)
       (slice_get (secret_key_bytes (ap_auth_key u)) 0 (priv_key_len (ap_priv_protocol u)))"

section \<open>Lemmas\<close>

definition usm_user_wf :: "UsmUser \<Rightarrow> bool" where
  "usm_user_wf u \<longleftrightarrow>
     (usm_auth_credentials u = None \<longrightarrow> usm_priv_credentials u = None)
   \<and> (\<forall>a. usm_auth_credentials u = Some a \<longrightarrow> secret_key_len (ac_key a) = auth_key_len (ac_protocol a))
   \<and> (\<forall>p. usm_priv_credentials u = Some p \<longrightarrow> secret_key_len (pc_key p) = priv_key_len (pc_protocol p))"

lemma flags_level_cases:
  "flags_security_level f = Inr NoAuthNoPriv \<longleftrightarrow> \<not> is_auth f \<and> \<not> is_priv f"
  "flags_security_level f = Inr AuthNoPriv \<longleftrightarrow> is_auth f \<and> \<not> is_priv f"
  "flags_security_level f = Inr AuthPriv \<longleftrightarrow> is_auth f \<and> is_priv f"
  "(\<exists>e. flags_security_level f = Inl e) \<longleftrightarrow> \<not> is_auth f \<and> is_priv f"
  by (cases f; auto simp: flags_security_level_def security_level_try_from_def split: bool.splits)+

lemma key_len_priv_auth: "priv_key_len q \<le> auth_key_len p"
  by (cases p; cases q; simp)

lemma auth_no_priv_user_wf:
  assumes "auth_no_priv_user_new name p key = Inr u"
  shows "usm_user_wf (usm_user_from_auth_no_priv u)"
    "user_security_level (usm_user_from_auth_no_priv u) = AuthNoPriv"
  using assms
  by (auto simp: auth_no_priv_user_new_def validate_auth_key_length_def usm_user_from_auth_no_priv_def
      usm_user_wf_def user_security_level_def result_Inr_iffs Let_def split: if_splits)

lemma auth_priv_user_wf:
  assumes "auth_priv_user_new name p key q = Inr u"
  obtains user where "usm_user_from_auth_priv u = Some user" "usm_user_wf user"
    "user_security_level user = AuthPriv"
    "user_priv_key user = Some (SecretKey (take (priv_key_len q) (secret_key_bytes key)))"
proof -
  have u: "ap_auth_protocol u = p" "ap_auth_key u = key" "ap_priv_protocol u = q"
    and len: "length (secret_key_bytes key) = auth_key_len p"
    using assms by (auto simp: auth_priv_user_new_def validate_auth_key_length_def secret_key_len_def
        result_Inr_iffs Let_def split: if_splits)
  have "slice_get (secret_key_bytes key) 0 (priv_key_len q) = Some (take (priv_key_len q) (secret_key_bytes key))"
    using key_len_priv_auth[of q p] len by (simp add: slice_get_def)
  then show thesis
    using that u len key_len_priv_auth[of q p]
    by (simp add: usm_user_from_auth_priv_def usm_user_wf_def user_security_level_def user_priv_key_def
        secret_key_len_def new_from_exposed_slice_def)
qed

section \<open>Properties\<close>

text \<open>C25: Both public ways of building a user give one whose keys have the lengths its protocols
  require, at exactly the security level of the constructor; the conversion of an authPriv
  user never panics, and its privacy key is a prefix of the authentication key whatever the
  protocols.\<close>

theorem constructed_users_wf:
  "(\<forall>u. auth_no_priv_user_new name p key = Inr u \<longrightarrow>
      usm_user_wf (usm_user_from_auth_no_priv u)
      \<and> user_security_level (usm_user_from_auth_no_priv u) = AuthNoPriv)
   \<and> (\<forall>u. auth_priv_user_new name p key q = Inr u \<longrightarrow>
      (\<exists>user. usm_user_from_auth_priv u = Some user \<and> usm_user_wf user
        \<and> user_security_level user = AuthPriv
        \<and> user_priv_key user = Some (SecretKey (take (priv_key_len q) (secret_key_bytes key)))))"
  using auth_no_priv_user_wf by (metis auth_priv_user_wf)

theorem constructed_users_wf_witness:
  "\<exists>u user. auth_priv_user_new (UserName [0x75]) HmacSha512 (SecretKey (replicate 64 7)) Aes256 = Inr u
     \<and> usm_user_from_auth_priv u = Some user \<and> usm_user_wf user
     \<and> user_priv_key user = Some (SecretKey (replicate 32 7))"
proof -
  obtain u where u: "auth_priv_user_new (UserName [0x75]) HmacSha512 (SecretKey (replicate 64 7)) Aes256 = Inr u"
    by (simp add: auth_priv_user_new_def validate_auth_key_length_def secret_key_len_def Let_def)
  with constructed_users_wf[of "UserName [0x75]" HmacSha512 "SecretKey (replicate 64 7)" Aes256]
  show ?thesis by auto
qed

end
