(* ===== verification/Codec.thy ===== *)
theory Codec
  imports Smi Ber_Varbind Ber_Pdu Ber_Snmp Usm_User
begin

text \<open>
  The codec between wire bytes and PDU types (\<open>src/src/codec/pdu/decode.rs\<close> and
  \<open>encode.rs\<close>): inbound PDUs, SNMPv3 messages and scoped PDUs, and the outbound responses,
  traps and reports with their encryption and authentication. The privacy salt counter of the
  process is passed explicitly, and its random seed is an argument.
\<close>

section \<open>Decoding\<close>

text \<open>A decode error with its kind and the BER error its message renders, if any.\<close>

datatype DecodeError = DecodeError (decode_error_kind: DecodeErrorKind) (decode_error_source: "BerError option")

definition decode_varbind_list_to_varbinds :: "bytes \<Rightarrow> DecodeError + Varbind list" where
  "decode_varbind_list_to_varbinds raw_varbind_list =
     rbind (map_err (\<lambda>e. DecodeError KindBer (Some e)) (decode_varbind_list raw_varbind_list))
       (\<lambda>decoded_varbinds. rcollect (\<lambda>decoded.
          rbind (map_err (\<lambda>e. DecodeError KindBer (Some e)) (decode_varbind_value_to_value (dvb_value decoded)))
            (\<lambda>value. Inr \<lparr>vb_oid = dvb_name decoded, vb_value = value\<rparr>)) decoded_varbinds)"

definition unwrap_or_u32 :: "u32 \<Rightarrow> i32 \<Rightarrow> u32" where
  "unwrap_or_u32 fallback v = (case u32_try_from_i32 v of Some u \<Rightarrow> u | None \<Rightarrow> fallback)"

fun decoded_pdu_to_inbound :: "DecodedPdu \<Rightarrow> DecodeError + InboundPdu" where
  "decoded_pdu_to_inbound (Standard tag request_id raw_varbind_list) =
     (if tag = TAG_GET_REQUEST then
        rbind (decode_varbind_list_to_varbinds raw_varbind_list) (\<lambda>varbinds.
          Inr (PduGetRequest \<lparr>get_request_id = RequestId request_id, get_varbinds = varbinds\<rparr>))
      else if tag = TAG_GET_NEXT_REQUEST then
        rbind (decode_varbind_list_to_varbinds raw_varbind_list) (\<lambda>varbinds.
          Inr (PduGetNextRequest \<lparr>getnext_request_id = RequestId request_id, getnext_varbinds = varbinds\<rparr>))
      else if tag = TAG_SET_REQUEST then
        rbind (decode_varbind_list_to_varbinds raw_varbind_list) (\<lambda>varbinds.
          Inr (PduSetRequest \<lparr>set_request_id = RequestId request_id, set_varbinds = varbinds\<rparr>))
      else Inl (DecodeError KindUnsupportedPduType None))"
| "decoded_pdu_to_inbound (Bulk request_id non_repeaters max_repetitions raw_varbind_list) =
     (let non_repeaters_u32 = unwrap_or_u32 0 non_repeaters;
          max_repetitions_u32 = unwrap_or_u32 0 max_repetitions
      in rbind (decode_varbind_list_to_varbinds raw_varbind_list) (\<lambda>varbinds.
          Inr (PduGetBulkRequest \<lparr>bulk_request_id = RequestId request_id,
                 bulk_non_repeaters = non_repeaters_u32, bulk_max_repetitions = max_repetitions_u32,
                 bulk_varbinds = varbinds\<rparr>)))"

definition decode_pdu :: "bytes \<Rightarrow> DecodeError + InboundPdu" where
  "decode_pdu bytes =
     rbind (map_err (\<lambda>e. DecodeError KindBer (Some e)) (ber_decode_pdu bytes)) decoded_pdu_to_inbound"

record UsmSecurityFields =
  usf_auth_engine_id :: bytes
  usf_auth_engine_boots :: u32
  usf_auth_engine_time :: u32
  usf_security_flags :: MsgFlags
  usf_auth_params :: "AuthenticationParams option"
  usf_priv_params :: "PrivacySalt option"

record V3InboundMessage =
  v3_msg_id :: MessageId
  v3_max_size :: i32
  v3_security_model :: SecurityModel
  v3_engine_id :: bytes
  v3_context_name :: bytes
  v3_user_name :: bytes
  v3_scoped_data :: V3ScopedData
  v3_usm :: UsmSecurityFields
  v3_raw_message :: bytes
  v3_auth_params_offset :: "nat option"

definition decode_v3_message :: "bytes \<Rightarrow> DecodeError + V3InboundMessage" where
  "decode_v3_message bytes =
     rbind (map_err (\<lambda>e. if is_wrong_version e then DecodeError KindWrongVersion (Some e)
                         else DecodeError KindBer (Some e)) (decode_v3_envelope bytes)) (\<lambda>envelope.
     let msg_id = MessageId (env_msg_id envelope);
         security_model = SecurityModel (env_security_model envelope);
         auth_params_offset = env_auth_params_offset envelope;
         security_flags = MsgFlags (env_security_flags envelope);
         usm = env_usm envelope;
         auth_engine_boots = unwrap_or_u32 0xFFFFFFFF (uf_engine_boots usm);
         auth_engine_time = unwrap_or_u32 0xFFFFFFFF (uf_engine_time usm);
         usm_fields = \<lparr>usf_auth_engine_id = uf_engine_id usm,
                       usf_auth_engine_boots = auth_engine_boots,
                       usf_auth_engine_time = auth_engine_time,
                       usf_security_flags = security_flags,
                       usf_auth_params = res_ok (auth_params_try_from (uf_auth_params usm)),
                       usf_priv_params = res_ok (privacy_salt_try_from (uf_priv_params usm))\<rparr>
     in rbind (case env_scoped_data envelope of
                 ScopedPlaintext context_engine_id context_name raw_pdu \<Rightarrow>
                   rbind (map_err (\<lambda>e. DecodeError KindBer (Some e)) (ber_decode_pdu raw_pdu)) (\<lambda>decoded_pdu.
                   rbind (decoded_pdu_to_inbound decoded_pdu) (\<lambda>pdu.
                   Inr (context_engine_id, context_name, Plaintext pdu)))
               | ScopedEncrypted ciphertext \<Rightarrow> Inr (uf_engine_id usm, [], Encrypted ciphertext))
          (\<lambda>(engine_id, context_name, scoped_data).
             Inr \<lparr>v3_msg_id = msg_id, v3_max_size = env_max_size envelope, v3_security_model = security_model,
                  v3_engine_id = engine_id, v3_context_name = context_name,
                  v3_user_name = uf_user_name usm, v3_scoped_data = scoped_data, v3_usm = usm_fields,
                  v3_raw_message = bytes, v3_auth_params_offset = auth_params_offset\<rparr>))"

definition decode_scoped_pdu :: "bytes \<Rightarrow> DecodeError + DecodedScopedPdu" where
  "decode_scoped_pdu bytes =
     rbind (map_err (\<lambda>e. DecodeError KindBer (Some e)) (ber_decode_scoped_pdu bytes)) (\<lambda>scoped.
     rbind (map_err (\<lambda>e. DecodeError KindBer (Some e)) (ber_decode_pdu (dsf_raw_pdu scoped))) (\<lambda>decoded.
     rbind (decoded_pdu_to_inbound decoded) (\<lambda>pdu.
     Inr \<lparr>dsp_context_engine_id = dsf_context_engine_id scoped,
          dsp_context_name = dsf_context_name scoped, dsp_pdu = pdu\<rparr>)))"

section \<open>Encoding\<close>

datatype EncodeError =
    EncVarbind BerError
  | EncErrorIndex u32
  | EncPdu BerError
  | EncBoots u32
  | EncTime u32
  | EncPrivWithoutAuth
  | EncEncryption PrivError
  | EncMessage BerError
  | EncOffsetMissing
  | EncHmac AuthError
  | EncRangeOverflow
  | EncRangeExceeds
  | EncPanic

definition encode_varbinds :: "Varbind list \<Rightarrow> EncodeError + bytes" where
  "encode_varbinds varbinds =
     rbind (rcollect (\<lambda>vb. rbind (map_err EncVarbind (encode_varbind_value (vb_value vb)))
              (\<lambda>encoded_value. Inr (encode_varbind (vb_oid vb) encoded_value))) varbinds)
       (\<lambda>encoded_varbinds. Inr (encode_varbind_list encoded_varbinds))"

definition encode_response_pdu :: "GetResponse \<Rightarrow> EncodeError + bytes" where
  "encode_response_pdu pdu =
     rbind (encode_varbinds (resp_varbinds pdu)) (\<lambda>raw_varbind_list.
     let error_status = error_status_i32 (resp_error_status pdu)
     in rbind (ok_or (i32_try_from_u32 (resp_error_index pdu)) (EncErrorIndex (resp_error_index pdu)))
          (\<lambda>error_index. map_err EncPdu
             (encode_pdu TAG_RESPONSE (request_id_i32 (resp_request_id pdu)) error_status error_index
                raw_varbind_list)))"

definition encode_response :: "GetResponse \<Rightarrow> EncodeError + bytes" where
  "encode_response pdu = encode_response_pdu pdu"

text \<open>The salt counter: \<open>None\<close> before the one-time initialisation. \<open>seed\<close> is the value of
  \<open>random_u64\<close>.\<close>

type_synonym salt_state = "u64 option"

definition next_privacy_salt :: "u64 \<Rightarrow> salt_state \<Rightarrow> bytes \<times> salt_state" where
  "next_privacy_salt seed st =
     (let counter = (case st of None \<Rightarrow> seed OR 1 | Some c \<Rightarrow> c)
      in (be_bytes 8 (unat counter), Some (counter + 1)))"

definition aes_iv :: "u32 \<Rightarrow> u32 \<Rightarrow> bytes \<Rightarrow> bytes" where
  "aes_iv engine_boots engine_time salt = be_bytes 4 (unat engine_boots) @ be_bytes 4 (unat engine_time) @ salt"

definition envelope_flags :: "bool \<Rightarrow> bool \<Rightarrow> EncodeError + u8" where
  "envelope_flags has_auth has_privacy =
     (case (has_auth, has_privacy) of
        (True, True) \<Rightarrow> Inr 0x03
      | (True, False) \<Rightarrow> Inr 0x01
      | (False, False) \<Rightarrow> Inr 0x00
      | (False, True) \<Rightarrow> Inl EncPrivWithoutAuth)"

definition seal_scoped_pdu ::
  "crypto \<Rightarrow> u64 \<Rightarrow> u32 \<Rightarrow> u32 \<Rightarrow> (PrivProtocol \<times> SecretKey) option \<Rightarrow> bytes \<Rightarrow> salt_state
    \<Rightarrow> (EncodeError + bytes \<times> bytes \<times> bool) \<times> salt_state" where
  "seal_scoped_pdu cr seed engine_boots engine_time privacy scoped_pdu_bytes st =
     (case privacy of
        Some (priv_protocol, priv_key) \<Rightarrow>
          (let (salt, st) = next_privacy_salt seed st;
               iv = aes_iv engine_boots engine_time salt
           in (rbind (map_err EncEncryption (priv_encrypt cr priv_protocol priv_key iv scoped_pdu_bytes))
                 (\<lambda>ciphertext. Inr (ciphertext, salt, True)), st))
      | None \<Rightarrow> (Inr (scoped_pdu_bytes, [], False), st))"

text \<open>Writing the MAC over the zero placeholder; \<open>copy_from_slice\<close> panics on a length mismatch.\<close>

definition sign_message ::
  "crypto \<Rightarrow> (AuthProtocol \<times> SecretKey) option \<Rightarrow> nat \<Rightarrow> nat option \<Rightarrow> bytes \<Rightarrow> EncodeError + bytes" where
  "sign_message cr auth mac_length auth_params_offset encoded_message =
     (case auth of
        None \<Rightarrow> Inr encoded_message
      | Some (auth_protocol, auth_key) \<Rightarrow>
          rbind (ok_or auth_params_offset EncOffsetMissing) (\<lambda>offset.
          rbind (map_err EncHmac (compute_mac cr auth_protocol auth_key encoded_message)) (\<lambda>mac.
          rbind (ok_or (usize_checked_add offset mac_length) EncRangeOverflow) (\<lambda>end_pos.
          rbind (ok_or (slice_get encoded_message offset end_pos) EncRangeExceeds) (\<lambda>placeholder.
          if length placeholder = length mac then Inr (slice_set encoded_message offset mac)
          else Inl EncPanic)))))"

definition encode_v3_envelope ::
  "crypto \<Rightarrow> u64 \<Rightarrow> MessageId \<Rightarrow> bytes \<Rightarrow> bytes \<Rightarrow> bytes \<Rightarrow> u32 \<Rightarrow> u32 \<Rightarrow> (AuthProtocol \<times> SecretKey) option
    \<Rightarrow> (PrivProtocol \<times> SecretKey) option \<Rightarrow> bytes \<Rightarrow> salt_state \<Rightarrow> (EncodeError + bytes) \<times> salt_state" where
  "encode_v3_envelope cr seed msg_id engine_id user_name context_name engine_boots engine_time auth privacy
     raw_pdu_bytes st =
     (case rbind (ok_or (i32_try_from_u32 engine_boots) (EncBoots engine_boots)) (\<lambda>ber_boots.
           rbind (ok_or (i32_try_from_u32 engine_time) (EncTime engine_time)) (\<lambda>ber_time.
           rbind (envelope_flags (auth \<noteq> None) (privacy \<noteq> None)) (\<lambda>flags_byte.
           Inr (ber_boots, ber_time, flags_byte)))) of
        Inl e \<Rightarrow> (Inl e, st)
      | Inr (ber_boots, ber_time, flags_byte) \<Rightarrow>
          let scoped_pdu_bytes = encode_scoped_pdu engine_id context_name raw_pdu_bytes;
              auth_params = (case auth of Some (proto, _) \<Rightarrow> replicate (mac_len proto) 0 | None \<Rightarrow> []);
              (sealed, st) = seal_scoped_pdu cr seed engine_boots engine_time privacy scoped_pdu_bytes st
          in (rbind sealed (\<lambda>(scoped_or_ciphertext, priv_params, encrypted).
              rbind (map_err EncMessage
                (encode_v3_message (message_id_i32 msg_id) MSG_MAX_SIZE_UDP flags_byte 3 engine_id ber_boots
                   ber_time user_name auth_params priv_params scoped_or_ciphertext encrypted))
                (\<lambda>(encoded_message, auth_params_offset).
                   sign_message cr auth (length auth_params) auth_params_offset encoded_message)), st))"

definition encode_v3_response ::
  "crypto \<Rightarrow> u64 \<Rightarrow> MessageId \<Rightarrow> bytes \<Rightarrow> bytes \<Rightarrow> bytes \<Rightarrow> u32 \<Rightarrow> u32 \<Rightarrow> (AuthProtocol \<times> SecretKey) option
    \<Rightarrow> (PrivProtocol \<times> SecretKey) option \<Rightarrow> GetResponse \<Rightarrow> salt_state \<Rightarrow> (EncodeError + bytes) \<times> salt_state" where
  "encode_v3_response cr seed msg_id engine_id user_name context_name engine_boots engine_time auth privacy pdu st =
     (case encode_response_pdu pdu of
        Inl e \<Rightarrow> (Inl e, st)
      | Inr raw_pdu_bytes \<Rightarrow> encode_v3_envelope cr seed msg_id engine_id user_name context_name engine_boots
          engine_time auth privacy raw_pdu_bytes st)"

definition encode_trap_pdu :: "WireTrapPdu \<Rightarrow> EncodeError + bytes" where
  "encode_trap_pdu pdu =
     rbind (encode_varbinds (trap_varbinds pdu)) (\<lambda>raw_varbind_list.
     map_err EncPdu (encode_pdu TAG_TRAP (request_id_i32 (trap_request_id pdu)) 0 0 raw_varbind_list))"

definition encode_v3_trap ::
  "crypto \<Rightarrow> u64 \<Rightarrow> MessageId \<Rightarrow> bytes \<Rightarrow> bytes \<Rightarrow> bytes \<Rightarrow> u32 \<Rightarrow> u32 \<Rightarrow> (AuthProtocol \<times> SecretKey) option
    \<Rightarrow> (PrivProtocol \<times> SecretKey) option \<Rightarrow> WireTrapPdu \<Rightarrow> salt_state \<Rightarrow> (EncodeError + bytes) \<times> salt_state" where
  "encode_v3_trap cr seed msg_id engine_id user_name context_name engine_boots engine_time auth privacy pdu st =
     (case encode_trap_pdu pdu of
        Inl e \<Rightarrow> (Inl e, st)
      | Inr raw_pdu_bytes \<Rightarrow> encode_v3_envelope cr seed msg_id engine_id user_name context_name engine_boots
          engine_time auth privacy raw_pdu_bytes st)"

definition encode_v3_report ::
  "crypto \<Rightarrow> u64 \<Rightarrow> MessageId \<Rightarrow> bytes \<Rightarrow> u32 \<Rightarrow> u32 \<Rightarrow> Oid \<Rightarrow> u32 \<Rightarrow> salt_state
    \<Rightarrow> (EncodeError + bytes) \<times> salt_state" where
  "encode_v3_report cr seed msg_id engine_id engine_boots engine_time counter_oid counter_value st =
     (let varbind = \<lparr>vb_oid = counter_oid, vb_value = Value (Counter32 counter_value)\<rparr>
      in case rbind (encode_varbinds [varbind]) (\<lambda>raw_varbind_list.
                map_err EncPdu (encode_pdu TAG_REPORT (message_id_i32 msg_id) 0 0 raw_varbind_list)) of
           Inl e \<Rightarrow> (Inl e, st)
         | Inr raw_pdu_bytes \<Rightarrow>
             encode_v3_envelope cr seed msg_id engine_id [] [] engine_boots engine_time None None raw_pdu_bytes st)"

definition encode_trap :: "WireTrapPdu \<Rightarrow> EncodeError + bytes" where
  "encode_trap pdu =
     rbind (encode_trap_pdu pdu) (\<lambda>raw_pdu_bytes. Inr (encode_v2c_message [] raw_pdu_bytes))"

section \<open>Varbind lists and PDUs\<close>

lemma encode_varbinds_wire: "encode_varbinds vbs = Inr (encode_varbind_list (map wire_varbind vbs))"
proof -
  have "rcollect (\<lambda>vb. rbind (map_err EncVarbind (encode_varbind_value (vb_value vb)))
      (\<lambda>encoded_value. Inr (encode_varbind (vb_oid vb) encoded_value))) vbs = Inr (map wire_varbind vbs)"
    by (rule rcollect_Inr) (simp add: encode_varbind_value_tlv wire_varbind_def)
  then show ?thesis by (simp add: encode_varbinds_def)
qed

lemma decode_encoded_varbinds:
  assumes "encode_varbinds vbs = Inr raw" "length raw < 9223372036854775808"
  shows "decode_varbind_list_to_varbinds raw = Inr vbs"
proof -
  have raw: "raw = encode_varbind_list (map wire_varbind vbs)" using assms(1) by (simp add: encode_varbinds_wire)
  have "rcollect (\<lambda>decoded. rbind (map_err (\<lambda>e. DecodeError KindBer (Some e))
      (decode_varbind_value_to_value (dvb_value decoded))) (\<lambda>value. Inr \<lparr>vb_oid = dvb_name decoded, vb_value = value\<rparr>))
      (map wire_decoded vbs) = Inr vbs"
    by (simp add: rcollect_eq_Inr wire_decoded_def)
  then show ?thesis using decode_varbind_list_encoded[of vbs] assms(2)
    by (simp add: decode_varbind_list_to_varbinds_def raw)
qed

lemma length_pdu_le: "length (tlv tag (pdu_body a b c raw)) \<le> length raw + 52"
  using length_tlv_le[of tag "pdu_body a b c raw"] length_i32_tlv_le[of a] length_i32_tlv_le[of b]
    length_i32_tlv_le[of c] by (simp add: pdu_body_def)

lemma decode_pdu_encoded:
  assumes "encode_varbinds vbs = Inr raw" "length raw + 60 < 9223372036854775808"
  shows "tag \<in> set VALID_STANDARD_PDU_TAGS \<Longrightarrow>
      decode_pdu (tlv tag (pdu_body a b c raw)) = decoded_pdu_to_inbound (Standard tag a raw)"
    and "decode_pdu (tlv TAG_GET_BULK_REQUEST (pdu_body a b c raw)) = decoded_pdu_to_inbound (Bulk a b c raw)"
proof -
  obtain v where v: "raw = tlv TAG_SEQUENCE v"
    using assms(1) by (auto simp: encode_varbinds_wire encode_varbind_list_tlv)
  have len: "length (tlv tag' (pdu_body a b c (tlv TAG_SEQUENCE v))) < 9223372036854775808" for tag'
    using length_pdu_le[of tag' a b c raw] assms(2) v by simp
  show "tag \<in> set VALID_STANDARD_PDU_TAGS \<Longrightarrow>
      decode_pdu (tlv tag (pdu_body a b c raw)) = decoded_pdu_to_inbound (Standard tag a raw)"
    by (simp add: decode_pdu_def v ber_decode_pdu_encoded(1)[OF len])
  show "decode_pdu (tlv TAG_GET_BULK_REQUEST (pdu_body a b c raw)) = decoded_pdu_to_inbound (Bulk a b c raw)"
    by (simp add: decode_pdu_def v ber_decode_pdu_encoded(2)[OF len])
qed

section \<open>Salts\<close>

text \<open>The salts of \<open>n\<close> successive encryptions, each with its own boots and time.\<close>

fun salt_run :: "u64 \<Rightarrow> nat \<Rightarrow> salt_state \<Rightarrow> bytes list" where
  "salt_run seed 0 st = []"
| "salt_run seed (Suc n) st = (let (salt, st') = next_privacy_salt seed st in salt # salt_run seed n st')"

definition salt_start :: "u64 \<Rightarrow> salt_state \<Rightarrow> u64" where
  "salt_start seed st = (case st of None \<Rightarrow> seed OR 1 | Some c \<Rightarrow> c)"

lemma salt_run_nth:
  "i < n \<Longrightarrow> salt_run seed n st ! i = be_bytes 8 (unat (salt_start seed st + word_of_nat i))"
proof (induction n arbitrary: i st)
  case (Suc n)
  have s: "salt_start seed (Some (salt_start seed st + 1)) = salt_start seed st + 1" by (simp add: salt_start_def)
  have r: "salt_run seed (Suc n) st = be_bytes 8 (unat (salt_start seed st))
      # salt_run seed n (Some (salt_start seed st + 1))"
    by (simp add: next_privacy_salt_def salt_start_def Let_def)
  show ?case
  proof (cases i)
    case 0
    then show ?thesis by (simp add: r del: salt_run.simps)
  next
    case (Suc j)
    then show ?thesis using Suc.prems Suc.IH[of j "Some (salt_start seed st + 1)"]
      by (simp add: r s add.assoc del: salt_run.simps)
  qed
qed simp

lemma length_salt_run [simp]: "length (salt_run seed n st) = n"
  by (induction n arbitrary: st) (simp_all add: next_privacy_salt_def Let_def)

lemma be_bytes8_inj: "be_bytes 8 (unat (a::u64)) = be_bytes 8 (unat b) \<longleftrightarrow> a = b"
proof
  assume "be_bytes 8 (unat a) = be_bytes 8 (unat b)"
  then have "be_nat (be_bytes 8 (unat a)) = be_nat (be_bytes 8 (unat b))" by simp
  then have "unat a = unat b" using unat_u64_less[of a] unat_u64_less[of b]
    by (simp add: be_nat_be_bytes)
  then show "a = b" by (simp add: word_unat_eq_iff)
qed simp

lemma salt_run_distinct: "n \<le> 2 ^ 64 \<Longrightarrow> distinct (salt_run seed n st)"
proof -
  assume n: "n \<le> 2 ^ 64"
  have "i = j" if ij: "i < n" "j < n" and eq: "salt_run seed n st ! i = salt_run seed n st ! j" for i j
  proof -
    have "(word_of_nat i :: u64) = word_of_nat j"
      using eq ij by (simp add: salt_run_nth be_bytes8_inj)
    then have "unat (word_of_nat i :: u64) = unat (word_of_nat j :: u64)" by simp
    then show ?thesis using ij n by (simp add: unat_of_nat take_bit_eq_mod)
  qed
  then show ?thesis by (auto simp: distinct_conv_nth)
qed

section \<open>The envelope\<close>

text \<open>What the encoder builds: the header, the security parameters with a zero placeholder, and the
  scoped data; the authentication parameters are then exchanged for the MAC of that message.\<close>

definition auth_keys_ok :: "(AuthProtocol \<times> SecretKey) option \<Rightarrow> bool" where
  "auth_keys_ok auth \<longleftrightarrow> (\<forall>p k. auth = Some (p, k) \<longrightarrow> secret_key_len k = auth_key_len p)"

definition priv_keys_ok :: "(PrivProtocol \<times> SecretKey) option \<Rightarrow> bool" where
  "priv_keys_ok privacy \<longleftrightarrow> (\<forall>p k. privacy = Some (p, k) \<longrightarrow> secret_key_len k = priv_key_len p)"

definition placeholder_len :: "(AuthProtocol \<times> SecretKey) option \<Rightarrow> nat" where
  "placeholder_len auth = (case auth of None \<Rightarrow> 0 | Some (p, _) \<Rightarrow> mac_len p)"

lemma placeholder_len_le: "placeholder_len auth \<le> 48"
  using mac_len_bounds(3) by (auto simp: placeholder_len_def split: option.splits)

lemma length_aes_iv [simp]: "length (aes_iv b t salt) = 8 + length salt"
  by (simp add: aes_iv_def)

lemma seal_scoped_pdu_cases:
  assumes "crypto_ok cr" "priv_keys_ok privacy"
  obtains sp pp st' where
    "seal_scoped_pdu cr seed eb et privacy plain st = (Inr (sp, pp, privacy \<noteq> None), st')"
    "length sp = length plain" "length pp \<le> 8"
    "privacy = None \<longrightarrow> sp = plain \<and> pp = [] \<and> st' = st"
    "\<forall>q k. privacy = Some (q, k) \<longrightarrow> length pp = 8 \<and> priv_decrypt cr q k (aes_iv eb et pp) sp = Inr plain"
proof (cases privacy)
  case None
  then show thesis by (intro that[of plain "[]" st]) (simp_all add: seal_scoped_pdu_def)
next
  case (Some qk)
  obtain q k where qk: "qk = (q, k)" by (cases qk)
  obtain salt st' where n: "next_privacy_salt seed st = (salt, st')" and l: "length salt = 8"
    by (auto simp: next_privacy_salt_def Let_def)
  have iv: "length (aes_iv eb et salt) = 16" using l by simp
  have key: "length (secret_key_bytes k) = priv_key_len q"
    using assms(2) by (simp add: priv_keys_ok_def Some qk secret_key_len_def)
  then obtain ct where "cfb_encrypt cr q (secret_key_bytes k) (aes_iv eb et salt) plain = Some ct"
    using assms(1) iv unfolding crypto_ok_def by blast
  then have ct: "priv_encrypt cr q k (aes_iv eb et salt) plain = Inr ct"
    using key by (simp add: priv_encrypt_def secret_key_len_def)
  note d = priv_decrypt_encrypt[OF assms(1) iv ct]
  show thesis by (rule that[of ct salt st']) (use n l ct d in \<open>simp_all add: seal_scoped_pdu_def Some qk\<close>)
qed

lemma sign_message_exchange:
  assumes "crypto_ok cr" "auth_keys_ok auth" "length (uf_auth_params u) = placeholder_len auth"
    and "length (encoded_v3 h u s) < 9223372036854775808"
    and "off = (if uf_auth_params u = [] then None else Some (length (auth_prefix h u s)))"
  obtains mac where "sign_message cr auth (length (uf_auth_params u)) off (encoded_v3 h u s)
      = Inr (encoded_v3 h (u\<lparr>uf_auth_params := mac\<rparr>) s)" "length mac = placeholder_len auth"
    "\<forall>p k. auth = Some (p, k) \<longrightarrow> compute_mac cr p k (encoded_v3 h u s) = Inr mac"
proof (cases auth)
  case None
  then have "uf_auth_params u = []" using assms(3) by (simp add: placeholder_len_def)
  then have "u\<lparr>uf_auth_params := []\<rparr> = u" by simp
  then show thesis using None by (intro that[of "[]"]) (simp_all add: sign_message_def placeholder_len_def)
next
  case (Some pk)
  obtain p k where pk: "pk = (p, k)" by (cases pk)
  let ?m = "encoded_v3 h u s" let ?o = "length (auth_prefix h u s)" let ?n = "length (uf_auth_params u)"
  have key: "secret_key_len k = auth_key_len p" using assms(2) Some pk by (simp add: auth_keys_ok_def)
  obtain mac where mac: "compute_mac cr p k ?m = Inr mac"
    using assms(1) key by (rule compute_mac_total)
  have n: "?n = mac_len p" using assms(3) by (simp add: placeholder_len_def Some pk)
  have l: "length mac = ?n" using compute_mac_length[OF assms(1) mac] n by simp
  have ne: "uf_auth_params u \<noteq> []" using n mac_len_bounds(1)[of p] by auto
  have le: "?o + ?n \<le> length ?m" by (simp add: encoded_v3_split)
  then have "slice_get ?m ?o (?o + ?n) = Some (take ?n (drop ?o ?m))" by (simp add: slice_get_def)
  moreover have "length (take ?n (drop ?o ?m)) = length mac" using le l by simp
  moreover have "usize_checked_add ?o ?n = Some (?o + ?n)" using le assms(4) by (simp add: usize_checked_add_def)
  ultimately have "sign_message cr auth ?n off ?m = Inr (slice_set ?m ?o mac)"
    using ne mac by (simp add: sign_message_def Some pk assms(5))
  then show thesis
    using that[of mac] encoded_v3_exchange[OF l] l n mac by (simp add: placeholder_len_def Some pk)
qed

definition response_header :: "MessageId \<Rightarrow> u8 \<Rightarrow> HeaderData" where
  "response_header msg_id flags = \<lparr>hd_msg_id = message_id_i32 msg_id, hd_max_size = MSG_MAX_SIZE_UDP,
     hd_security_flags = flags, hd_security_model = 3\<rparr>"

definition response_usm :: "bytes \<Rightarrow> u32 \<Rightarrow> u32 \<Rightarrow> bytes \<Rightarrow> bytes \<Rightarrow> bytes \<Rightarrow> UsmFields" where
  "response_usm engine_id boots time user_name ap pp = \<lparr>uf_engine_id = engine_id, uf_engine_boots = boots,
     uf_engine_time = time, uf_user_name = user_name, uf_auth_params = ap, uf_priv_params = pp\<rparr>"

lemma response_fields [simp]:
  "hd_msg_id (response_header i f) = message_id_i32 i" "hd_max_size (response_header i f) = MSG_MAX_SIZE_UDP"
  "hd_security_flags (response_header i f) = f" "hd_security_model (response_header i f) = 3"
  "uf_engine_id (response_usm e b t n ap pp) = e" "uf_engine_boots (response_usm e b t n ap pp) = b"
  "uf_engine_time (response_usm e b t n ap pp) = t" "uf_user_name (response_usm e b t n ap pp) = n"
  "uf_auth_params (response_usm e b t n ap pp) = ap" "uf_priv_params (response_usm e b t n ap pp) = pp"
  by (simp_all add: response_header_def response_usm_def)

definition response_flags :: "(AuthProtocol \<times> SecretKey) option \<Rightarrow> (PrivProtocol \<times> SecretKey) option \<Rightarrow> u8" where
  "response_flags auth privacy = (if privacy \<noteq> None then 3 else if auth \<noteq> None then 1 else 0)"

text \<open>What an envelope needs so that it can be encoded.\<close>

definition envelope_ok ::
  "MessageId \<Rightarrow> bytes \<Rightarrow> bytes \<Rightarrow> bytes \<Rightarrow> u32 \<Rightarrow> u32 \<Rightarrow> (AuthProtocol \<times> SecretKey) option
    \<Rightarrow> (PrivProtocol \<times> SecretKey) option \<Rightarrow> bytes \<Rightarrow> bool" where
  "envelope_ok msg_id engine_id user_name context_name engine_boots engine_time auth privacy raw_pdu_bytes \<longleftrightarrow>
     auth_keys_ok auth \<and> priv_keys_ok privacy \<and> (auth = None \<longrightarrow> privacy = None)
   \<and> unat engine_boots < 2147483648 \<and> unat engine_time < 2147483648 \<and> 0 \<le> sint (message_id_i32 msg_id)
   \<and> length user_name \<le> 32
   \<and> 2 * length engine_id + length context_name + length raw_pdu_bytes + 400 < 9223372036854775808"

lemma length_scoped_body_le:
  "length (scoped_body (ScopedPlaintext e n p)) \<le> length e + length n + length p + 30"
  using length_tlv_le[of TAG_SEQUENCE "oct_tlv e @ oct_tlv n @ p"] length_tlv_le[of TAG_OCTET_STRING e]
    length_tlv_le[of TAG_OCTET_STRING n] by simp

lemma encode_v3_message_scoped:
  assumes "length (encoded_v3 h u (scoped_body sd)) < 9223372036854775808"
    and "0 \<le> sint (hd_msg_id h)" "484 \<le> sint (hd_max_size h)" "length (uf_user_name u) \<le> 32"
    and "(if encrypted then oct_tlv sp else sp) = scoped_body sd"
  shows "encode_v3_message (hd_msg_id h) (hd_max_size h) (hd_security_flags h) (hd_security_model h)
     (uf_engine_id u) (uf_engine_boots u) (uf_engine_time u) (uf_user_name u) (uf_auth_params u)
     (uf_priv_params u) sp encrypted = Inr (encoded_v3 h u (scoped_body sd),
       if uf_auth_params u = [] then None else Some (length (auth_prefix h u (scoped_body sd))))"
proof -
  obtain off where off: "off = length (auth_prefix h u (scoped_body sd))"
    and find: "find_auth_params_offset (encoded_v3 h u (scoped_body sd)) (length (uf_auth_params u))
       = Inr (if uf_auth_params u = [] then None else Some off)"
    using assms(1-4) by (rule decode_encoded_v3)
  show ?thesis unfolding encode_v3_message_layers assms(5) Let_def find rbind_Inr off ..
qed

lemma encode_v3_envelope_obtain:
  assumes cr: "crypto_ok cr"
    and ok: "envelope_ok msg_id engine_id user_name context_name engine_boots engine_time auth privacy raw"
  obtains mac pp sd st' where
    "encode_v3_envelope cr seed msg_id engine_id user_name context_name engine_boots engine_time auth privacy raw st
       = (Inr (encoded_v3 (response_header msg_id (response_flags auth privacy))
            (response_usm engine_id engine_boots engine_time user_name mac pp) (scoped_body sd)), st')"
    "length mac = placeholder_len auth" "length pp \<le> 8"
    "length (scoped_body sd) \<le> length engine_id + length context_name + length raw + 40"
    "\<forall>p k. auth = Some (p, k) \<longrightarrow> compute_mac cr p k
       (encoded_v3 (response_header msg_id (response_flags auth privacy))
          (response_usm engine_id engine_boots engine_time user_name (replicate (mac_len p) 0) pp) (scoped_body sd))
       = Inr mac"
    "privacy = None \<longrightarrow> sd = ScopedPlaintext engine_id context_name raw \<and> pp = [] \<and> st' = st"
    "\<forall>q k. privacy = Some (q, k) \<longrightarrow> length pp = 8 \<and> (\<exists>ct. sd = ScopedEncrypted ct
       \<and> priv_decrypt cr q k (aes_iv engine_boots engine_time pp) ct
         = Inr (encode_scoped_pdu engine_id context_name raw))"
proof -
  note ok = ok[unfolded envelope_ok_def]
  let ?plain = "encode_scoped_pdu engine_id context_name raw"
  let ?h = "response_header msg_id (response_flags auth privacy)"
  have keys: "auth_keys_ok auth" "priv_keys_ok privacy" using ok by blast+
  obtain sp pp st' where seal: "seal_scoped_pdu cr seed engine_boots engine_time privacy ?plain st
        = (Inr (sp, pp, privacy \<noteq> None), st')" and lsp: "length sp = length ?plain" "length pp \<le> 8"
    and none: "privacy = None \<longrightarrow> sp = ?plain \<and> pp = [] \<and> st' = st"
    and some: "\<forall>q k. privacy = Some (q, k) \<longrightarrow> length pp = 8
       \<and> priv_decrypt cr q k (aes_iv engine_boots engine_time pp) sp = Inr ?plain"
    by (rule seal_scoped_pdu_cases[OF cr keys(2)])
  define sd where "sd = (if privacy = None then ScopedPlaintext engine_id context_name raw else ScopedEncrypted sp)"
  have sd: "(if privacy \<noteq> None then oct_tlv sp else sp) = scoped_body sd"
    using none by (auto simp: sd_def encoded_layers)
  have lsd: "length (scoped_body sd) \<le> length engine_id + length context_name + length raw + 40"
    using length_scoped_body_le[of engine_id context_name raw] lsp(1) length_tlv_le[of TAG_OCTET_STRING sp]
    by (auto simp: sd_def encoded_layers)
  let ?u = "response_usm engine_id engine_boots engine_time user_name (replicate (placeholder_len auth) 0) pp"
  let ?m = "encoded_v3 ?h ?u (scoped_body sd)"
  have lu: "length ?m < 9223372036854775808"
    using length_encoded_v3_le[of ?h ?u "scoped_body sd"] lsd lsp(2) placeholder_len_le[of auth] ok by simp
  have enc: "encode_v3_message (message_id_i32 msg_id) MSG_MAX_SIZE_UDP (response_flags auth privacy) 3 engine_id
      engine_boots engine_time user_name (replicate (placeholder_len auth) 0) pp sp (privacy \<noteq> None)
      = Inr (?m, if uf_auth_params ?u = [] then None else Some (length (auth_prefix ?h ?u (scoped_body sd))))"
    using encode_v3_message_scoped[OF lu, of "privacy \<noteq> None" sp] sd ok
    unfolding response_fields by (simp add: MSG_MAX_SIZE_UDP_def)
  have apl: "length (uf_auth_params ?u) = placeholder_len auth" by simp
  obtain mac where mac: "sign_message cr auth (length (uf_auth_params ?u))
      (if uf_auth_params ?u = [] then None else Some (length (auth_prefix ?h ?u (scoped_body sd)))) ?m
      = Inr (encoded_v3 ?h (?u\<lparr>uf_auth_params := mac\<rparr>) (scoped_body sd))"
      "length mac = placeholder_len auth"
      "\<forall>p k. auth = Some (p, k) \<longrightarrow> compute_mac cr p k ?m = Inr mac"
    by (rule sign_message_exchange[OF cr keys(1) apl lu refl])
  have um: "?u\<lparr>uf_auth_params := mac\<rparr> = response_usm engine_id engine_boots engine_time user_name mac pp"
    by (simp add: response_usm_def)
  have fl: "envelope_flags (auth \<noteq> None) (privacy \<noteq> None) = Inr (response_flags auth privacy)"
    using ok by (auto simp: envelope_flags_def response_flags_def split: option.splits)
  have pl: "(case auth of Some (proto, _) \<Rightarrow> replicate (mac_len proto) 0 | None \<Rightarrow> [])
      = replicate (placeholder_len auth) (0::u8)"
    by (auto simp: placeholder_len_def split: option.splits)
  have result: "encode_v3_envelope cr seed msg_id engine_id user_name context_name engine_boots engine_time auth privacy raw st
       = (Inr (encoded_v3 ?h (response_usm engine_id engine_boots engine_time user_name mac pp) (scoped_body sd)), st')"
    unfolding encode_v3_envelope_def fl pl Let_def seal
    using ok mac(1) by (simp add: i32_try_from_u32_def enc um del: not_None_eq)
  show thesis
  proof (rule that[OF result mac(2) lsp(2) lsd])
    show "\<forall>p k. auth = Some (p, k) \<longrightarrow> compute_mac cr p k (encoded_v3 ?h (response_usm engine_id engine_boots
        engine_time user_name (replicate (mac_len p) 0) pp) (scoped_body sd)) = Inr mac"
      using mac(3) by (simp add: placeholder_len_def)
  qed (use none some in \<open>auto simp: sd_def\<close>)
qed

lemma encode_v3_envelope_errors:
  assumes "2147483648 \<le> unat engine_boots \<or> 2147483648 \<le> unat engine_time \<or> auth = None \<and> privacy \<noteq> None"
  shows "encode_v3_envelope cr seed msg_id engine_id user_name context_name engine_boots engine_time auth
      privacy raw st = (Inl (if 2147483648 \<le> unat engine_boots then EncBoots engine_boots
        else if 2147483648 \<le> unat engine_time then EncTime engine_time else EncPrivWithoutAuth), st)"
proof -
  have b: "i32_try_from_u32 engine_boots = (if 2147483648 \<le> unat engine_boots then None else Some engine_boots)"
    "i32_try_from_u32 engine_time = (if 2147483648 \<le> unat engine_time then None else Some engine_time)"
    by (simp_all add: i32_try_from_u32_def)
  show ?thesis
    using assms unfolding encode_v3_envelope_def b
    by (cases "2147483648 \<le> unat engine_boots"; cases "2147483648 \<le> unat engine_time")
      (simp_all add: envelope_flags_def)
qed

lemma encode_varbinds_length: "encode_varbinds vbs = Inr raw \<Longrightarrow> length raw \<le> length (concat (map wire_varbind vbs)) + 10"
  using length_tlv_le[of TAG_SEQUENCE "concat (map wire_varbind vbs)"]
  by (auto simp: encode_varbinds_wire encode_varbind_list_tlv)

lemma encode_response_pdu_spec:
  assumes "unat (resp_error_index r) < 2147483648"
  obtains raw where "encode_response_pdu r = Inr raw"
    "length raw \<le> length (concat (map wire_varbind (resp_varbinds r))) + 62"
    "\<exists>vbl. encode_varbinds (resp_varbinds r) = Inr vbl \<and> raw = tlv TAG_RESPONSE (pdu_body
        (request_id_i32 (resp_request_id r)) (error_status_i32 (resp_error_status r)) (resp_error_index r) vbl)"
proof -
  let ?vbl = "encode_varbind_list (map wire_varbind (resp_varbinds r))"
  let ?raw = "tlv TAG_RESPONSE (pdu_body (request_id_i32 (resp_request_id r))
      (error_status_i32 (resp_error_status r)) (resp_error_index r) ?vbl)"
  have v: "encode_varbinds (resp_varbinds r) = Inr ?vbl" by (rule encode_varbinds_wire)
  have "TAG_RESPONSE \<in> set VALID_STANDARD_PDU_TAGS" by (simp add: VALID_STANDARD_PDU_TAGS_def)
  then have "encode_response_pdu r = Inr ?raw"
    using assms v by (simp add: encode_response_pdu_def i32_try_from_u32_def encode_pdu_tlv)
  moreover have "length ?raw \<le> length (concat (map wire_varbind (resp_varbinds r))) + 62"
    using encode_varbinds_length[OF v] length_pdu_le[of TAG_RESPONSE "request_id_i32 (resp_request_id r)"
        "error_status_i32 (resp_error_status r)" "resp_error_index r" ?vbl] by linarith
  ultimately show thesis using that v by blast
qed

section \<open>Properties\<close>

text \<open>C22: An encoded request decodes to the request it was built from: the request ID and every
  name and value in order, for GET, GETNEXT, SET and GETBULK. A negative count of a GETBULK
  request becomes zero, and every other well-formed PDU type is rejected as unsupported.\<close>

theorem request_pdu_round_trip:
  assumes "encode_varbinds vbs = Inr raw" "length raw + 60 < 2 ^ 63"
  shows "(\<exists>bs. encode_pdu TAG_GET_REQUEST rid 0 0 raw = Inr bs
        \<and> decode_pdu bs = Inr (PduGetRequest \<lparr>get_request_id = RequestId rid, get_varbinds = vbs\<rparr>))
    \<and> (\<exists>bs. encode_pdu TAG_GET_NEXT_REQUEST rid 0 0 raw = Inr bs
        \<and> decode_pdu bs = Inr (PduGetNextRequest \<lparr>getnext_request_id = RequestId rid, getnext_varbinds = vbs\<rparr>))
    \<and> (\<exists>bs. encode_pdu TAG_SET_REQUEST rid 0 0 raw = Inr bs
        \<and> decode_pdu bs = Inr (PduSetRequest \<lparr>set_request_id = RequestId rid, set_varbinds = vbs\<rparr>))
    \<and> decode_pdu (encode_bulk_pdu rid nr mr raw)
        = Inr (PduGetBulkRequest \<lparr>bulk_request_id = RequestId rid,
            bulk_non_repeaters = (if 0 \<le> sint nr then nr else 0),
            bulk_max_repetitions = (if 0 \<le> sint mr then mr else 0), bulk_varbinds = vbs\<rparr>)
    \<and> (\<forall>tag es ei. tag \<in> {TAG_RESPONSE, TAG_INFORM_REQUEST, TAG_TRAP, TAG_REPORT} \<longrightarrow>
        (\<exists>bs. encode_pdu tag rid es ei raw = Inr bs
           \<and> decode_pdu bs = Inl (DecodeError KindUnsupportedPduType None)))"
proof -
  have len: "length raw + 60 < 9223372036854775808" "length raw < 9223372036854775808" using assms(2) by simp_all
  note d = decode_encoded_varbinds[OF assms(1) len(2)]
  have t: "tag \<in> set VALID_STANDARD_PDU_TAGS" if "tag \<in> {TAG_GET_REQUEST, TAG_GET_NEXT_REQUEST, TAG_SET_REQUEST,
      TAG_RESPONSE, TAG_INFORM_REQUEST, TAG_TRAP, TAG_REPORT}" for tag
    using that by (auto simp: VALID_STANDARD_PDU_TAGS_def)
  have e: "encode_pdu tag rid es ei raw = Inr (tlv tag (pdu_body rid es ei raw))
      \<and> decode_pdu (tlv tag (pdu_body rid es ei raw)) = decoded_pdu_to_inbound (Standard tag rid raw)"
    if "tag \<in> set VALID_STANDARD_PDU_TAGS" for tag es ei
    using that decode_pdu_encoded(1)[OF assms(1) len(1) that] by (simp add: encode_pdu_tlv)
  have u: "unwrap_or_u32 0 v = (if 0 \<le> sint v then v else 0)" for v
    by (simp add: unwrap_or_u32_def u32_try_from_i32_def)
  have x: "\<exists>bs. encode_pdu tag rid es ei raw = Inr bs \<and> decode_pdu bs = Inl (DecodeError KindUnsupportedPduType None)"
    if tag: "tag \<in> {TAG_RESPONSE, TAG_INFORM_REQUEST, TAG_TRAP, TAG_REPORT}" for tag es ei
  proof -
    have "decoded_pdu_to_inbound (Standard tag rid raw) = Inl (DecodeError KindUnsupportedPduType None)"
      using tag by (auto simp: tag_defs)
    then show ?thesis using e[OF t, of tag es ei] tag by auto
  qed
  have g: "decoded_pdu_to_inbound (Standard TAG_GET_REQUEST rid raw)
        = Inr (PduGetRequest \<lparr>get_request_id = RequestId rid, get_varbinds = vbs\<rparr>)"
    "decoded_pdu_to_inbound (Standard TAG_GET_NEXT_REQUEST rid raw)
        = Inr (PduGetNextRequest \<lparr>getnext_request_id = RequestId rid, getnext_varbinds = vbs\<rparr>)"
    "decoded_pdu_to_inbound (Standard TAG_SET_REQUEST rid raw)
        = Inr (PduSetRequest \<lparr>set_request_id = RequestId rid, set_varbinds = vbs\<rparr>)"
    using d by (simp_all add: tag_defs)
  have bulk: "decode_pdu (encode_bulk_pdu rid nr mr raw)
        = Inr (PduGetBulkRequest \<lparr>bulk_request_id = RequestId rid,
            bulk_non_repeaters = (if 0 \<le> sint nr then nr else 0),
            bulk_max_repetitions = (if 0 \<le> sint mr then mr else 0), bulk_varbinds = vbs\<rparr>)"
    unfolding encode_pdu_tlv(2) decode_pdu_encoded(2)[OF assms(1) len(1)] by (simp add: d u)
  show ?thesis
    using e[OF t, of TAG_GET_REQUEST 0 0] e[OF t, of TAG_GET_NEXT_REQUEST 0 0] e[OF t, of TAG_SET_REQUEST 0 0]
      x bulk unfolding g by blast
qed

theorem request_pdu_round_trip_witness:
  "\<exists>raw. encode_varbinds [] = Inr raw \<and> decode_pdu (encode_bulk_pdu 5 (- 1) 3 raw)
     = Inr (PduGetBulkRequest \<lparr>bulk_request_id = RequestId 5, bulk_non_repeaters = 0,
         bulk_max_repetitions = 3, bulk_varbinds = []\<rparr>)"
proof -
  let ?raw = "encode_varbind_list (map wire_varbind [])"
  have r: "encode_varbinds [] = Inr ?raw" by (rule encode_varbinds_wire)
  have "length ?raw + 60 < 2 ^ 63" using encode_varbinds_length[OF r] by simp
  from request_pdu_round_trip[OF r this, of 5 "- 1" 3] r show ?thesis by simp
qed

text \<open>C18: No two of the first \<open>2 ^ 64\<close> encryptions of a process use the same initialisation vector,
  whatever the random seed, the boots and the time values of the messages; and encryptions under
  different boots values, hence of different runs of an engine, never do, whatever their salts.\<close>

theorem ivs_never_repeat:
  assumes "n \<le> 2 ^ 64" "i < n" "j < n" "i \<noteq> j"
  shows "aes_iv b t (salt_run seed n st ! i) \<noteq> aes_iv b' t' (salt_run seed n st ! j)
    \<and> (c \<noteq> c' \<longrightarrow> aes_iv c t salt \<noteq> aes_iv c' t' salt')"
proof
  show "aes_iv b t (salt_run seed n st ! i) \<noteq> aes_iv b' t' (salt_run seed n st ! j)"
    using salt_run_distinct[OF assms(1), of seed st] assms(2-4) by (auto simp: aes_iv_def distinct_conv_nth)
  have "be_bytes 4 (unat c) \<noteq> be_bytes 4 (unat c')" if "c \<noteq> c'"
  proof
    assume "be_bytes 4 (unat c) = be_bytes 4 (unat c')"
    then have "be_nat (be_bytes 4 (unat c)) = be_nat (be_bytes 4 (unat c'))" by simp
    then show False using that unat_i32_less[of c] unat_i32_less[of c'] by (simp add: be_nat_be_bytes word_unat_eq_iff)
  qed
  then show "c \<noteq> c' \<longrightarrow> aes_iv c t salt \<noteq> aes_iv c' t' salt'" by (simp add: aes_iv_def)
qed

theorem ivs_never_repeat_witness:
  "aes_iv 1 2 (salt_run 0xFFFFFFFFFFFFFFFF 2 None ! 0) \<noteq> aes_iv 1 2 (salt_run 0xFFFFFFFFFFFFFFFF 2 None ! 1)
   \<and> aes_iv 1 2 [0, 0, 0, 0, 0, 0, 0, 9] \<noteq> aes_iv 2 2 [0, 0, 0, 0, 0, 0, 0, 9]"
  using ivs_never_repeat[where n = 2 and i = 0 and j = 1 and b = 1 and t = 2 and b' = 1 and t' = 2 and c = 1 and c' = 2
      and seed = "0xFFFFFFFFFFFFFFFF" and st = None and salt = "[0, 0, 0, 0, 0, 0, 0, 9]" and salt' = "[0, 0, 0, 0, 0, 0, 0, 9]"]
  by simp

text \<open>C23: With keys of the protocols' lengths the message encoder fails exactly when the boots or
  the time do not fit in 31 bits or privacy is asked for without authentication; it never
  panics, and it consumes a salt exactly when it encrypts.\<close>

theorem envelope_encoder_total:
  assumes "crypto_ok cr" "auth_keys_ok auth" "priv_keys_ok privacy" "0 \<le> sint (message_id_i32 msg_id)"
    and "length user_name \<le> 32" "2 * length engine_id + length context_name + length raw + 400 < 2 ^ 63"
    and "encode_v3_envelope cr seed msg_id engine_id user_name context_name engine_boots engine_time auth
      privacy raw st = (result, st')"
  shows "((\<exists>m. result = Inr m) \<longleftrightarrow>
       unat engine_boots < 2 ^ 31 \<and> unat engine_time < 2 ^ 31 \<and> \<not> (auth = None \<and> privacy \<noteq> None))
    \<and> result \<noteq> Inl EncPanic
    \<and> st' = (if (\<exists>m. result = Inr m) \<and> privacy \<noteq> None then snd (next_privacy_salt seed st) else st)"
proof (cases "unat engine_boots < 2 ^ 31 \<and> unat engine_time < 2 ^ 31 \<and> \<not> (auth = None \<and> privacy \<noteq> None)")
  case True
  then have ok: "envelope_ok msg_id engine_id user_name context_name engine_boots engine_time auth privacy raw"
    using assms(2-6) by (auto simp: envelope_ok_def simp del: not_None_eq)
  obtain m st2 where "encode_v3_envelope cr seed msg_id engine_id user_name context_name engine_boots engine_time auth
      privacy raw st = (Inr m, st2)"
    by (rule encode_v3_envelope_obtain[OF assms(1) ok])
  then have m: "encode_v3_envelope cr seed msg_id engine_id user_name context_name engine_boots engine_time auth
      privacy raw st = (Inr m, st')" using assms(7) by simp
  then have "st' = (if privacy \<noteq> None then snd (next_privacy_salt seed st) else st)"
    by (auto simp: encode_v3_envelope_def seal_scoped_pdu_def Let_def split: sum.splits option.splits prod.splits)
  then show ?thesis using True m assms(7) by auto
next
  case False
  then have "2147483648 \<le> unat engine_boots \<or> 2147483648 \<le> unat engine_time \<or> auth = None \<and> privacy \<noteq> None"
    by (auto simp del: not_None_eq)
  from encode_v3_envelope_errors[OF this] assms(7)
  have "result = Inl (if 2147483648 \<le> unat engine_boots then EncBoots engine_boots
        else if 2147483648 \<le> unat engine_time then EncTime engine_time else EncPrivWithoutAuth)" "st' = st"
    by simp_all
  then show ?thesis using False by simp
qed

theorem envelope_encoder_total_witness:
  "\<exists>m st'. encode_v3_envelope checksum_crypto 7 (MessageId 1) [1, 2, 3, 4, 5] [0x75] [] 1 2
     (Some (HmacSha256, SecretKey (replicate 32 0))) (Some (Aes128, SecretKey (replicate 16 0))) [] None = (Inr m, st')"
proof -
  obtain r st' where e: "encode_v3_envelope checksum_crypto 7 (MessageId 1) [1, 2, 3, 4, 5] [0x75] [] 1 2
     (Some (HmacSha256, SecretKey (replicate 32 0))) (Some (Aes128, SecretKey (replicate 16 0))) [] None = (r, st')"
    by fastforce
  have "auth_keys_ok (Some (HmacSha256, SecretKey (replicate 32 0)))"
    "priv_keys_ok (Some (Aes128, SecretKey (replicate 16 0)))"
    by (simp_all add: auth_keys_ok_def priv_keys_ok_def secret_key_len_def)
  from envelope_encoder_total[OF checksum_crypto_ok this _ _ _ e] show ?thesis using e by auto
qed

end
