(* ===== verification/Mib.thy ===== *)
theory Mib
  imports Smi
begin

text \<open>
  The MIB store (\<open>src/src/mib.rs\<close>): an ordered map from OIDs to values with upsert, point
  lookup and successor lookup. The \<open>BTreeMap\<close> is a list of entries in ascending key order.
  The locale \<open>ordered_store\<close> is the contract the request handlers rely on; it is interpreted
  on the store, and its clients show that repeated successor lookups enumerate every entry
  above a starting OID once and in order.
\<close>

section \<open>Definitions\<close>

text \<open>The operations of \<open>BTreeMap\<close> the store uses: \<open>insert\<close>, \<open>get\<close> and the first element of the
  range of keys above a bound.\<close>

fun btree_insert :: "'k::linorder \<Rightarrow> 'v \<Rightarrow> ('k \<times> 'v) list \<Rightarrow> ('k \<times> 'v) list" where
  "btree_insert k v [] = [(k, v)]"
| "btree_insert k v ((k', v') # es) =
     (if k < k' then (k, v) # (k', v') # es
      else if k = k' then (k, v) # es
      else (k', v') # btree_insert k v es)"

fun btree_get :: "'k::linorder \<Rightarrow> ('k \<times> 'v) list \<Rightarrow> 'v option" where
  "btree_get k [] = None"
| "btree_get k ((k', v') # es) = (if k = k' then Some v' else btree_get k es)"

fun btree_range_above :: "'k::linorder \<Rightarrow> ('k \<times> 'v) list \<Rightarrow> ('k \<times> 'v) option" where
  "btree_range_above k [] = None"
| "btree_range_above k ((k', v') # es) = (if k < k' then Some (k', v') else btree_range_above k es)"

record Store =
  store_map :: "(Oid \<times> Value) list"

definition store_new :: Store where
  "store_new = \<lparr>store_map = []\<rparr>"

definition store_set :: "Oid \<Rightarrow> Value \<Rightarrow> Store \<Rightarrow> Store" where
  "store_set oid value s = s\<lparr>store_map := btree_insert oid value (store_map s)\<rparr>"

definition store_get :: "Store \<Rightarrow> Oid \<Rightarrow> Value option" where
  "store_get s oid = btree_get oid (store_map s)"

definition store_next :: "Store \<Rightarrow> Oid \<Rightarrow> (Oid \<times> Value) option" where
  "store_next s oid = btree_range_above oid (store_map s)"

text \<open>The invariant of the ordered map.\<close>

definition store_wf :: "Store \<Rightarrow> bool" where
  "store_wf s \<longleftrightarrow> sorted_wrt (<) (map fst (store_map s))"

section \<open>Ordered lists of entries\<close>

lemma btree_insert_keys: "set (map fst (btree_insert k v es)) = insert k (set (map fst es))"
  by (induction k v es rule: btree_insert.induct) auto

lemma btree_insert_sorted:
  "sorted_wrt (<) (map fst es) \<Longrightarrow> sorted_wrt (<) (map fst (btree_insert k v es))"
proof (induction k v es rule: btree_insert.induct)
  case (2 k v k' v' es)
  then show ?case using btree_insert_keys[of k v es] by auto
qed simp

lemma btree_get_None: "btree_get k es = None \<longleftrightarrow> k \<notin> set (map fst es)"
  by (induction k es rule: btree_get.induct) auto

lemma btree_get_insert:
  "sorted_wrt (<) (map fst es) \<Longrightarrow> btree_get k (btree_insert k' v es) = (if k = k' then Some v else btree_get k es)"
proof (induction k' v es rule: btree_insert.induct)
  case (2 k' v l w es)
  then show ?case by (auto simp: btree_get_None)
qed simp

lemma btree_range_above_Some:
  "sorted_wrt (<) (map fst es) \<Longrightarrow> btree_range_above k es = Some (k', v) \<Longrightarrow>
     k < k' \<and> btree_get k' es = Some v \<and> (\<forall>l. k < l \<longrightarrow> btree_get l es \<noteq> None \<longrightarrow> k' \<le> l)"
proof (induction k es rule: btree_range_above.induct)
  case (2 k l w es)
  show ?case
  proof (cases "k < l")
    case True
    with 2 have e: "k' = l" "v = w" by auto
    have "l \<le> j" if "btree_get j ((l, w) # es) \<noteq> None" for j
    proof (cases "j = l")
      case False
      then have "j \<in> fst ` set es" using that btree_get_None[of j es] by auto
      then show ?thesis using 2(2) by auto
    qed simp
    then show ?thesis using True e by auto
  next
    case False
    then have "k < k' \<and> btree_get k' es = Some v \<and> (\<forall>l. k < l \<longrightarrow> btree_get l es \<noteq> None \<longrightarrow> k' \<le> l)"
      using 2 by auto
    then show ?thesis using False by auto
  qed
qed simp

lemma btree_range_above_None:
  "btree_range_above k es = None \<longleftrightarrow> (\<forall>l. k < l \<longrightarrow> btree_get l es = None)"
  by (induction k es rule: btree_range_above.induct) auto

section \<open>The contract of the store\<close>

locale ordered_store =
  fixes inv :: "'s \<Rightarrow> bool" and empty :: 's and set_entry :: "'k::linorder \<Rightarrow> 'v \<Rightarrow> 's \<Rightarrow> 's"
    and get_entry :: "'s \<Rightarrow> 'k \<Rightarrow> 'v option" and next_entry :: "'s \<Rightarrow> 'k \<Rightarrow> ('k \<times> 'v) option"
  assumes inv_empty: "inv empty"
    and inv_set: "inv s \<Longrightarrow> inv (set_entry k v s)"
    and get_empty: "get_entry empty k = None"
    and get_set: "inv s \<Longrightarrow> get_entry (set_entry k v s) k' = (if k' = k then Some v else get_entry s k')"
    and next_Some: "inv s \<Longrightarrow> next_entry s k = Some (k', v) \<Longrightarrow>
      k < k' \<and> get_entry s k' = Some v \<and> (\<forall>l. k < l \<longrightarrow> get_entry s l \<noteq> None \<longrightarrow> k' \<le> l)"
    and next_None: "inv s \<Longrightarrow> next_entry s k = None \<longleftrightarrow> (\<forall>l. k < l \<longrightarrow> get_entry s l = None)"
    and finite_keys: "inv s \<Longrightarrow> finite {k. get_entry s k \<noteq> None}"
begin

lemma next_iff:
  assumes "inv s"
  shows "next_entry s k = Some (k', v) \<longleftrightarrow>
    k < k' \<and> get_entry s k' = Some v \<and> (\<forall>l. k < l \<longrightarrow> get_entry s l \<noteq> None \<longrightarrow> k' \<le> l)"
proof
  assume r: "k < k' \<and> get_entry s k' = Some v \<and> (\<forall>l. k < l \<longrightarrow> get_entry s l \<noteq> None \<longrightarrow> k' \<le> l)"
  then obtain k2 v2 where n: "next_entry s k = Some (k2, v2)"
    using next_None[OF assms, of k] by (cases "next_entry s k") auto
  then have "k2 = k'" using next_Some[OF assms n] r by (metis antisym option.discI)
  then show "next_entry s k = Some (k', v)" using next_Some[OF assms n] r n by simp
qed (rule next_Some[OF assms])

definition keys_above :: "'s \<Rightarrow> 'k \<Rightarrow> 'k set" where
  "keys_above s k = {l. k < l \<and> get_entry s l \<noteq> None}"

lemma finite_keys_above: "inv s \<Longrightarrow> finite (keys_above s k)"
  using finite_keys by (auto simp: keys_above_def intro: finite_subset)

lemma next_shrinks:
  assumes "inv s" "next_entry s k = Some (k', v)"
  shows "keys_above s k = insert k' (keys_above s k')" "k' \<notin> keys_above s k'"
    "card (keys_above s k') < card (keys_above s k)"
proof -
  show e: "keys_above s k = insert k' (keys_above s k')"
    using next_Some[OF assms] by (auto simp: keys_above_def le_less)
  show n: "k' \<notin> keys_above s k'" by (simp add: keys_above_def)
  show "card (keys_above s k') < card (keys_above s k)"
    unfolding e using finite_keys_above[OF assms(1)] n by simp
qed

end

section \<open>Walking the store\<close>

text \<open>A manager's walk: successor lookups, each starting from the OID the last one returned. The
  number of steps is the fuel; one more than the number of entries always reaches the end.\<close>

fun walk :: "('s \<Rightarrow> 'k \<Rightarrow> ('k \<times> 'v) option) \<Rightarrow> 's \<Rightarrow> nat \<Rightarrow> 'k \<Rightarrow> ('k \<times> 'v) list" where
  "walk nxt s 0 k = []"
| "walk nxt s (Suc n) k = (case nxt s k of None \<Rightarrow> [] | Some (k', v) \<Rightarrow> (k', v) # walk nxt s n k')"

context ordered_store
begin

lemma walk_complete:
  assumes "inv s" "card (keys_above s k) \<le> n"
  shows "sorted_wrt (<) (map fst (walk next_entry s n k))
    \<and> set (walk next_entry s n k) = {(l, v). k < l \<and> get_entry s l = Some v}"
  using assms(2)
proof (induction n arbitrary: k)
  case 0
  then have "keys_above s k = {}" using finite_keys_above[OF assms(1)] by simp
  then show ?case by (auto simp: keys_above_def)
next
  case (Suc n)
  show ?case
  proof (cases "next_entry s k")
    case None
    then show ?thesis using next_None[OF assms(1), of k] by auto
  next
    case (Some p)
    obtain k' v where p: "next_entry s k = Some (k', v)" using Some by (cases p) auto
    note n = next_Some[OF assms(1) p] and sh = next_shrinks[OF assms(1) p]
    have ih: "sorted_wrt (<) (map fst (walk next_entry s n k'))"
      "set (walk next_entry s n k') = {(l, v). k' < l \<and> get_entry s l = Some v}"
      using Suc.IH[of k'] sh(3) Suc.prems by auto
    have "set (walk next_entry s (Suc n) k) = {(l, v). k < l \<and> get_entry s l = Some v}"
      using p ih(2) n by (auto simp: le_less)
    moreover have "sorted_wrt (<) (map fst (walk next_entry s (Suc n) k))"
      using p ih by auto
    ultimately show ?thesis by simp
  qed
qed

end

lemma finite_btree_keys: "finite {k. btree_get k es \<noteq> None}"
  by (rule finite_subset[of _ "set (map fst es)"]) (auto simp: btree_get_None)

interpretation mib: ordered_store store_wf store_new store_set store_get store_next
proof
  fix s k k' v
  assume "store_wf s" "store_next s k = Some (k', v)"
  then show "k < k' \<and> store_get s k' = Some v \<and> (\<forall>l. k < l \<longrightarrow> store_get s l \<noteq> None \<longrightarrow> k' \<le> l)"
    unfolding store_wf_def store_next_def store_get_def by (rule btree_range_above_Some)
qed (simp_all add: store_wf_def store_new_def store_set_def store_get_def store_next_def
    btree_insert_sorted btree_get_insert btree_range_above_None finite_btree_keys[simplified])

section \<open>Properties\<close>

text \<open>A store the application can have built: a sequence of upserts on the empty store.\<close>

definition store_of :: "(Oid \<times> Value) list \<Rightarrow> Store" where
  "store_of updates = foldl (\<lambda>s (oid, value). store_set oid value s) store_new updates"

lemma store_of_snoc: "store_of (us @ [(oid, v)]) = store_set oid v (store_of us)"
  by (simp add: store_of_def)

lemma store_of_wf: "store_wf (store_of us)"
  by (induction us rule: rev_induct) (auto simp: store_of_snoc mib.inv_set, simp add: store_of_def mib.inv_empty)

lemma store_of_get: "store_get (store_of us) oid = map_of (rev us) oid"
  by (induction us rule: rev_induct)
    (auto simp: store_of_snoc mib.get_set store_of_wf, simp add: store_of_def mib.get_empty)

lemma card_keys_above_le:
  assumes "store_wf s"
  shows "card (mib.keys_above s k) \<le> length (store_map s)"
proof -
  have "mib.keys_above s k \<subseteq> set (map fst (store_map s))"
    by (auto simp: mib.keys_above_def store_get_def btree_get_None)
  then have "card (mib.keys_above s k) \<le> card (set (map fst (store_map s)))" by (intro card_mono) auto
  also have "\<dots> \<le> length (store_map s)" using card_length[of "map fst (store_map s)"] by simp
  finally show ?thesis .
qed

text \<open>C30: After any sequence of upserts, a lookup returns the value of the last upsert of that
  OID, and the successor lookup returns the entry with the least OID strictly above the given
  one, or nothing when there is none.\<close>

theorem store_behaves_as_ordered_map:
  "store_get (store_of us) oid = map_of (rev us) oid
   \<and> (store_next (store_of us) oid = Some (oid', v) \<longleftrightarrow>
        oid < oid' \<and> map_of (rev us) oid' = Some v \<and> (\<forall>l \<in> fst ` set us. oid < l \<longrightarrow> oid' \<le> l))
   \<and> (store_next (store_of us) oid = None \<longleftrightarrow> (\<forall>l \<in> fst ` set us. \<not> oid < l))"
proof -
  have m: "map_of (rev us) l \<noteq> None \<longleftrightarrow> l \<in> fst ` set us" for l
    using map_of_eq_None_iff[of "rev us" l] by simp
  show ?thesis
    unfolding mib.next_iff[OF store_of_wf] mib.next_None[OF store_of_wf] store_of_get
    using m by blast
qed

theorem store_behaves_as_ordered_map_witness:
  "store_next (store_of [(Oid_of [1, 3, 6], Integer32 1), (Oid_of [1, 3, 5], Integer32 2), (Oid_of [1, 3, 6], Integer32 3)])
     (Oid_of [1, 3, 5]) = Some (Oid_of [1, 3, 6], Integer32 3)"
proof -
  have o: "as_slice (Oid_of [1, 3, 5]) = [1, 3, 5]" "as_slice (Oid_of [1, 3, 6]) = [1, 3, 6]"
    by (simp_all add: Oid_of_inverse valid_components_def)
  have "Oid_of [1, 3, 5] < Oid_of [1, 3, 6]"
    by (simp add: less_Oid_def o)
  then show ?thesis
    using store_behaves_as_ordered_map[of "[(Oid_of [1, 3, 6], Integer32 1), (Oid_of [1, 3, 5], Integer32 2), (Oid_of [1, 3, 6], Integer32 3)]"
        "Oid_of [1, 3, 5]" "Oid_of [1, 3, 6]" "Integer32 3"]
    by simp
qed

text \<open>A walk by successor lookups from any OID visits every entry above it exactly once, in
  ascending order, and reaches the end within as many steps as the store has entries.\<close>

theorem walk_enumerates:
  assumes "store_wf s" "length (store_map s) \<le> n"
  shows "sorted_wrt (<) (map fst (walk store_next s n oid))
    \<and> set (walk store_next s n oid) = {(l, v). oid < l \<and> store_get s l = Some v}"
  using mib.walk_complete[OF assms(1)] card_keys_above_le[OF assms(1), of oid] assms(2) by simp

theorem walk_enumerates_witness:
  "set (walk store_next (store_of [(Oid_of [1, 3], Integer32 1)]) 1 (Oid_of [1, 2])) \<subseteq> {(Oid_of [1, 3], Integer32 1)}"
proof -
  have "length (store_map (store_of [(Oid_of [1, 3], Integer32 1)])) \<le> 1"
    by (simp add: store_of_def store_set_def store_new_def)
  from walk_enumerates[OF store_of_wf this, of "Oid_of [1, 2]"] show ?thesis
    by (auto simp: store_of_get split: if_splits)
qed

end
