(* ===== verification/Request.thy ===== *)
theory Request
  imports Mib Ber_Varbind
begin

text \<open>
  Request handling (\<open>src/src/transport/request.rs\<close>): GET, GETNEXT, GETBULK and SET against
  the MIB store, the wire size estimate that bounds a GETBULK response, and the construction
  of trap PDUs. The estimate is shown to bound the real encoding from above, and a GETBULK
  response to consist of whole rows of successive entries.
\<close>

section \<open>Definitions\<close>

text \<open>The two well-known OIDs; \<open>from_slice\<close> panics on invalid components, which these are not.\<close>

definition SYS_UP_TIME_OID :: Oid where
  "SYS_UP_TIME_OID = the (from_slice [1, 3, 6, 1, 2, 1, 1, 3, 0])"

definition SNMP_TRAP_OID_OID :: Oid where
  "SNMP_TRAP_OID_OID = the (from_slice [1, 3, 6, 1, 6, 3, 1, 1, 4, 1, 0])"

record TrapPdu =
  tp_request_id :: RequestId
  tp_trap_oid :: Oid
  tp_varbinds :: "Varbind list"

definition handle_get :: "GetRequest \<Rightarrow> Store \<Rightarrow> GetResponse" where
  "handle_get req store =
     (let varbinds = map (\<lambda>vb.
            let value = (case store_get store (vb_oid vb) of None \<Rightarrow> NoSuchObject | Some v \<Rightarrow> Value v)
            in \<lparr>vb_oid = vb_oid vb, vb_value = value\<rparr>) (get_varbinds req)
      in \<lparr>resp_request_id = get_request_id req, resp_error_status = NoError, resp_error_index = 0,
          resp_varbinds = varbinds\<rparr>)"

definition resolve_get_next_varbind :: "Store \<Rightarrow> Oid \<Rightarrow> Varbind" where
  "resolve_get_next_varbind store oid =
     (case store_next store oid of
        Some (next_oid, next_value) \<Rightarrow> \<lparr>vb_oid = next_oid, vb_value = Value next_value\<rparr>
      | None \<Rightarrow> \<lparr>vb_oid = oid, vb_value = EndOfMibView\<rparr>)"

definition handle_get_next :: "GetNextRequest \<Rightarrow> Store \<Rightarrow> GetResponse" where
  "handle_get_next req store =
     (let varbinds = map (\<lambda>vb. resolve_get_next_varbind store (vb_oid vb)) (getnext_varbinds req)
      in \<lparr>resp_request_id = getnext_request_id req, resp_error_status = NoError, resp_error_index = 0,
          resp_varbinds = varbinds\<rparr>)"

definition V3_ENVELOPE_OVERHEAD :: nat where
  "V3_ENVELOPE_OVERHEAD = 512"

definition length_of_length :: "nat \<Rightarrow> nat" where
  "length_of_length content_length =
     (if content_length < 128 then 1
      else
        let significant_bytes = (64 - usize_leading_zeros content_length + 7) div 8
        in 1 + (if significant_bytes \<le> 255 then significant_bytes else 255))"

fun value_content_upper_bound :: "VarbindValue \<Rightarrow> nat" where
  "value_content_upper_bound (Value (Integer32 _)) = 4"
| "value_content_upper_bound (Value (IpAddress _)) = 4"
| "value_content_upper_bound (Value (Counter32 _)) = 5"
| "value_content_upper_bound (Value (Gauge32 _)) = 5"
| "value_content_upper_bound (Value (TimeTicks _)) = 5"
| "value_content_upper_bound (Value (Counter64 _)) = 9"
| "value_content_upper_bound (Value (OctetString octets)) = length octets"
| "value_content_upper_bound (Value (Opaque octets)) = length octets"
| "value_content_upper_bound (Value (ObjectIdentifier oid)) = length (as_slice oid) * 5"
| "value_content_upper_bound NoSuchObject = 0"
| "value_content_upper_bound NoSuchInstance = 0"
| "value_content_upper_bound EndOfMibView = 0"
| "value_content_upper_bound Unspecified = 0"

definition estimated_varbind_wire_size :: "Varbind \<Rightarrow> nat" where
  "estimated_varbind_wire_size varbind =
     (let oid_content_upper_bound = length (as_slice (vb_oid varbind)) * 5;
          oid_tlv_size = 1 + length_of_length oid_content_upper_bound + oid_content_upper_bound;
          value_bound = value_content_upper_bound (vb_value varbind);
          value_tlv_size = 1 + length_of_length value_bound + value_bound;
          inner_size = oid_tlv_size + value_tlv_size
      in 1 + length_of_length inner_size + inner_size)"

record RepeatingRow =
  row_varbinds :: "Varbind list"
  row_estimated_size :: nat
  row_all_end_of_mib :: bool

text \<open>The columns advance in order; the second component is \<open>current_oids\<close> after the row.\<close>

fun build_row_loop :: "Store \<Rightarrow> Oid list \<Rightarrow> RepeatingRow \<Rightarrow> RepeatingRow \<times> Oid list" where
  "build_row_loop store [] row = (row, [])"
| "build_row_loop store (current_oid # oids) row =
     (let resolved = resolve_get_next_varbind store current_oid;
          is_value = (case vb_value resolved of Value _ \<Rightarrow> True | _ \<Rightarrow> False);
          current_oid = (if is_value then vb_oid resolved else current_oid);
          row = \<lparr>row_varbinds = row_varbinds row @ [resolved],
                 row_estimated_size = row_estimated_size row + estimated_varbind_wire_size resolved,
                 row_all_end_of_mib = (if is_value then False else row_all_end_of_mib row)\<rparr>;
          (row, oids) = build_row_loop store oids row
      in (row, current_oid # oids))"

definition build_repeating_row :: "Store \<Rightarrow> Oid list \<Rightarrow> RepeatingRow \<times> Oid list" where
  "build_repeating_row store current_oids =
     build_row_loop store current_oids
       \<lparr>row_varbinds = [], row_estimated_size = 0, row_all_end_of_mib = True\<rparr>"

text \<open>The loop over repetitions: it stops when the next row would exceed the budget, and after a
  row in which every column has ended.\<close>

fun bulk_rows :: "Store \<Rightarrow> nat \<Rightarrow> nat \<Rightarrow> Oid list \<Rightarrow> nat \<Rightarrow> Varbind list \<Rightarrow> Varbind list" where
  "bulk_rows store varbind_budget 0 current_oids estimated_response_size response_varbinds = response_varbinds"
| "bulk_rows store varbind_budget (Suc n) current_oids estimated_response_size response_varbinds =
     (let (row, current_oids) = build_repeating_row store current_oids
      in if estimated_response_size + row_estimated_size row > varbind_budget then response_varbinds
         else
           let estimated_response_size = estimated_response_size + row_estimated_size row;
               response_varbinds = response_varbinds @ row_varbinds row
           in if row_all_end_of_mib row then response_varbinds
              else bulk_rows store varbind_budget n current_oids estimated_response_size response_varbinds)"

definition handle_get_bulk :: "GetBulkRequest \<Rightarrow> Store \<Rightarrow> u32 \<Rightarrow> nat \<Rightarrow> GetResponse" where
  "handle_get_bulk req store max_repetitions_cap max_response_size =
     (let varbind_count = length (bulk_varbinds req);
          non_repeaters = min (unat (bulk_non_repeaters req)) varbind_count;
          max_repetitions = min (bulk_max_repetitions req) max_repetitions_cap;
          varbind_budget = max_response_size - V3_ENVELOPE_OVERHEAD;
          non_repeating_varbinds = take non_repeaters (bulk_varbinds req);
          repeating_varbinds = drop non_repeaters (bulk_varbinds req);
          response_varbinds = map (\<lambda>vb. resolve_get_next_varbind store (vb_oid vb)) non_repeating_varbinds;
          estimated_response_size = sum_list (map estimated_varbind_wire_size response_varbinds);
          response_varbinds =
            (if repeating_varbinds \<noteq> [] \<and> max_repetitions > 0
             then bulk_rows store varbind_budget (unat max_repetitions) (map vb_oid repeating_varbinds)
                    estimated_response_size response_varbinds
             else response_varbinds)
      in \<lparr>resp_request_id = bulk_request_id req, resp_error_status = NoError, resp_error_index = 0,
          resp_varbinds = response_varbinds\<rparr>)"

definition handle_set :: "SetRequest \<Rightarrow> GetResponse" where
  "handle_set req =
     \<lparr>resp_request_id = set_request_id req, resp_error_status = NotWritable, resp_error_index = 1,
      resp_varbinds = set_varbinds req\<rparr>"

text \<open>The clock is an argument: milliseconds elapsed since \<open>start_time\<close>.\<close>

definition elapsed_hundredths :: "nat \<Rightarrow> u32" where
  "elapsed_hundredths elapsed_millis = word_of_nat (min (elapsed_millis div 10) 4294967295)"

definition build_wire_trap :: "TrapPdu \<Rightarrow> nat \<Rightarrow> WireTrapPdu" where
  "build_wire_trap api_pdu elapsed_millis =
     (let sys_up_time = elapsed_hundredths elapsed_millis;
          varbinds = [\<lparr>vb_oid = SYS_UP_TIME_OID, vb_value = Value (TimeTicks sys_up_time)\<rparr>,
                      \<lparr>vb_oid = SNMP_TRAP_OID_OID, vb_value = Value (ObjectIdentifier (tp_trap_oid api_pdu))\<rparr>]
                     @ tp_varbinds api_pdu
      in \<lparr>trap_request_id = tp_request_id api_pdu, trap_varbinds = varbinds\<rparr>)"

section \<open>The size estimate\<close>

lemma length_of_length_exact:
  assumes "n < usize_limit"
  shows "length_of_length n = length (encode_length [] n)"
proof (cases "n < 128")
  case True
  then show ?thesis by (simp add: length_of_length_def encode_length_def)
next
  case False
  then have n: "127 < n" by simp
  have b: "bit_len n \<le> 64" using assms by (simp add: bit_len_le_iff)
  have "(64 - usize_leading_zeros n + 7) div 8 = length_octets n"
    using b by (simp add: usize_leading_zeros_def length_octets_def)
  then show ?thesis
    using False length_octets_bounds(2)[OF n assms] encode_length_long[OF n]
    by (simp add: length_of_length_def Let_def)
qed

lemma length_of_length_mono: "m \<le> n \<Longrightarrow> n < usize_limit \<Longrightarrow> length_of_length m \<le> length_of_length n"
proof -
  assume mn: "m \<le> n" "n < usize_limit"
  have "bit_len m \<le> bit_len n"
    using less_bit_len[of n] mn(1) bit_len_le_iff[of m "bit_len n"] bit_len_le_iff[of n "bit_len n"] by simp
  moreover have "bit_len n \<le> 64" using mn(2) by (simp add: bit_len_le_iff)
  moreover have "0 < bit_len n" if "0 < n" using bit_len_le_iff[of n 0] that by auto
  ultimately show ?thesis using mn
    by (simp add: length_of_length_def usize_leading_zeros_def Let_def) linarith
qed

lemma length_tlv_bound:
  assumes "length v \<le> b" "b < usize_limit"
  shows "length (tlv tag v) \<le> 1 + length_of_length b + b"
  using assms length_of_length_mono[OF assms] length_of_length_exact[of "length v"]
  by (simp add: length_tlv)

lemma length_base128_groups:
  "unat v < 128 ^ n \<Longrightarrow> length (base128_groups v) \<le> n"
proof (induction n arbitrary: v)
  case 0
  then have "v = 0" by (simp add: word_unat_eq_iff)
  then show ?case by (simp add: base128_groups.simps)
next
  case (Suc n)
  have "unat (drop_bit 7 v) < 128 ^ n"
    using Suc.prems by (simp add: drop_bit_eq_div unat_div_distrib less_mult_imp_div_less mult.commute)
  then show ?case using Suc.IH[of "drop_bit 7 v"] by (subst base128_groups.simps) auto
qed

lemma length_encode_base128: "unat v < 34359738368 \<Longrightarrow> length (encode_base128 [] v) \<le> 5"
  using length_base128_groups[of v 5] by (simp add: encode_base128_def Let_def)

lemma length_encode_oid: "length (encode_oid oid) \<le> 5 * (length (as_slice oid) - 1)"
proof -
  obtain a b arcs where d: "as_slice oid = a # b # arcs" "unat a \<le> 2"
    by (rule oid_arcs_cases)
  have e: "encode_oid oid = encode_base128 [] (combine_arcs a b) @ concat (map (\<lambda>arc. encode_base128 [] (ucast arc)) arcs)"
    using d(1) by (simp add: encode_oid_def decompose_def combine_arcs_def encode_oid_concat)
  have u: "unat (ucast b :: u64) < 4294967296" "unat (ucast a :: u64) \<le> 2"
    using unat_i32_less[of b] d(2) by (simp_all only: unat_ucast_up_u64)
  have m: "unat (ucast a * 40 :: u64) = unat (ucast a :: u64) * 40"
    using u(2) by (simp add: unat_word_ariths)
  have "unat (combine_arcs a b) = unat (ucast a :: u64) * 40 + unat (ucast b :: u64)"
    using u unfolding combine_arcs_def by (simp add: unat_word_ariths(1)[of "ucast a * 40"] m)
  then have "length (encode_base128 [] (combine_arcs a b)) \<le> 5"
    using u by (intro length_encode_base128) linarith
  moreover have "length (concat (map (\<lambda>arc. encode_base128 [] (ucast arc)) arcs)) \<le> 5 * length arcs"
  proof (induction arcs)
    case (Cons c arcs)
    have "length (encode_base128 [] (ucast c)) \<le> 5"
      using unat_i32_less[of c] by (intro length_encode_base128) (simp only: unat_ucast_up_u64)
    then show ?case using Cons by simp
  qed simp
  ultimately show ?thesis using d(1) by (simp add: e)
qed

lemma length_wire_contents: "length (wire_contents v) \<le> value_content_upper_bound v"
proof (cases v rule: varbind_value_cases)
  case (6 oid)
  then show ?thesis using length_encode_oid[of oid] by simp
qed (simp_all add: length_encode_signed_i32 length_encode_unsigned)

definition varbind_size_ok :: "Varbind \<Rightarrow> bool" where
  "varbind_size_ok vb \<longleftrightarrow> estimated_varbind_wire_size vb < usize_limit"

lemma wire_size_bound:
  assumes "varbind_size_ok vb"
  shows "length (wire_varbind vb) \<le> estimated_varbind_wire_size vb"
proof -
  let ?o = "length (as_slice (vb_oid vb)) * 5" and ?v = "value_content_upper_bound (vb_value vb)"
  let ?i = "(1 + length_of_length ?o + ?o) + (1 + length_of_length ?v + ?v)"
  have e: "estimated_varbind_wire_size vb = 1 + length_of_length ?i + ?i"
    by (simp add: estimated_varbind_wire_size_def Let_def)
  then have b: "?o < usize_limit" "?v < usize_limit" "?i < usize_limit"
    using assms by (simp_all add: varbind_size_ok_def)
  have "length (encode_oid (vb_oid vb)) \<le> ?o" using length_encode_oid[of "vb_oid vb"] by simp
  from length_tlv_bound[OF this b(1), of TAG_OID]
    length_tlv_bound[OF length_wire_contents b(2), of "wire_tag (vb_value vb)"]
  have "length (tlv TAG_OID (encode_oid (vb_oid vb)) @ tlv (wire_tag (vb_value vb)) (wire_contents (vb_value vb))) \<le> ?i"
    by simp
  from length_tlv_bound[OF this b(3), of TAG_SEQUENCE] show ?thesis
    unfolding wire_varbind_tlv e .
qed

section \<open>GETBULK row by row\<close>

text \<open>The reference: row \<open>i\<close> resolves, for each column, the \<open>i\<close>-th successor of its starting OID; an
  OID without a successor stays where it is.\<close>

definition successor_oid :: "Store \<Rightarrow> Oid \<Rightarrow> Oid" where
  "successor_oid store oid = (case store_next store oid of Some (n, _) \<Rightarrow> n | None \<Rightarrow> oid)"

definition bulk_row :: "Store \<Rightarrow> Oid list \<Rightarrow> nat \<Rightarrow> Varbind list" where
  "bulk_row store oids i = map (\<lambda>oid. resolve_get_next_varbind store ((successor_oid store ^^ i) oid)) oids"

definition est_size :: "Varbind list \<Rightarrow> nat" where
  "est_size vbs = sum_list (map estimated_varbind_wire_size vbs)"

definition all_ended :: "Varbind list \<Rightarrow> bool" where
  "all_ended vbs \<longleftrightarrow> (\<forall>vb \<in> set vbs. vb_value vb = EndOfMibView)"

lemma resolve_cases:
  "vb_oid (resolve_get_next_varbind store oid) = successor_oid store oid"
  "(case vb_value (resolve_get_next_varbind store oid) of Value _ \<Rightarrow> True | _ \<Rightarrow> False)
     \<longleftrightarrow> vb_value (resolve_get_next_varbind store oid) \<noteq> EndOfMibView"
  "vb_value (resolve_get_next_varbind store oid) = EndOfMibView \<Longrightarrow> successor_oid store oid = oid"
  by (auto simp: resolve_get_next_varbind_def successor_oid_def split: option.splits)

lemma build_row_loop_spec:
  "build_row_loop store oids row =
    (\<lparr>row_varbinds = row_varbinds row @ bulk_row store oids 0,
      row_estimated_size = row_estimated_size row + est_size (bulk_row store oids 0),
      row_all_end_of_mib = (row_all_end_of_mib row \<and> all_ended (bulk_row store oids 0))\<rparr>,
     map (successor_oid store) oids)"
proof (induction oids arbitrary: row)
  case Nil
  then show ?case by (simp add: bulk_row_def est_size_def all_ended_def)
next
  case (Cons oid oids)
  let ?v = "resolve_get_next_varbind store oid"
  have c: "(if vb_value ?v \<noteq> EndOfMibView then vb_oid ?v else oid) = successor_oid store oid"
    using resolve_cases(1,3)[of store oid] by auto
  show ?case
    by (auto simp: Let_def resolve_cases(2) c Cons.IH) (simp_all add: bulk_row_def est_size_def all_ended_def)
qed

lemma build_repeating_row_spec:
  "build_repeating_row store oids =
    (\<lparr>row_varbinds = bulk_row store oids 0, row_estimated_size = est_size (bulk_row store oids 0),
      row_all_end_of_mib = all_ended (bulk_row store oids 0)\<rparr>, map (successor_oid store) oids)"
  by (simp add: build_repeating_row_def build_row_loop_spec)

lemma bulk_row_shift: "bulk_row store (map (successor_oid store) oids) i = bulk_row store oids (Suc i)"
  by (simp add: bulk_row_def funpow_swap1)

text \<open>How many rows are committed, and why the loop stops there.\<close>

definition rows_committed :: "Store \<Rightarrow> Oid list \<Rightarrow> nat \<Rightarrow> nat \<Rightarrow> nat \<Rightarrow> nat \<Rightarrow> bool" where
  "rows_committed store oids budget est n k \<longleftrightarrow>
     k \<le> n
   \<and> (0 < k \<longrightarrow> est + est_size (concat (map (bulk_row store oids) [0..<k])) \<le> budget)
   \<and> (\<forall>i. Suc i < k \<longrightarrow> \<not> all_ended (bulk_row store oids i))
   \<and> (k < n \<longrightarrow> est + est_size (concat (map (bulk_row store oids) [0..<Suc k])) > budget
        \<or> 0 < k \<and> all_ended (bulk_row store oids (k - 1)))"

lemma est_size_append [simp]: "est_size (xs @ ys) = est_size xs + est_size ys"
  by (simp add: est_size_def)

lemma concat_rows_Suc:
  "concat (map (bulk_row store oids) [0..<Suc k]) =
     bulk_row store oids 0 @ concat (map (bulk_row store (map (successor_oid store) oids)) [0..<k])"
proof -
  have "map (bulk_row store oids) [0..<Suc k] = bulk_row store oids 0 # map (bulk_row store oids \<circ> Suc) [0..<k]"
    by (simp only: upt_conv_Cons[OF zero_less_Suc] map_Suc_upt[symmetric] map_map list.map)
  then show ?thesis by (simp add: comp_def bulk_row_shift[symmetric])
qed

lemma bulk_rows_spec:
  "\<exists>k. rows_committed store oids budget est n k
     \<and> bulk_rows store budget n oids est acc = acc @ concat (map (bulk_row store oids) [0..<k])"
proof (induction n arbitrary: oids est acc)
  case 0
  then show ?case by (intro exI[of _ 0]) (simp add: rows_committed_def)
next
  case (Suc n)
  let ?r = "bulk_row store oids 0" let ?next = "map (successor_oid store) oids"
  consider (over) "est + est_size ?r > budget"
    | (last) "est + est_size ?r \<le> budget" "all_ended ?r"
    | (more) "est + est_size ?r \<le> budget" "\<not> all_ended ?r" by linarith
  then show ?case
  proof cases
    case over
    then show ?thesis
      by (intro exI[of _ 0]) (simp add: rows_committed_def build_repeating_row_spec)
  next
    case last
    then show ?thesis
      by (intro exI[of _ 1]) (simp add: rows_committed_def build_repeating_row_spec not_less)
  next
    case more
    from Suc.IH[of ?next "est + est_size ?r" "acc @ ?r"] obtain k where
      k: "rows_committed store ?next budget (est + est_size ?r) n k"
      "bulk_rows store budget n ?next (est + est_size ?r) (acc @ ?r)
         = (acc @ ?r) @ concat (map (bulk_row store ?next) [0..<k])"
      by blast
    have e: "bulk_rows store budget (Suc n) oids est acc = acc @ concat (map (bulk_row store oids) [0..<Suc k])"
      using more k(2) unfolding concat_rows_Suc by (simp add: build_repeating_row_spec not_less)
    have "rows_committed store oids budget est (Suc n) (Suc k)"
      unfolding rows_committed_def
    proof (intro conjI impI allI)
      show "Suc k \<le> Suc n" using k(1) by (simp add: rows_committed_def)
      show "est + est_size (concat (map (bulk_row store oids) [0..<Suc k])) \<le> budget"
        using k(1) more(1) unfolding concat_rows_Suc rows_committed_def by (cases k) (simp_all add: add.assoc)
      show "\<not> all_ended (bulk_row store oids i)" if "Suc i < Suc k" for i
      proof (cases i)
        case 0
        then show ?thesis using more(2) by simp
      next
        case (Suc j)
        then have "\<not> all_ended (bulk_row store ?next j)" using k(1) that by (simp add: rows_committed_def)
        then show ?thesis using Suc bulk_row_shift[of store oids j] by simp
      qed
      show "est + est_size (concat (map (bulk_row store oids) [0..<Suc (Suc k)])) > budget
          \<or> 0 < Suc k \<and> all_ended (bulk_row store oids (Suc k - 1))" if "Suc k < Suc n"
        using k(1) that bulk_row_shift[of store oids "k - 1"]
        unfolding concat_rows_Suc[of store oids "Suc k"] rows_committed_def
        by (cases k) (auto simp: add.assoc)
    qed
    with e show ?thesis by blast
  qed
qed

lemma handle_get_bulk_rows:
  fixes req :: GetBulkRequest and store :: Store and cap :: u32
  defines "nr \<equiv> min (unat (bulk_non_repeaters req)) (length (bulk_varbinds req))"
  defines "head \<equiv> map (\<lambda>vb. resolve_get_next_varbind store (vb_oid vb)) (take nr (bulk_varbinds req))"
  defines "oids \<equiv> map vb_oid (drop nr (bulk_varbinds req))"
  defines "reps \<equiv> min (unat (bulk_max_repetitions req)) (unat cap)"
  shows "\<exists>k. resp_varbinds (handle_get_bulk req store cap max_size)
      = head @ concat (map (bulk_row store oids) [0..<k])
    \<and> (oids \<noteq> [] \<longrightarrow> rows_committed store oids (max_size - V3_ENVELOPE_OVERHEAD) (est_size head) reps k)
    \<and> (oids = [] \<longrightarrow> k = 0)"
proof -
  have m: "unat (min (bulk_max_repetitions req) cap) = reps"
    by (simp add: reps_def min_def word_le_nat_alt)
  obtain k where k: "rows_committed store oids (max_size - V3_ENVELOPE_OVERHEAD) (est_size head) reps k"
    "bulk_rows store (max_size - V3_ENVELOPE_OVERHEAD) reps oids (est_size head) head
       = head @ concat (map (bulk_row store oids) [0..<k])"
    using bulk_rows_spec by blast
  have z: "min (bulk_max_repetitions req) cap > 0 \<longleftrightarrow> reps > 0"
    using m by (metis word_gt_0 unat_eq_zero gr0I not_gr_zero)
  show ?thesis
  proof (cases "oids \<noteq> [] \<and> reps > 0")
    case True
    then show ?thesis using k m z
      by (intro exI[of _ k])
        (auto simp: handle_get_bulk_def Let_def head_def oids_def nr_def est_size_def)
  next
    case False
    then have "resp_varbinds (handle_get_bulk req store cap max_size) = head"
      using z by (auto simp: handle_get_bulk_def Let_def head_def oids_def nr_def)
    moreover have "oids \<noteq> [] \<longrightarrow> rows_committed store oids (max_size - V3_ENVELOPE_OVERHEAD) (est_size head) reps 0"
      using False by (auto simp: rows_committed_def)
    ultimately show ?thesis by (intro exI[of _ 0]) simp
  qed
qed

lemma est_size_member: "vb \<in> set vbs \<Longrightarrow> estimated_varbind_wire_size vb \<le> est_size vbs"
  by (induction vbs) (auto simp: est_size_def)

lemma encoded_le_est_size:
  "est_size vbs < usize_limit \<Longrightarrow> length (concat (map wire_varbind vbs)) \<le> est_size vbs"
proof (induction vbs)
  case (Cons vb vbs)
  then have "varbind_size_ok vb" "length (concat (map wire_varbind vbs)) \<le> est_size vbs"
    by (simp_all add: est_size_def varbind_size_ok_def)
  then show ?case using wire_size_bound[of vb] by (simp add: est_size_def)
qed (simp add: est_size_def)

lemma handle_get_bulk_bounded:
  assumes "max_size < 2 ^ 64"
    and "head = map (\<lambda>vb. resolve_get_next_varbind store (vb_oid vb))
           (take (min (unat (bulk_non_repeaters req)) (length (bulk_varbinds req))) (bulk_varbinds req))"
  shows "if est_size head \<le> max_size - 512
    then length (concat (map wire_varbind (resp_varbinds (handle_get_bulk req store cap max_size)))) \<le> max_size - 512
    else resp_varbinds (handle_get_bulk req store cap max_size) = head"
proof -
  let ?oids = "map vb_oid (drop (min (unat (bulk_non_repeaters req)) (length (bulk_varbinds req))) (bulk_varbinds req))"
  obtain k where r: "resp_varbinds (handle_get_bulk req store cap max_size)
        = head @ concat (map (bulk_row store ?oids) [0..<k])"
    and c: "?oids \<noteq> [] \<longrightarrow> rows_committed store ?oids (max_size - 512) (est_size head)
        (min (unat (bulk_max_repetitions req)) (unat cap)) k" "?oids = [] \<longrightarrow> k = 0"
    using handle_get_bulk_rows[of req store cap max_size] unfolding assms(2) V3_ENVELOPE_OVERHEAD_def by blast
  have k: "k = 0 \<or> est_size head + est_size (concat (map (bulk_row store ?oids) [0..<k])) \<le> max_size - 512"
    using c by (cases "?oids = []") (auto simp: rows_committed_def)
  show ?thesis
  proof (cases "est_size head \<le> max_size - 512")
    case True
    then have "est_size (head @ concat (map (bulk_row store ?oids) [0..<k])) \<le> max_size - 512"
      using k by (auto simp: est_size_def)
    moreover have "max_size - 512 < usize_limit" using assms(1) by simp
    ultimately show ?thesis using True encoded_le_est_size[of "head @ concat (map (bulk_row store ?oids) [0..<k])"]
      unfolding r by simp
  next
    case False
    then have "k = 0" using k by linarith
    then show ?thesis using False r by simp
  qed
qed

section \<open>Properties\<close>

text \<open>The size estimate of a varbind is never below the length of its encoding, for every
  value type; its length-of-length helper is exactly the length of the encoder's length field.\<close>

theorem size_estimate_sound:
  assumes "estimated_varbind_wire_size vb < 2 ^ 64" "n < 2 ^ 64"
  shows "encode_varbind_value (vb_value vb) = Inr t \<Longrightarrow>
      length (encode_varbind (vb_oid vb) t) \<le> estimated_varbind_wire_size vb
      \<and> length_of_length n = length (encode_length [] n)"
  using wire_size_bound[of vb] length_of_length_exact[of n] assms
  by (simp add: encode_varbind_value_tlv varbind_size_ok_def wire_varbind_def)

theorem size_estimate_sound_witness:
  "\<exists>t. encode_varbind_value (Value (Integer32 70000)) = Inr t
     \<and> length (encode_varbind (Oid_of [1, 3]) t)
         \<le> estimated_varbind_wire_size \<lparr>vb_oid = Oid_of [1, 3], vb_value = Value (Integer32 70000)\<rparr>"
proof -
  let ?vb = "\<lparr>vb_oid = Oid_of [1, 3], vb_value = Value (Integer32 70000)\<rparr>"
  have "as_slice (Oid_of [1, 3]) = [1, 3]" by (simp add: Oid_of_inverse valid_components_def)
  then have "estimated_varbind_wire_size ?vb < 2 ^ 64"
    by (simp add: estimated_varbind_wire_size_def length_of_length_def)
  from size_estimate_sound[OF this, of 0] show ?thesis by (simp add: encode_varbind_value_tlv)
qed

text \<open>C31: A GETBULK response is the successors of the non-repeating varbinds followed by \<open>k\<close> whole
  rows, row \<open>i\<close> holding for each repeating varbind the entry after its \<open>i\<close>-th successor or
  \<open>EndOfMibView\<close>. \<open>k\<close> is at most the requested repetitions and the cap, no row follows one in
  which every column has ended, and if fewer rows than allowed are returned then either all
  columns have ended or the next row would exceed the size budget.\<close>

theorem get_bulk_whole_rows:
  assumes "nr = min (unat (bulk_non_repeaters req)) (length (bulk_varbinds req))"
    and "nr < length (bulk_varbinds req)"
  shows "\<exists>k. resp_varbinds (handle_get_bulk req store cap max_size)
        = map (\<lambda>vb. resolve_get_next_varbind store (vb_oid vb)) (take nr (bulk_varbinds req))
          @ concat (map (bulk_row store (map vb_oid (drop nr (bulk_varbinds req)))) [0..<k])
      \<and> rows_committed store (map vb_oid (drop nr (bulk_varbinds req))) (max_size - 512)
          (est_size (map (\<lambda>vb. resolve_get_next_varbind store (vb_oid vb)) (take nr (bulk_varbinds req))))
          (min (unat (bulk_max_repetitions req)) (unat cap)) k"
  using handle_get_bulk_rows[of req store cap max_size] assms
  by (auto simp: V3_ENVELOPE_OVERHEAD_def)

theorem get_bulk_whole_rows_witness:
  "\<exists>k. resp_varbinds (handle_get_bulk \<lparr>bulk_request_id = RequestId 1, bulk_non_repeaters = 0,
        bulk_max_repetitions = 5, bulk_varbinds = [\<lparr>vb_oid = Oid_of [1, 3], vb_value = Unspecified\<rparr>]\<rparr>
        store_new 10 1500)
      = concat (map (bulk_row store_new [Oid_of [1, 3]]) [0..<k])
     \<and> k \<le> 5"
  using get_bulk_whole_rows[of 0 "\<lparr>bulk_request_id = RequestId 1, bulk_non_repeaters = 0,
        bulk_max_repetitions = 5, bulk_varbinds = [\<lparr>vb_oid = Oid_of [1, 3], vb_value = Unspecified\<rparr>]\<rparr>"
      store_new 10 1500]
  by (auto simp: rows_committed_def)

text \<open>The encoded varbinds of a GETBULK response fit in the response size less the envelope
  allowance, unless the non-repeating section alone is estimated to exceed it, in which case no
  repetition is added.\<close>

theorem get_bulk_size_bounded:
  assumes "max_size < 2 ^ 64"
    and "head = map (\<lambda>vb. resolve_get_next_varbind store (vb_oid vb))
           (take (min (unat (bulk_non_repeaters req)) (length (bulk_varbinds req))) (bulk_varbinds req))"
  shows "if est_size head \<le> max_size - 512
    then length (concat (map wire_varbind (resp_varbinds (handle_get_bulk req store cap max_size)))) \<le> max_size - 512
    else resp_varbinds (handle_get_bulk req store cap max_size) = head"
  using assms by (rule handle_get_bulk_bounded)

theorem get_bulk_size_bounded_witness:
  "length (concat (map wire_varbind (resp_varbinds (handle_get_bulk \<lparr>bulk_request_id = RequestId 1,
     bulk_non_repeaters = 0, bulk_max_repetitions = 5,
     bulk_varbinds = [\<lparr>vb_oid = Oid_of [1, 3], vb_value = Unspecified\<rparr>]\<rparr> store_new 10 1500)))) \<le> 988"
  using get_bulk_size_bounded[of 1500 "[]" store_new "\<lparr>bulk_request_id = RequestId 1, bulk_non_repeaters = 0,
        bulk_max_repetitions = 5, bulk_varbinds = [\<lparr>vb_oid = Oid_of [1, 3], vb_value = Unspecified\<rparr>]\<rparr>" 10]
  by (simp add: est_size_def)

text \<open>C33: GET and GETNEXT answer every requested varbind in order and never report an error: GET
  with the stored value or \<open>NoSuchObject\<close> under the requested name, GETNEXT with the entry of
  the least stored OID above the requested one, or \<open>EndOfMibView\<close> under the requested name.\<close>

theorem get_and_get_next_correct:
  assumes "store_wf s"
  shows "map vb_oid (resp_varbinds (handle_get g s)) = map vb_oid (get_varbinds g)
    \<and> (\<forall>vb \<in> set (resp_varbinds (handle_get g s)).
         vb_value vb = (case store_get s (vb_oid vb) of None \<Rightarrow> NoSuchObject | Some v \<Rightarrow> Value v))
    \<and> length (resp_varbinds (handle_get_next n s)) = length (getnext_varbinds n)
    \<and> (\<forall>i < length (getnext_varbinds n). let q = vb_oid (getnext_varbinds n ! i); a = resp_varbinds (handle_get_next n s) ! i in
         (\<exists>v. vb_value a = Value v \<and> q < vb_oid a \<and> store_get s (vb_oid a) = Some v
            \<and> (\<forall>l. q < l \<longrightarrow> store_get s l \<noteq> None \<longrightarrow> vb_oid a \<le> l))
         \<or> vb_value a = EndOfMibView \<and> vb_oid a = q \<and> (\<forall>l. q < l \<longrightarrow> store_get s l = None))
    \<and> resp_error_status (handle_get g s) = NoError \<and> resp_error_status (handle_get_next n s) = NoError"
proof -
  have "(\<exists>v. vb_value a = Value v \<and> q < vb_oid a \<and> store_get s (vb_oid a) = Some v
      \<and> (\<forall>l. q < l \<longrightarrow> store_get s l \<noteq> None \<longrightarrow> vb_oid a \<le> l))
    \<or> vb_value a = EndOfMibView \<and> vb_oid a = q \<and> (\<forall>l. q < l \<longrightarrow> store_get s l = None)"
    if "a = resolve_get_next_varbind s q" for a q
  proof (cases "store_next s q")
    case None
    then show ?thesis using mib.next_None[OF assms, of q] that by (simp add: resolve_get_next_varbind_def)
  next
    case (Some p)
    then obtain k v where "store_next s q = Some (k, v)" by (cases p) auto
    then show ?thesis using mib.next_Some[OF assms, of q k v] that by (simp add: resolve_get_next_varbind_def)
  qed
  then show ?thesis
    by (simp add: handle_get_def handle_get_next_def Let_def comp_def)
qed

theorem get_and_get_next_correct_witness:
  "map vb_oid (resp_varbinds (handle_get \<lparr>get_request_id = RequestId 1,
      get_varbinds = [\<lparr>vb_oid = Oid_of [1, 3], vb_value = Unspecified\<rparr>]\<rparr> (store_of [(Oid_of [1, 3], Integer32 4)])))
     = [Oid_of [1, 3]]"
  using get_and_get_next_correct[OF store_of_wf, of "\<lparr>get_request_id = RequestId 1,
      get_varbinds = [\<lparr>vb_oid = Oid_of [1, 3], vb_value = Unspecified\<rparr>]\<rparr>" "[(Oid_of [1, 3], Integer32 4)]"]
  by simp

end
