(* ===== verification/Usm_Engine.thy ===== *)
theory Usm_Engine
  imports Usm_User
begin

text \<open>
  Engine boots and time, the time window, the statistics counters and the persistence of the
  boots counter (\<open>src/src/usm/engine_time.rs\<close>, \<open>time_window.rs\<close>, \<open>counters.rs\<close>,
  \<open>boots.rs\<close>). The storage trait is the locale \<open>boots_store\<close>; the file store is modelled on
  a file system whose operations may fail at any step, and interprets the locale.
\<close>

section \<open>Boots, time and counters\<close>

datatype EngineBoots = EngineBoots (engine_boots_u32: u32)

definition EngineBoots_CEILING :: u32 where "EngineBoots_CEILING = 0x7FFFFFFF"

definition EngineBoots_ZERO :: EngineBoots where "EngineBoots_ZERO = EngineBoots 0"

definition is_at_ceiling :: "EngineBoots \<Rightarrow> bool" where
  "is_at_ceiling b \<longleftrightarrow> EngineBoots_CEILING \<le> engine_boots_u32 b"

definition boots_saturating_increment :: "EngineBoots \<Rightarrow> EngineBoots" where
  "boots_saturating_increment b = EngineBoots (min (engine_boots_u32 b) (EngineBoots_CEILING - 1) + 1)"

datatype EngineTime = EngineTime (engine_time_u32: u32)

definition EngineTime_ZERO :: EngineTime where "EngineTime_ZERO = EngineTime 0"

text \<open>The difference is taken in \<open>i64\<close>, where it cannot overflow.\<close>

definition is_in_time_window :: "EngineBoots \<Rightarrow> EngineTime \<Rightarrow> EngineBoots \<Rightarrow> EngineTime \<Rightarrow> bool" where
  "is_in_time_window msg_boots msg_time engine_boots engine_time =
     (if msg_boots \<noteq> engine_boots then False
      else
        let time_diff = nat \<bar>int (unat (engine_time_u32 msg_time)) - int (unat (engine_time_u32 engine_time))\<bar>
        in time_diff \<le> 150)"

datatype UsmStatsCounter = UsmStatsCounter (counter_get: u32)

definition counter_saturating_increment :: "UsmStatsCounter \<Rightarrow> UsmStatsCounter" where
  "counter_saturating_increment c =
     UsmStatsCounter (if unat (counter_get c) + 1 < 2 ^ 32 then counter_get c + 1 else 0xFFFFFFFF)"

section \<open>Boots persistence\<close>

definition MAX_ENGINE_BOOTS :: u32 where "MAX_ENGINE_BOOTS = EngineBoots_CEILING"

definition MAX_ENGINE_ID_LEN :: nat where "MAX_ENGINE_ID_LEN = 32"

record StoredBootsState =
  sb_engine_id :: bytes
  sb_boots :: u32

datatype io_error =
    IoFault
  | InvalidData string
  | InvalidInput string
  | BrokenPipe string

datatype InitBootsError = BootsAtCeiling | StoreError io_error

text \<open>The storage trait is the pair of functions \<open>load\<close> and \<open>save\<close> on a store state; both may
  change it.\<close>

type_synonym 's boots_load = "'s \<Rightarrow> (io_error + StoredBootsState option) \<times> 's"
type_synonym 's boots_save = "bytes \<Rightarrow> u32 \<Rightarrow> 's \<Rightarrow> (io_error + unit) \<times> 's"

definition initialise_engine_boots ::
  "'s boots_load \<Rightarrow> 's boots_save \<Rightarrow> bytes \<Rightarrow> 's \<Rightarrow> (InitBootsError + u32) \<times> 's" where
  "initialise_engine_boots load save engine_id st =
     (let save_and_return = (\<lambda>boots st.
            let (r, st) = save engine_id boots st
            in (rbind (map_err StoreError r) (\<lambda>_. Inr boots), st))
      in case load st of
           (Inl e, st) \<Rightarrow> (Inl (StoreError e), st)
         | (Inr None, st) \<Rightarrow> save_and_return 1 st
         | (Inr (Some state), st) \<Rightarrow>
             if sb_engine_id state = engine_id then
               if sb_boots state \<ge> MAX_ENGINE_BOOTS then (Inl BootsAtCeiling, st)
               else save_and_return (sb_boots state + 1) st
             else save_and_return 1 st)"

subsection \<open>The file store\<close>

text \<open>A path with its parent directory, file stem and extension; \<open>with_extension\<close> replaces the
  extension.\<close>

record fs_path =
  path_parent :: string
  path_stem :: string
  path_extension :: "string option"

definition with_extension :: "string \<Rightarrow> fs_path \<Rightarrow> fs_path" where
  "with_extension ext p = p\<lparr>path_extension := Some ext\<rparr>"

text \<open>The file system calls of the store, in order. A call may fail at one of them (every error
  returns at once); a failing write leaves an arbitrary prefix in the file.\<close>

datatype io_step = StepRead | StepCreate | StepWrite nat | StepSync | StepRename | StepOpenDir | StepSyncDir

type_synonym files = "fs_path \<rightharpoonup> bytes"

definition parse_boots_file :: "bytes \<Rightarrow> io_error + StoredBootsState" where
  "parse_boots_file file_data =
     (if length file_data < 4 then Inl (InvalidData ''unexpected length'')
      else
        let engine_id_len = be_nat (take 4 file_data);
            rest = drop 4 file_data
        in if engine_id_len > MAX_ENGINE_ID_LEN then Inl (InvalidData ''implausible engine ID length'')
           else
             let expected_remaining = engine_id_len + 4
             in if length rest \<noteq> expected_remaining then Inl (InvalidData ''unexpected length'')
                else
                  let engine_id_bytes = take engine_id_len rest;
                      boots_tail = drop engine_id_len rest
                  in if length boots_tail \<noteq> 4 then Inl (InvalidData ''unexpected length'')
                     else Inr \<lparr>sb_engine_id = engine_id_bytes, sb_boots = word_of_nat (be_nat boots_tail)\<rparr>)"

definition file_load :: "io_step option \<Rightarrow> fs_path \<Rightarrow> files boots_load" where
  "file_load fault path fs =
     (if fault = Some StepRead then (Inl IoFault, fs)
      else case fs path of
        None \<Rightarrow> (Inr None, fs)
      | Some file_data \<Rightarrow> (rbind (parse_boots_file file_data) (\<lambda>s. Inr (Some s)), fs))"

definition boots_record :: "bytes \<Rightarrow> u32 \<Rightarrow> bytes" where
  "boots_record engine_id boots = be_bytes 4 (length engine_id) @ engine_id @ be_bytes 4 (unat boots)"

definition file_save :: "io_step option \<Rightarrow> fs_path \<Rightarrow> files boots_save" where
  "file_save fault path engine_id boots fs =
     (let tmp_path = with_extension ''tmp'' path
      in if fault = Some StepCreate then (Inl IoFault, fs)
         else
           let fs = fs(tmp_path \<mapsto> [])
           in if length engine_id \<ge> 2 ^ 32 then (Inl (InvalidInput ''engine ID too long''), fs)
              else
                let record_bytes = boots_record engine_id boots
                in case fault of
                     Some (StepWrite n) \<Rightarrow> (Inl IoFault, fs(tmp_path \<mapsto> take n record_bytes))
                   | _ \<Rightarrow>
                       let fs = fs(tmp_path \<mapsto> record_bytes)
                       in if fault = Some StepSync \<or> fault = Some StepRename then (Inl IoFault, fs)
                          else
                            let fs = (fs(tmp_path := None))(path \<mapsto> record_bytes)
                            in if fault = Some StepOpenDir \<or> fault = Some StepSyncDir then (Inl IoFault, fs)
                               else (Inr (), fs))"

section \<open>The storage contract\<close>

text \<open>What the trait promises: a successful \<open>save\<close> of an engine ID of legal length is what the
  next \<open>load\<close> returns, and \<open>load\<close> changes nothing.\<close>

locale boots_store =
  fixes load :: "'s \<Rightarrow> (io_error + StoredBootsState option) \<times> 's"
    and save :: "bytes \<Rightarrow> u32 \<Rightarrow> 's \<Rightarrow> (io_error + unit) \<times> 's"
  assumes load_after_save: "length e \<le> 32 \<Longrightarrow> save e b st = (Inr (), st') \<Longrightarrow>
      fst (load st') = Inr (Some \<lparr>sb_engine_id = e, sb_boots = b\<rparr>)"
    and load_keeps: "snd (load st) = st"
begin

lemma init_saves:
  assumes "length e \<le> 32" "initialise_engine_boots load save e st = (Inr b, st')"
  shows "fst (load st') = Inr (Some \<lparr>sb_engine_id = e, sb_boots = b\<rparr>)"
proof -
  have "\<exists>st1. save e b st1 = (Inr (), st')"
    using assms(2) unfolding initialise_engine_boots_def Let_def
    by (auto simp: result_Inr_iffs split: prod.splits sum.splits option.splits if_splits)
  then show ?thesis using load_after_save[OF assms(1)] by blast
qed

lemma load_saved:
  assumes "length e \<le> 32" "initialise_engine_boots load save e st = (Inr b, st')"
  shows "load st' = (Inr (Some \<lparr>sb_engine_id = e, sb_boots = b\<rparr>), st')"
  using init_saves[OF assms] load_keeps[of st'] by (cases "load st'") simp

lemma init_again:
  assumes "length e \<le> 32" "initialise_engine_boots load save e st = (Inr b, st')"
  shows "initialise_engine_boots load save' e st' = (Inr b2, st2) \<Longrightarrow> b < MAX_ENGINE_BOOTS \<and> b2 = b + 1"
    and "b = MAX_ENGINE_BOOTS \<Longrightarrow> initialise_engine_boots load save' e st' = (Inl BootsAtCeiling, st')"
    and "e' \<noteq> e \<Longrightarrow> initialise_engine_boots load save' e' st' = (Inr b2, st2) \<Longrightarrow> b2 = 1"
  using load_saved[OF assms] unfolding initialise_engine_boots_def Let_def
  by (auto simp: result_Inr_iffs not_le split: prod.splits if_splits)

end

lemma init_result_range:
  assumes "initialise_engine_boots load save e st = (Inr b, st')"
  shows "1 \<le> unat b \<and> b \<le> MAX_ENGINE_BOOTS"
proof -
  have "b = 1 \<or> (\<exists>s. s < MAX_ENGINE_BOOTS \<and> b = s + 1)"
    using assms unfolding initialise_engine_boots_def Let_def
    by (auto simp: result_Inr_iffs not_le split: prod.splits sum.splits option.splits if_splits)
  then show ?thesis
  proof
    assume "b = 1"
    then show ?thesis by (simp add: MAX_ENGINE_BOOTS_def EngineBoots_CEILING_def word_le_nat_alt)
  next
    assume "\<exists>s. s < MAX_ENGINE_BOOTS \<and> b = s + 1"
    then obtain s where s: "unat s < 2147483647" "b = s + 1"
      by (auto simp: MAX_ENGINE_BOOTS_def EngineBoots_CEILING_def word_less_nat_alt)
    then have "unat b = unat s + 1" by (simp add: unat_word_ariths)
    then show ?thesis using s(1) by (simp add: MAX_ENGINE_BOOTS_def EngineBoots_CEILING_def word_le_nat_alt)
  qed
qed

lemma parse_boots_record:
  assumes "length e \<le> 32"
  shows "parse_boots_file (boots_record e b) = Inr \<lparr>sb_engine_id = e, sb_boots = b\<rparr>"
proof -
  have n: "be_nat (be_bytes 4 (length e)) = length e" using assms by (simp add: be_nat_be_bytes)
  have b: "be_nat (be_bytes 4 (unat b)) = unat b" using unat_i32_less[of b] by (simp add: be_nat_be_bytes)
  show ?thesis using assms
    by (simp add: parse_boots_file_def boots_record_def Let_def n b MAX_ENGINE_ID_LEN_def not_less)
qed

interpretation file_boots: boots_store "file_load None path" "file_save fault path" for fault path
proof
  fix e b st st'
  assume "length e \<le> 32" "file_save fault path e b st = (Inr (), st')"
  then have "st' path = Some (boots_record e b)"
    by (auto simp: file_save_def Let_def split: if_splits option.splits io_step.splits)
  then show "fst (file_load None path st') = Inr (Some \<lparr>sb_engine_id = e, sb_boots = b\<rparr>)"
    using \<open>length e \<le> 32\<close> by (simp add: file_load_def parse_boots_record)
next
  fix st
  show "snd (file_load None path st) = st" by (simp add: file_load_def split: option.split)
qed

section \<open>Histories of start-ups\<close>

lemma file_save_path:
  assumes "path_extension path \<noteq> Some ''tmp''" "file_save fault path e b fs = (r, fs')"
  shows "fs' path = fs path \<or> fs' path = Some (boots_record e b)"
proof -
  have ne: "with_extension ''tmp'' path \<noteq> path"
  proof
    assume "with_extension ''tmp'' path = path"
    then have "path_extension (with_extension ''tmp'' path) = path_extension path" by simp
    then show False using assms(1) by (simp add: with_extension_def)
  qed
  show ?thesis using assms(2) ne
    by (auto simp: file_save_def Let_def split: if_splits option.splits io_step.splits)
qed

text \<open>A start-up of an engine, successful or not, with any fault of the file system; and a file that
  holds at least a given boots value for the engine.\<close>

inductive start_up :: "fs_path \<Rightarrow> bytes \<Rightarrow> files \<Rightarrow> files \<Rightarrow> bool" for path e where
  start_up: "initialise_engine_boots (file_load rf path) (file_save sf path) e fs = (r, fs') \<Longrightarrow> start_up path e fs fs'"

definition boots_kept :: "fs_path \<Rightarrow> bytes \<Rightarrow> u32 \<Rightarrow> files \<Rightarrow> bool" where
  "boots_kept path e b fs \<longleftrightarrow> path_extension path \<noteq> Some ''tmp'' \<and> length e \<le> 32
     \<and> (\<exists>k. fs path = Some (boots_record e k) \<and> b \<le> k)"

lemma init_with_record:
  assumes "length e \<le> 32" "fs path = Some (boots_record e k)"
    and "initialise_engine_boots (file_load rf path) (file_save sf path) e fs = (r, fs')"
  shows "fs' = fs \<and> (\<exists>err. r = Inl err)
    \<or> k < MAX_ENGINE_BOOTS \<and> (\<exists>w. file_save sf path e (k + 1) fs = (w, fs')) \<and> (\<forall>b. r = Inr b \<longrightarrow> b = k + 1)"
proof (cases "rf = Some StepRead")
  case True
  then show ?thesis using assms(3) by (auto simp: initialise_engine_boots_def file_load_def)
next
  case False
  then have "file_load rf path fs = (Inr (Some \<lparr>sb_engine_id = e, sb_boots = k\<rparr>), fs)"
    using assms(1,2) by (simp add: file_load_def parse_boots_record)
  then show ?thesis using assms(3)
    by (auto simp: initialise_engine_boots_def Let_def result_Inr_iffs not_le split: if_splits prod.splits)
qed

lemma next_boots: "k < MAX_ENGINE_BOOTS \<Longrightarrow> k < k + 1"
  by (simp add: MAX_ENGINE_BOOTS_def EngineBoots_CEILING_def word_less_nat_alt unat_word_ariths)

interpretation boots_history: invariant_system "start_up path e" "boots_kept path e b" for path e b
proof
  fix fs fs' assume "start_up path e fs fs'" "boots_kept path e b fs"
  then obtain rf sf r k where r: "initialise_engine_boots (file_load rf path) (file_save sf path) e fs = (r, fs')"
    and k: "path_extension path \<noteq> Some ''tmp''" "length e \<le> 32" "fs path = Some (boots_record e k)" "b \<le> k"
    by (auto simp: boots_kept_def elim!: start_up.cases)
  from init_with_record[OF k(2,3) r] show "boots_kept path e b fs'"
  proof
    assume "fs' = fs \<and> (\<exists>err. r = Inl err)"
    then show ?thesis using \<open>boots_kept path e b fs\<close> by simp
  next
    assume "k < MAX_ENGINE_BOOTS \<and> (\<exists>w. file_save sf path e (k + 1) fs = (w, fs')) \<and> (\<forall>b. r = Inr b \<longrightarrow> b = k + 1)"
    then obtain w where w: "k < MAX_ENGINE_BOOTS" "file_save sf path e (k + 1) fs = (w, fs')" by blast
    from file_save_path[OF k(1) w(2)] next_boots[OF w(1)] k show ?thesis unfolding boots_kept_def
      by (metis dual_order.strict_implies_order order_trans)
  qed
qed

lemma start_up_exceeds:
  assumes "boots_kept path e b fs" "initialise_engine_boots (file_load rf path) (file_save sf path) e fs = (Inr b2, fs')"
  shows "b < b2"
proof -
  obtain k where "length e \<le> 32" "fs path = Some (boots_record e k)" "b \<le> k" using assms(1) by (auto simp: boots_kept_def)
  with init_with_record[OF _ _ assms(2)] next_boots show ?thesis by force
qed

lemma start_up_keeps:
  assumes "path_extension path \<noteq> Some ''tmp''" "length e \<le> 32"
    and "initialise_engine_boots (file_load rf path) (file_save sf path) e fs = (Inr b, fs')"
  shows "boots_kept path e b fs'"
proof -
  have "\<exists>fs1. file_save sf path e b fs1 = (Inr (), fs')"
    using assms(3) unfolding initialise_engine_boots_def Let_def
    by (auto simp: result_Inr_iffs split: prod.splits sum.splits option.splits if_splits)
  then have "fs' path = Some (boots_record e b)"
    by (auto simp: file_save_def Let_def split: if_splits option.splits io_step.splits)
  then show ?thesis using assms(1,2) by (auto simp: boots_kept_def)
qed

section \<open>Properties\<close>

text \<open>A message is inside the time window exactly when its boots value is the engine's and the
  two clocks differ by at most 150 seconds in either direction; a probe with boots zero is
  always outside once the boots counter has been initialised.\<close>

theorem time_window_exact:
  "(is_in_time_window mb mt eb et \<longleftrightarrow>
      mb = eb \<and> unat (engine_time_u32 mt) \<le> unat (engine_time_u32 et) + 150
      \<and> unat (engine_time_u32 et) \<le> unat (engine_time_u32 mt) + 150)
   \<and> (initialise_engine_boots load save e st = (Inr b, st') \<longrightarrow>
      \<not> is_in_time_window (EngineBoots 0) mt (EngineBoots b) et)"
proof -
  have "is_in_time_window mb mt eb et \<longleftrightarrow>
      mb = eb \<and> unat (engine_time_u32 mt) \<le> unat (engine_time_u32 et) + 150
      \<and> unat (engine_time_u32 et) \<le> unat (engine_time_u32 mt) + 150"
    unfolding is_in_time_window_def Let_def by (auto simp del: of_nat_unat)
  moreover have "\<not> is_in_time_window (EngineBoots 0) mt (EngineBoots b) et"
    if "initialise_engine_boots load save e st = (Inr b, st')"
  proof -
    have "b \<noteq> 0" using init_result_range[OF that] by auto
    then show ?thesis by (simp add: is_in_time_window_def)
  qed
  ultimately show ?thesis by blast
qed

theorem time_window_exact_witness:
  "is_in_time_window (EngineBoots 5) (EngineTime 850) (EngineBoots 5) (EngineTime 1000)
   \<and> \<not> is_in_time_window (EngineBoots 0) (EngineTime 0) (EngineBoots 1) (EngineTime 0)"
proof -
  let ?path = "\<lparr>path_parent = [], path_stem = ''boots'', path_extension = None\<rparr>"
  obtain fs where i: "initialise_engine_boots (file_load None ?path) (file_save None ?path) [1, 2, 3, 4, 5] Map.empty
      = (Inr 1, fs)"
    by (simp add: initialise_engine_boots_def file_load_def file_save_def Let_def)
  then show ?thesis
    using time_window_exact[of "EngineBoots 5" "EngineTime 850" "EngineBoots 5" "EngineTime 1000"
        "file_load None ?path" "file_save None ?path" "[1, 2, 3, 4, 5]" Map.empty 1 fs]
      time_window_exact[of "EngineBoots 0" "EngineTime 0" "EngineBoots 1" "EngineTime 0"
        "file_load None ?path" "file_save None ?path" "[1, 2, 3, 4, 5]" Map.empty 1 fs]
    by simp
qed



text \<open>C20: Saving is atomic when the store's path does not itself end in \<open>.tmp\<close>: whichever file
  system call fails, the file afterwards holds the old contents or exactly the new record, and
  after success the new record, which loads back.\<close>

theorem file_save_atomic:
  assumes "path_extension path \<noteq> Some ''tmp''" "length e \<le> 32" "file_save fault path e b fs = (r, fs')"
  shows "(fs' path = fs path \<or> fs' path = Some (boots_record e b))
    \<and> (r = Inr () \<longrightarrow> file_load None path fs' = (Inr (Some \<lparr>sb_engine_id = e, sb_boots = b\<rparr>), fs'))"
proof
  show "fs' path = fs path \<or> fs' path = Some (boots_record e b)" by (rule file_save_path[OF assms(1,3)])
  show "r = Inr () \<longrightarrow> file_load None path fs' = (Inr (Some \<lparr>sb_engine_id = e, sb_boots = b\<rparr>), fs')"
  proof
    assume "r = Inr ()"
    then have "file_save fault path e b fs = (Inr (), fs')" using assms(3) by simp
    from file_boots.load_after_save[OF assms(2) this] file_boots.load_keeps[of path fs']
    show "file_load None path fs' = (Inr (Some \<lparr>sb_engine_id = e, sb_boots = b\<rparr>), fs')"
      by (cases "file_load None path fs'") simp
  qed
qed

theorem file_save_atomic_witness:
  "\<exists>r fs'. file_save (Some (StepWrite 3)) \<lparr>path_parent = [], path_stem = ''b'', path_extension = None\<rparr>
       [1, 2, 3, 4, 5] 7 (Map.empty(\<lparr>path_parent = [], path_stem = ''b'', path_extension = None\<rparr> \<mapsto> [9])) = (r, fs')
     \<and> (fs' \<lparr>path_parent = [], path_stem = ''b'', path_extension = None\<rparr> = Some [9]
        \<or> fs' \<lparr>path_parent = [], path_stem = ''b'', path_extension = None\<rparr> = Some (boots_record [1, 2, 3, 4, 5] 7))"
proof -
  let ?path = "\<lparr>path_parent = [], path_stem = ''b'', path_extension = None\<rparr>"
  obtain r fs' where s: "file_save (Some (StepWrite 3)) ?path [1, 2, 3, 4, 5] 7 (Map.empty(?path \<mapsto> [9])) = (r, fs')"
    by (cases "file_save (Some (StepWrite 3)) ?path [1, 2, 3, 4, 5] 7 (Map.empty(?path \<mapsto> [9]))")
  have "fs' ?path = (Map.empty(?path \<mapsto> [9])) ?path \<or> fs' ?path = Some (boots_record [1, 2, 3, 4, 5] 7)"
    using file_save_atomic[OF _ _ s] by simp
  then show ?thesis using s by (intro exI[of _ r] exI[of _ fs']) simp
qed

text \<open>With a path that ends in \<open>.tmp\<close> the temporary file is the store itself, and an interrupted
  write destroys the persisted state.\<close>

theorem file_save_tmp_path_corrupts:
  "\<exists>path fs fault. file_load None path fs = (Inr (Some \<lparr>sb_engine_id = [1, 2, 3, 4, 5], sb_boots = 8\<rparr>), fs)
     \<and> (let (r, fs') = file_save fault path [1, 2, 3, 4, 5] 9 fs
        in r = Inl IoFault \<and> fst (file_load None path fs') = Inl (InvalidData ''unexpected length''))"
proof -
  let ?path = "\<lparr>path_parent = [], path_stem = ''b'', path_extension = Some ''tmp''\<rparr>"
  let ?fs = "Map.empty(?path \<mapsto> boots_record [1, 2, 3, 4, 5] 8)"
  have "file_load None ?path ?fs = (Inr (Some \<lparr>sb_engine_id = [1, 2, 3, 4, 5], sb_boots = 8\<rparr>), ?fs)"
    by (simp add: file_load_def parse_boots_record)
  moreover have "file_save (Some (StepWrite 0)) ?path [1, 2, 3, 4, 5] 9 ?fs = (Inl IoFault, ?fs(?path \<mapsto> []))"
    by (simp add: file_save_def Let_def with_extension_def)
  moreover have "fst (file_load None ?path (?fs(?path \<mapsto> []))) = Inl (InvalidData ''unexpected length'')"
    by (simp add: file_load_def parse_boots_file_def)
  ultimately show ?thesis
    by (intro exI[of _ ?path] exI[of _ ?fs] exI[of _ "Some (StepWrite 0)"]) simp
qed

text \<open>The last value a start-up returns is the ceiling itself, and messages of an engine at the
  ceiling are still inside the time window.\<close>

theorem ceiling_still_authenticates:
  "\<exists>path fs fs'. initialise_engine_boots (file_load None path) (file_save None path) [1, 2, 3, 4, 5] fs
       = (Inr EngineBoots_CEILING, fs')
     \<and> is_at_ceiling (EngineBoots EngineBoots_CEILING)
     \<and> is_in_time_window (EngineBoots EngineBoots_CEILING) (EngineTime 3) (EngineBoots EngineBoots_CEILING) (EngineTime 3)"
proof -
  let ?path = "\<lparr>path_parent = [], path_stem = ''b'', path_extension = None\<rparr>"
  let ?fs = "Map.empty(?path \<mapsto> boots_record [1, 2, 3, 4, 5] 0x7FFFFFFE)"
  have "\<exists>fs'. initialise_engine_boots (file_load None ?path) (file_save None ?path) [1, 2, 3, 4, 5] ?fs
      = (Inr EngineBoots_CEILING, fs')"
    by (simp add: initialise_engine_boots_def file_load_def file_save_def parse_boots_record Let_def
        MAX_ENGINE_BOOTS_def EngineBoots_CEILING_def word_le_nat_alt)
  moreover have "is_at_ceiling (EngineBoots EngineBoots_CEILING)" by (simp add: is_at_ceiling_def)
  ultimately show ?thesis by (auto simp: is_in_time_window_def)
qed

end
