(* ===== verification/Dispatch.thy ===== *)
theory Dispatch
  imports Codec Request Usm_Engine
begin

text \<open>
  The dispatch of one SNMPv3 frame (\<open>src/src/transport/dispatch.rs\<close> with
  \<open>dispatch/dispatch_context.rs\<close> and \<open>dispatch/report.rs\<close>, and the counter OIDs of
  \<open>src/src/usm/counters.rs\<close>): the validation pipeline in the order of the code, the reports
  with their statistics counters, decryption, and the encoding of the response. The mutable
  context and the salt counter are the state of a small error-and-state monad. The lemmas show
  which checks a served request has passed, what each rejected message changes, and that a
  manager holding the key accepts the response.
\<close>

section \<open>Counter OIDs\<close>

definition USM_STATS_UNKNOWN_ENGINE_IDS :: string where
  "USM_STATS_UNKNOWN_ENGINE_IDS = ''1.3.6.1.6.3.15.1.1.4.0''"
definition USM_STATS_NOT_IN_TIME_WINDOWS :: string where
  "USM_STATS_NOT_IN_TIME_WINDOWS = ''1.3.6.1.6.3.15.1.1.2.0''"
definition USM_STATS_UNKNOWN_USER_NAMES :: string where
  "USM_STATS_UNKNOWN_USER_NAMES = ''1.3.6.1.6.3.15.1.1.3.0''"
definition USM_STATS_UNSUPPORTED_SEC_LEVELS :: string where
  "USM_STATS_UNSUPPORTED_SEC_LEVELS = ''1.3.6.1.6.3.15.1.1.1.0''"
definition USM_STATS_WRONG_DIGESTS :: string where
  "USM_STATS_WRONG_DIGESTS = ''1.3.6.1.6.3.15.1.1.5.0''"
definition USM_STATS_DECRYPTION_ERRORS :: string where
  "USM_STATS_DECRYPTION_ERRORS = ''1.3.6.1.6.3.15.1.1.6.0''"
definition SNMP_UNKNOWN_SECURITY_MODELS_OID :: string where
  "SNMP_UNKNOWN_SECURITY_MODELS_OID = ''1.3.6.1.6.3.11.2.1.1.0''"

text \<open>The \<open>expect\<close> of the lazily parsed constants; \<open>counter_oids_parse\<close> below shows that it never
  panics.\<close>

definition parsed_oid :: "string \<Rightarrow> Oid" where
  "parsed_oid s = the (res_ok (oid_from_str s))"

definition UNKNOWN_ENGINE_IDS_OID :: Oid where
  "UNKNOWN_ENGINE_IDS_OID = parsed_oid USM_STATS_UNKNOWN_ENGINE_IDS"
definition UNKNOWN_USER_NAMES_OID :: Oid where
  "UNKNOWN_USER_NAMES_OID = parsed_oid USM_STATS_UNKNOWN_USER_NAMES"
definition UNSUPPORTED_SEC_LEVELS_OID :: Oid where
  "UNSUPPORTED_SEC_LEVELS_OID = parsed_oid USM_STATS_UNSUPPORTED_SEC_LEVELS"
definition WRONG_DIGESTS_OID :: Oid where
  "WRONG_DIGESTS_OID = parsed_oid USM_STATS_WRONG_DIGESTS"
definition NOT_IN_TIME_WINDOWS_OID :: Oid where
  "NOT_IN_TIME_WINDOWS_OID = parsed_oid USM_STATS_NOT_IN_TIME_WINDOWS"
definition DECRYPTION_ERRORS_OID :: Oid where
  "DECRYPTION_ERRORS_OID = parsed_oid USM_STATS_DECRYPTION_ERRORS"
definition UNKNOWN_SECURITY_MODELS_OID :: Oid where
  "UNKNOWN_SECURITY_MODELS_OID = parsed_oid SNMP_UNKNOWN_SECURITY_MODELS_OID"

section \<open>The dispatch context\<close>

record DispatchInputs =
  di_engine_id :: bytes
  di_engine_boots :: EngineBoots
  di_engine_time :: EngineTime
  di_unknown_engine_ids_counter :: UsmStatsCounter
  di_unknown_user_names_counter :: UsmStatsCounter
  di_unsupported_sec_levels_counter :: UsmStatsCounter
  di_wrong_digests_counter :: UsmStatsCounter
  di_not_in_time_windows_counter :: UsmStatsCounter
  di_decryption_errors_counter :: UsmStatsCounter
  di_unknown_security_models_counter :: UsmStatsCounter
  di_usm_user :: "UsmUser option"
  di_minimum_security_level :: SecurityLevel

definition should_reject_security_level :: "DispatchInputs \<Rightarrow> InvalidMsgFlags + SecurityLevel \<Rightarrow> bool" where
  "should_reject_security_level inputs msg_level =
     (case msg_level of
        Inl _ \<Rightarrow> True
      | Inr level \<Rightarrow>
          level < di_minimum_security_level inputs
          \<or> (case di_usm_user inputs of Some user \<Rightarrow> level > user_security_level user | None \<Rightarrow> False)
          \<or> (di_usm_user inputs = None \<and> level > NoAuthNoPriv))"

datatype DispatchContext = DispatchContext (ctx_inputs: DispatchInputs)

datatype NoUserSecurityLevelError = NoUserSecurityLevelError

definition dispatch_context_new_unchecked :: "DispatchInputs \<Rightarrow> DispatchContext" where
  "dispatch_context_new_unchecked inputs = DispatchContext inputs"

definition dispatch_context_new :: "DispatchInputs \<Rightarrow> NoUserSecurityLevelError + DispatchContext" where
  "dispatch_context_new inputs =
     (if security_level_requires_user (di_usm_user inputs) (di_minimum_security_level inputs)
      then Inl NoUserSecurityLevelError
      else Inr (dispatch_context_new_unchecked inputs))"

section \<open>Rejection and reports\<close>

datatype Reject = Report bytes | Discard

fun reject_response :: "Reject \<Rightarrow> bytes option" where
  "reject_response (Report encoded_report) = Some encoded_report"
| "reject_response Discard = None"

text \<open>The state a frame may change, and computations that change it and may reject.\<close>

type_synonym dispatch_state = "DispatchContext \<times> salt_state"
type_synonym 'a dispatch = "dispatch_state \<Rightarrow> (Reject + 'a) \<times> dispatch_state"

definition dbind :: "'a dispatch \<Rightarrow> ('a \<Rightarrow> 'b dispatch) \<Rightarrow> 'b dispatch" where
  "dbind f g s = (case f s of (Inl e, s') \<Rightarrow> (Inl e, s') | (Inr a, s') \<Rightarrow> g a s')"

text \<open>A counter as the mutable reference the closure selects: how to read and how to update it.\<close>

type_synonym counter_ref =
  "(DispatchInputs \<Rightarrow> UsmStatsCounter) \<times> ((UsmStatsCounter \<Rightarrow> UsmStatsCounter) \<Rightarrow> DispatchInputs \<Rightarrow> DispatchInputs)"

definition emit_report_response ::
  "crypto \<Rightarrow> u64 \<Rightarrow> counter_ref \<Rightarrow> Oid \<Rightarrow> MessageId \<Rightarrow> MsgFlags \<Rightarrow> dispatch_state \<Rightarrow> Reject \<times> dispatch_state" where
  "emit_report_response cr seed counter counter_oid msg_id security_flags s =
     (let (ctx, salt) = s;
          inputs = (snd counter) counter_saturating_increment (ctx_inputs ctx);
          counter_value = counter_get (fst counter inputs);
          ctx = DispatchContext inputs
      in if \<not> is_reportable security_flags then (Discard, (ctx, salt))
         else
           let (r, salt) = encode_v3_report cr seed msg_id (di_engine_id inputs)
                 (engine_boots_u32 (di_engine_boots inputs)) (engine_time_u32 (di_engine_time inputs))
                 counter_oid counter_value salt
           in (case r of Inl _ \<Rightarrow> Discard | Inr bs \<Rightarrow> Report bs, (ctx, salt)))"

definition reject_with ::
  "crypto \<Rightarrow> u64 \<Rightarrow> counter_ref \<Rightarrow> Oid \<Rightarrow> MessageId \<Rightarrow> MsgFlags \<Rightarrow> 'a dispatch" where
  "reject_with cr seed counter counter_oid msg_id security_flags s =
     (let (e, s) = emit_report_response cr seed counter counter_oid msg_id security_flags s in (Inl e, s))"

abbreviation unknown_engine_ids :: counter_ref where
  "unknown_engine_ids \<equiv> (di_unknown_engine_ids_counter, di_unknown_engine_ids_counter_update)"
abbreviation unknown_user_names :: counter_ref where
  "unknown_user_names \<equiv> (di_unknown_user_names_counter, di_unknown_user_names_counter_update)"
abbreviation unsupported_sec_levels :: counter_ref where
  "unsupported_sec_levels \<equiv> (di_unsupported_sec_levels_counter, di_unsupported_sec_levels_counter_update)"
abbreviation wrong_digests :: counter_ref where
  "wrong_digests \<equiv> (di_wrong_digests_counter, di_wrong_digests_counter_update)"
abbreviation not_in_time_windows :: counter_ref where
  "not_in_time_windows \<equiv> (di_not_in_time_windows_counter, di_not_in_time_windows_counter_update)"
abbreviation decryption_errors :: counter_ref where
  "decryption_errors \<equiv> (di_decryption_errors_counter, di_decryption_errors_counter_update)"
abbreviation unknown_security_models :: counter_ref where
  "unknown_security_models \<equiv> (di_unknown_security_models_counter, di_unknown_security_models_counter_update)"

section \<open>The checks\<close>

definition check_message_envelope :: "crypto \<Rightarrow> u64 \<Rightarrow> V3InboundMessage \<Rightarrow> unit dispatch" where
  "check_message_envelope cr seed v3_msg s =
     (let msg_id = v3_msg_id v3_msg; flags = usf_security_flags (v3_usm v3_msg) in
      if \<not> is_usm (v3_security_model v3_msg) then
        reject_with cr seed unknown_security_models UNKNOWN_SECURITY_MODELS_OID msg_id flags s
      else if usf_auth_engine_id (v3_usm v3_msg) = [] then
        reject_with cr seed unknown_engine_ids UNKNOWN_ENGINE_IDS_OID msg_id flags s
      else if v3_engine_id v3_msg \<noteq> di_engine_id (ctx_inputs (fst s)) then
        reject_with cr seed unknown_engine_ids UNKNOWN_ENGINE_IDS_OID msg_id flags s
      else (Inr (), s))"

definition check_user_name :: "crypto \<Rightarrow> u64 \<Rightarrow> V3InboundMessage \<Rightarrow> unit dispatch" where
  "check_user_name cr seed v3_msg s =
     (let name_matches = (case di_usm_user (ctx_inputs (fst s)) of
            None \<Rightarrow> True | Some user \<Rightarrow> v3_user_name v3_msg = user_name_bytes (usm_name user))
      in if \<not> name_matches then
           reject_with cr seed unknown_user_names UNKNOWN_USER_NAMES_OID (v3_msg_id v3_msg)
             (usf_security_flags (v3_usm v3_msg)) s
         else (Inr (), s))"

definition check_security_level :: "crypto \<Rightarrow> u64 \<Rightarrow> V3InboundMessage \<Rightarrow> unit dispatch" where
  "check_security_level cr seed v3_msg s =
     (let msg_level = flags_security_level (usf_security_flags (v3_usm v3_msg))
      in if should_reject_security_level (ctx_inputs (fst s)) msg_level then
           reject_with cr seed unsupported_sec_levels UNSUPPORTED_SEC_LEVELS_OID (v3_msg_id v3_msg)
             (usf_security_flags (v3_usm v3_msg)) s
         else (Inr (), s))"

definition check_priv_flag_agreement :: "V3InboundMessage \<Rightarrow> unit dispatch" where
  "check_priv_flag_agreement v3_msg s =
     (let priv_flag_set = is_priv (usf_security_flags (v3_usm v3_msg));
          payload_is_encrypted = (case v3_scoped_data v3_msg of Encrypted _ \<Rightarrow> True | _ \<Rightarrow> False)
      in if priv_flag_set = payload_is_encrypted then (Inr (), s) else (Inl Discard, s))"

text \<open>The bytes outside the range of the message are left alone when the range is invalid. The
  \<open>debug_assert\<close> on the length is discharged by \<open>zeroed_field_not_empty\<close> below.\<close>

definition zero_auth_params_in_message :: "bytes \<Rightarrow> nat \<Rightarrow> nat \<Rightarrow> bytes" where
  "zero_auth_params_in_message raw_message auth_params_offset auth_params_len =
     (case usize_checked_add auth_params_offset auth_params_len of
        None \<Rightarrow> raw_message
      | Some end_pos \<Rightarrow>
          (case slice_get raw_message auth_params_offset end_pos of
             None \<Rightarrow> raw_message
           | Some target \<Rightarrow> slice_set raw_message auth_params_offset (replicate (length target) 0)))"

record HmacInput =
  hi_raw_message :: bytes
  hi_auth_params :: bytes
  hi_auth_params_offset :: "nat option"

definition verify_hmac :: "crypto \<Rightarrow> AuthProtocol \<Rightarrow> SecretKey \<Rightarrow> HmacInput \<Rightarrow> bool" where
  "verify_hmac cr auth_protocol auth_key hmac =
     (case hi_auth_params_offset hmac of
        None \<Rightarrow> False
      | Some offset \<Rightarrow>
          let zeroed = zero_auth_params_in_message (hi_raw_message hmac) offset (length (hi_auth_params hmac))
          in (case verify_mac cr auth_protocol auth_key zeroed (hi_auth_params hmac) of
                Inl _ \<Rightarrow> False | Inr _ \<Rightarrow> True))"

definition verify_authentication :: "crypto \<Rightarrow> u64 \<Rightarrow> V3InboundMessage \<Rightarrow> unit dispatch" where
  "verify_authentication cr seed v3_msg s =
     (case di_usm_user (ctx_inputs (fst s)) of
        None \<Rightarrow> (Inr (), s)
      | Some user \<Rightarrow>
          (case (user_auth_protocol user, user_auth_key user) of
             (Some auth_protocol, Some auth_key) \<Rightarrow>
               let auth_params_bytes = (case usf_auth_params (v3_usm v3_msg) of
                     None \<Rightarrow> [] | Some ap \<Rightarrow> auth_params_bytes ap);
                   hmac_valid = verify_hmac cr auth_protocol auth_key
                     \<lparr>hi_raw_message = v3_raw_message v3_msg, hi_auth_params = auth_params_bytes,
                      hi_auth_params_offset = v3_auth_params_offset v3_msg\<rparr>
               in if \<not> hmac_valid then
                    reject_with cr seed wrong_digests WRONG_DIGESTS_OID (v3_msg_id v3_msg)
                      (usf_security_flags (v3_usm v3_msg)) s
                  else (Inr (), s)
           | _ \<Rightarrow> (Inr (), s)))"

definition check_time_window :: "crypto \<Rightarrow> u64 \<Rightarrow> V3InboundMessage \<Rightarrow> unit dispatch" where
  "check_time_window cr seed v3_msg s =
     (case di_usm_user (ctx_inputs (fst s)) of
        None \<Rightarrow> (Inr (), s)
      | Some user \<Rightarrow>
          if user_auth_protocol user = None then (Inr (), s)
          else
            let in_time_window = is_in_time_window (EngineBoots (usf_auth_engine_boots (v3_usm v3_msg)))
                  (EngineTime (usf_auth_engine_time (v3_usm v3_msg)))
                  (di_engine_boots (ctx_inputs (fst s))) (di_engine_time (ctx_inputs (fst s)))
            in if \<not> in_time_window then
                 reject_with cr seed not_in_time_windows NOT_IN_TIME_WINDOWS_OID (v3_msg_id v3_msg)
                   (usf_security_flags (v3_usm v3_msg)) s
               else (Inr (), s))"

definition check_context_name :: "V3InboundMessage \<Rightarrow> unit dispatch" where
  "check_context_name v3_msg s = (if v3_context_name v3_msg = [] then (Inr (), s) else (Inl Discard, s))"

section \<open>Decryption and response\<close>

definition MAX_BULK_REPETITIONS :: u32 where "MAX_BULK_REPETITIONS = 100"
definition MAX_FRAME_SIZE :: nat where "MAX_FRAME_SIZE = 0xFFFF"

record DecryptionParams =
  dp_msg_id :: MessageId
  dp_security_flags :: MsgFlags
  dp_priv_params :: "PrivacySalt option"
  dp_auth_engine_boots :: EngineBoots
  dp_auth_engine_time :: EngineTime

text \<open>\<open>Option::zip\<close>, and the credentials the context gives for one direction.\<close>

definition option_zip :: "'a option \<Rightarrow> 'b option \<Rightarrow> ('a \<times> 'b) option" where
  "option_zip x y = (case (x, y) of (Some a, Some b) \<Rightarrow> Some (a, b) | _ \<Rightarrow> None)"

definition auth_credentials_of :: "UsmUser option \<Rightarrow> (AuthProtocol \<times> SecretKey) option" where
  "auth_credentials_of usm_user =
     Option.bind usm_user (\<lambda>user. option_zip (user_auth_protocol user) (user_auth_key user))"

definition priv_credentials_of :: "UsmUser option \<Rightarrow> (PrivProtocol \<times> SecretKey) option" where
  "priv_credentials_of usm_user =
     Option.bind usm_user (\<lambda>user. option_zip (user_priv_protocol user) (user_priv_key user))"

definition decrypt_scoped_pdu ::
  "crypto \<Rightarrow> u64 \<Rightarrow> DecryptionParams \<Rightarrow> bytes \<Rightarrow> (InboundPdu \<times> bytes) dispatch" where
  "decrypt_scoped_pdu cr seed decryption ciphertext s =
     (let report = (\<lambda>counter oid. reject_with cr seed counter oid (dp_msg_id decryption) (dp_security_flags decryption) s)
      in case priv_credentials_of (di_usm_user (ctx_inputs (fst s))) of
           None \<Rightarrow> (Inl Discard, s)
         | Some (priv_protocol, priv_key) \<Rightarrow>
             (case dp_priv_params decryption of
                None \<Rightarrow> report decryption_errors DECRYPTION_ERRORS_OID
              | Some priv_salt \<Rightarrow>
                  let iv = aes_iv (engine_boots_u32 (dp_auth_engine_boots decryption))
                             (engine_time_u32 (dp_auth_engine_time decryption)) (privacy_salt_bytes priv_salt)
                  in case priv_decrypt cr priv_protocol priv_key iv ciphertext of
                       Inl _ \<Rightarrow> report decryption_errors DECRYPTION_ERRORS_OID
                     | Inr scoped_pdu_bytes \<Rightarrow>
                         (case decode_scoped_pdu scoped_pdu_bytes of
                            Inl _ \<Rightarrow> report decryption_errors DECRYPTION_ERRORS_OID
                          | Inr decoded \<Rightarrow>
                              if dsp_context_engine_id decoded \<noteq> di_engine_id (ctx_inputs (fst s))
                              then report unknown_engine_ids UNKNOWN_ENGINE_IDS_OID
                              else if dsp_context_name decoded \<noteq> [] then (Inl Discard, s)
                              else (Inr (dsp_pdu decoded, dsp_context_name decoded), s))))"

record ResponseEnvelope =
  re_msg_id :: MessageId
  re_max_size :: i32
  re_user_name :: bytes
  re_context_name :: bytes

definition effective_max_size :: "i32 \<Rightarrow> nat" where
  "effective_max_size max_size = min (if 0 \<le> sint max_size then nat (sint max_size) else 0) MAX_FRAME_SIZE"

fun handle_pdu :: "Store \<Rightarrow> i32 \<Rightarrow> InboundPdu \<Rightarrow> GetResponse" where
  "handle_pdu mib max_size (PduGetRequest req) = handle_get req mib"
| "handle_pdu mib max_size (PduGetNextRequest req) = handle_get_next req mib"
| "handle_pdu mib max_size (PduGetBulkRequest req) =
     handle_get_bulk req mib MAX_BULK_REPETITIONS (effective_max_size max_size)"
| "handle_pdu mib max_size (PduSetRequest req) = handle_set req"

definition dispatch_pdu_and_encode_response ::
  "crypto \<Rightarrow> u64 \<Rightarrow> DispatchContext \<Rightarrow> ResponseEnvelope \<Rightarrow> Store \<Rightarrow> InboundPdu \<Rightarrow> salt_state
    \<Rightarrow> bytes option \<times> salt_state" where
  "dispatch_pdu_and_encode_response cr seed ctx envelope mib inbound_pdu salt =
     (let response = handle_pdu mib (re_max_size envelope) inbound_pdu;
          response_auth = auth_credentials_of (di_usm_user (ctx_inputs ctx));
          response_priv = priv_credentials_of (di_usm_user (ctx_inputs ctx));
          (r, salt) = encode_v3_response cr seed (re_msg_id envelope) (di_engine_id (ctx_inputs ctx))
             (re_user_name envelope) (re_context_name envelope)
             (engine_boots_u32 (di_engine_boots (ctx_inputs ctx)))
             (engine_time_u32 (di_engine_time (ctx_inputs ctx))) response_auth response_priv response salt
      in (res_ok r, salt))"

section \<open>The pipeline\<close>

definition effective_pdu :: "crypto \<Rightarrow> u64 \<Rightarrow> V3InboundMessage \<Rightarrow> (InboundPdu \<times> bytes) dispatch" where
  "effective_pdu cr seed v3_msg =
     (case v3_scoped_data v3_msg of
        Plaintext pdu \<Rightarrow> (\<lambda>s. (Inr (pdu, v3_context_name v3_msg), s))
      | Encrypted ciphertext \<Rightarrow>
          decrypt_scoped_pdu cr seed
            \<lparr>dp_msg_id = v3_msg_id v3_msg, dp_security_flags = usf_security_flags (v3_usm v3_msg),
             dp_priv_params = usf_priv_params (v3_usm v3_msg),
             dp_auth_engine_boots = EngineBoots (usf_auth_engine_boots (v3_usm v3_msg)),
             dp_auth_engine_time = EngineTime (usf_auth_engine_time (v3_usm v3_msg))\<rparr> ciphertext)"

definition serve :: "crypto \<Rightarrow> u64 \<Rightarrow> Store \<Rightarrow> V3InboundMessage \<Rightarrow> InboundPdu \<times> bytes \<Rightarrow> bytes dispatch" where
  "serve cr seed mib v3_msg pdu_and_context s =
     (let (inbound_pdu, response_context_name) = pdu_and_context;
          (r, salt) = dispatch_pdu_and_encode_response cr seed (fst s)
             \<lparr>re_msg_id = v3_msg_id v3_msg, re_max_size = v3_max_size v3_msg,
              re_user_name = v3_user_name v3_msg, re_context_name = response_context_name\<rparr>
             mib inbound_pdu (snd s)
      in (ok_or r Discard, (fst s, salt)))"

definition run_validation_pipeline :: "crypto \<Rightarrow> u64 \<Rightarrow> Store \<Rightarrow> bytes \<Rightarrow> bytes dispatch" where
  "run_validation_pipeline cr seed mib frame =
     (case decode_v3_message frame of
        Inl _ \<Rightarrow> (\<lambda>s. (Inl Discard, s))
      | Inr v3_msg \<Rightarrow>
          dbind (check_message_envelope cr seed v3_msg) (\<lambda>_.
          dbind (check_user_name cr seed v3_msg) (\<lambda>_.
          dbind (check_security_level cr seed v3_msg) (\<lambda>_.
          dbind (check_priv_flag_agreement v3_msg) (\<lambda>_.
          dbind (verify_authentication cr seed v3_msg) (\<lambda>_.
          dbind (check_time_window cr seed v3_msg) (\<lambda>_.
          dbind (check_context_name v3_msg) (\<lambda>_.
          dbind (effective_pdu cr seed v3_msg) (\<lambda>p.
          serve cr seed mib v3_msg p)))))))))"

definition process_snmpv3_request ::
  "crypto \<Rightarrow> u64 \<Rightarrow> bytes \<Rightarrow> Store \<Rightarrow> dispatch_state \<Rightarrow> bytes option \<times> dispatch_state" where
  "process_snmpv3_request cr seed frame mib s =
     (case run_validation_pipeline cr seed mib frame s of
        (Inr response, s) \<Rightarrow> (Some response, s)
      | (Inl reject, s) \<Rightarrow> (reject_response reject, s))"

section \<open>The order of the checks\<close>

text \<open>The pipeline as a table: conditions in the order of RFC 3412 and RFC 3414, each with the
  counter and OID of its report, or \<open>None\<close> where the message is dropped silently. The scoped PDU
  the last rows speak of is the one in the message, or the one its ciphertext decrypts to.\<close>

type_synonym rejection_row = "bool \<times> (counter_ref \<times> Oid) option"

definition opened :: "crypto \<Rightarrow> DispatchInputs \<Rightarrow> V3InboundMessage \<Rightarrow> DecodedScopedPdu option" where
  "opened cr inputs msg =
     (case v3_scoped_data msg of
        Plaintext pdu \<Rightarrow> Some \<lparr>dsp_context_engine_id = v3_engine_id msg, dsp_context_name = v3_context_name msg, dsp_pdu = pdu\<rparr>
      | Encrypted ciphertext \<Rightarrow>
          (case (priv_credentials_of (di_usm_user inputs), usf_priv_params (v3_usm msg)) of
             (Some (q, k), Some salt) \<Rightarrow>
               Option.bind (res_ok (priv_decrypt cr q k
                 (aes_iv (usf_auth_engine_boots (v3_usm msg)) (usf_auth_engine_time (v3_usm msg))
                    (privacy_salt_bytes salt)) ciphertext)) (\<lambda>bs. res_ok (decode_scoped_pdu bs))
           | _ \<Rightarrow> None))"

definition received_mac :: "V3InboundMessage \<Rightarrow> HmacInput" where
  "received_mac msg = \<lparr>hi_raw_message = v3_raw_message msg,
     hi_auth_params = (case usf_auth_params (v3_usm msg) of None \<Rightarrow> [] | Some ap \<Rightarrow> auth_params_bytes ap),
     hi_auth_params_offset = v3_auth_params_offset msg\<rparr>"

abbreviation is_encrypted :: "V3InboundMessage \<Rightarrow> bool" where
  "is_encrypted msg \<equiv> (case v3_scoped_data msg of Encrypted _ \<Rightarrow> True | _ \<Rightarrow> False)"

definition early_rows :: "crypto \<Rightarrow> DispatchInputs \<Rightarrow> V3InboundMessage \<Rightarrow> rejection_row list" where
  "early_rows cr inputs msg =
    [(\<not> is_usm (v3_security_model msg), Some (unknown_security_models, UNKNOWN_SECURITY_MODELS_OID)),
     (usf_auth_engine_id (v3_usm msg) = [], Some (unknown_engine_ids, UNKNOWN_ENGINE_IDS_OID)),
     (v3_engine_id msg \<noteq> di_engine_id inputs, Some (unknown_engine_ids, UNKNOWN_ENGINE_IDS_OID)),
     (case di_usm_user inputs of None \<Rightarrow> False | Some user \<Rightarrow> v3_user_name msg \<noteq> user_name_bytes (usm_name user),
        Some (unknown_user_names, UNKNOWN_USER_NAMES_OID)),
     (should_reject_security_level inputs (flags_security_level (usf_security_flags (v3_usm msg))),
        Some (unsupported_sec_levels, UNSUPPORTED_SEC_LEVELS_OID)),
     (is_priv (usf_security_flags (v3_usm msg)) \<noteq> is_encrypted msg, None),
     (case auth_credentials_of (di_usm_user inputs) of None \<Rightarrow> False
        | Some (p, k) \<Rightarrow> \<not> verify_hmac cr p k (received_mac msg),
        Some (wrong_digests, WRONG_DIGESTS_OID)),
     (auth_credentials_of (di_usm_user inputs) \<noteq> None
        \<and> \<not> is_in_time_window (EngineBoots (usf_auth_engine_boots (v3_usm msg)))
              (EngineTime (usf_auth_engine_time (v3_usm msg))) (di_engine_boots inputs) (di_engine_time inputs),
        Some (not_in_time_windows, NOT_IN_TIME_WINDOWS_OID)),
     (v3_context_name msg \<noteq> [], None)]"

definition scoped_rows :: "crypto \<Rightarrow> DispatchInputs \<Rightarrow> V3InboundMessage \<Rightarrow> rejection_row list" where
  "scoped_rows cr inputs msg =
    [(is_encrypted msg \<and> priv_credentials_of (di_usm_user inputs) = None, None),
     (opened cr inputs msg = None, Some (decryption_errors, DECRYPTION_ERRORS_OID)),
     (dsp_context_engine_id (the (opened cr inputs msg)) \<noteq> di_engine_id inputs,
        Some (unknown_engine_ids, UNKNOWN_ENGINE_IDS_OID)),
     (dsp_context_name (the (opened cr inputs msg)) \<noteq> [], None)]"

definition reject_row ::
  "crypto \<Rightarrow> u64 \<Rightarrow> V3InboundMessage \<Rightarrow> (counter_ref \<times> Oid) option \<Rightarrow> 'a dispatch" where
  "reject_row cr seed msg row s =
     (case row of
        None \<Rightarrow> (Inl Discard, s)
      | Some (counter, oid) \<Rightarrow>
          reject_with cr seed counter oid (v3_msg_id msg) (usf_security_flags (v3_usm msg)) s)"

definition first_row :: "rejection_row list \<Rightarrow> (counter_ref \<times> Oid) option option" where
  "first_row rows = map_option snd (find fst rows)"

lemma first_row_simps [simp]:
  "first_row [] = None" "first_row ((c, row) # rows) = (if c then Some row else first_row rows)"
  by (simp_all add: first_row_def)

definition rejection_rows :: "crypto \<Rightarrow> DispatchInputs \<Rightarrow> V3InboundMessage \<Rightarrow> rejection_row list" where
  "rejection_rows cr inputs msg = early_rows cr inputs msg @ scoped_rows cr inputs msg"

lemma first_row_append:
  "first_row (rows @ rows') = (case first_row rows of None \<Rightarrow> first_row rows' | Some row \<Rightarrow> Some row)"
  by (induction rows) auto

lemma dbind_Inr: "f s = (Inr a, s') \<Longrightarrow> dbind f g s = g a s'"
  by (simp add: dbind_def)

lemma dbind_if: "(f :: 'a dispatch) s = (if c then r s else f' s) \<Longrightarrow>
    dbind f g s = (if c then dbind r g s else dbind f' g s)"
  by (simp add: dbind_def)

lemma dbind_reject_row [simp]: "dbind (reject_row cr seed msg row) g s = reject_row cr seed msg row s"
  by (auto simp: dbind_def reject_row_def reject_with_def split: option.splits prod.splits)

lemmas check_defs = check_message_envelope_def check_user_name_def check_security_level_def
  check_priv_flag_agreement_def verify_authentication_def check_time_window_def check_context_name_def

lemma reject_row_simps:
  "reject_row cr seed msg None s = (Inl Discard, s)"
  "reject_row cr seed msg (Some (counter, oid)) s
     = reject_with cr seed counter oid (v3_msg_id msg) (usf_security_flags (v3_usm msg)) s"
  by (simp_all add: reject_row_def)

lemma auth_credentials_cases:
  "auth_credentials_of None = None"
  "auth_credentials_of (Some user) = map_option (\<lambda>c. (ac_protocol c, ac_key c)) (usm_auth_credentials user)"
  "priv_credentials_of None = None"
  "priv_credentials_of (Some user) = map_option (\<lambda>c. (pc_protocol c, pc_key c)) (usm_priv_credentials user)"
  by (auto simp: auth_credentials_of_def priv_credentials_of_def user_auth_protocol_def user_auth_key_def
      user_priv_protocol_def user_priv_key_def option_zip_def split: option.splits)

text \<open>Each check rejects by its rows or leaves the state alone.\<close>

lemma check_rows:
  fixes s :: dispatch_state
  defines "i \<equiv> ctx_inputs (fst s)"
  shows "check_message_envelope cr seed msg s =
      (case first_row (take 3 (early_rows cr i msg)) of Some row \<Rightarrow> reject_row cr seed msg row s | None \<Rightarrow> (Inr (), s))"
    "check_user_name cr seed msg s =
      (case first_row [early_rows cr i msg ! 3] of Some row \<Rightarrow> reject_row cr seed msg row s | None \<Rightarrow> (Inr (), s))"
    "check_security_level cr seed msg s =
      (case first_row [early_rows cr i msg ! 4] of Some row \<Rightarrow> reject_row cr seed msg row s | None \<Rightarrow> (Inr (), s))"
    "check_priv_flag_agreement msg s =
      (case first_row [early_rows cr i msg ! 5] of Some row \<Rightarrow> reject_row cr seed msg row s | None \<Rightarrow> (Inr (), s))"
    "verify_authentication cr seed msg s =
      (case first_row [early_rows cr i msg ! 6] of Some row \<Rightarrow> reject_row cr seed msg row s | None \<Rightarrow> (Inr (), s))"
    "check_time_window cr seed msg s =
      (case first_row [early_rows cr i msg ! 7] of Some row \<Rightarrow> reject_row cr seed msg row s | None \<Rightarrow> (Inr (), s))"
    "check_context_name msg s =
      (case first_row [early_rows cr i msg ! 8] of Some row \<Rightarrow> reject_row cr seed msg row s | None \<Rightarrow> (Inr (), s))"
  unfolding i_def early_rows_def
  by (simp_all add: check_defs reject_row_simps auth_credentials_cases received_mac_def Let_def
      user_auth_protocol_def user_auth_key_def numeral_eq_Suc split: option.splits)
    auto

lemma dbind_rows:
  assumes "f s = (case first_row rows of Some row \<Rightarrow> reject_row cr seed msg row s | None \<Rightarrow> (Inr a, s))"
    and "g a s = (case first_row rows' of Some row \<Rightarrow> reject_row cr seed msg row s | None \<Rightarrow> k s)"
  shows "dbind f g s = (case first_row (rows @ rows') of Some row \<Rightarrow> reject_row cr seed msg row s | None \<Rightarrow> k s)"
  using assms by (auto simp: first_row_append dbind_def reject_row_def reject_with_def split: option.splits prod.splits)

lemma effective_pdu_rows:
  fixes s :: dispatch_state
  defines "i \<equiv> ctx_inputs (fst s)"
  assumes "v3_engine_id msg = di_engine_id i" "v3_context_name msg = []"
  shows "effective_pdu cr seed msg s =
    (case first_row (scoped_rows cr i msg) of
       Some row \<Rightarrow> reject_row cr seed msg row s
     | None \<Rightarrow> (Inr (dsp_pdu (the (opened cr i msg)), dsp_context_name (the (opened cr i msg))), s))"
proof (cases "v3_scoped_data msg")
  case (Plaintext pdu)
  then show ?thesis using assms by (simp add: effective_pdu_def scoped_rows_def opened_def)
next
  case (Encrypted ct)
  show ?thesis
  proof (cases "priv_credentials_of (di_usm_user i)")
    case None
    then show ?thesis using Encrypted
      by (simp add: effective_pdu_def scoped_rows_def decrypt_scoped_pdu_def reject_row_simps Let_def i_def)
  next
    case (Some qk)
    then show ?thesis using Encrypted
      by (cases qk) (simp add: effective_pdu_def scoped_rows_def decrypt_scoped_pdu_def reject_row_simps opened_def
          Let_def i_def split: option.splits sum.splits)
  qed
qed

lemma early_rows_split:
  "early_rows cr i msg = take 3 (early_rows cr i msg) @ [early_rows cr i msg ! 3] @ [early_rows cr i msg ! 4]
     @ [early_rows cr i msg ! 5] @ [early_rows cr i msg ! 6] @ [early_rows cr i msg ! 7] @ [early_rows cr i msg ! 8] @ []"
  by (simp add: early_rows_def numeral_eq_Suc)

lemma early_rows_passed:
  assumes "first_row (early_rows cr i msg) = None"
  shows "v3_engine_id msg = di_engine_id i" "v3_context_name msg = []"
  using assms by (simp_all add: early_rows_def split: if_splits)

lemma pipeline_rows:
  fixes s :: dispatch_state
  defines "i \<equiv> ctx_inputs (fst s)"
  assumes "decode_v3_message frame = Inr msg"
  shows "run_validation_pipeline cr seed mib frame s =
    (case first_row (rejection_rows cr i msg) of
       Some row \<Rightarrow> reject_row cr seed msg row s
     | None \<Rightarrow> serve cr seed mib msg (dsp_pdu (the (opened cr i msg)), dsp_context_name (the (opened cr i msg))) s)"
proof -
  let ?rest = "\<lambda>s. dbind (effective_pdu cr seed msg) (serve cr seed mib msg) s"
  note c = check_rows[where s = s, folded i_def]
  have "run_validation_pipeline cr seed mib frame s =
      (case first_row (early_rows cr i msg) of Some row \<Rightarrow> reject_row cr seed msg row s | None \<Rightarrow> ?rest s)"
    unfolding run_validation_pipeline_def assms(2) sum.case
    by (subst early_rows_split, rule dbind_rows, rule c(1), rule dbind_rows, rule c(2), rule dbind_rows, rule c(3),
        rule dbind_rows, rule c(4), rule dbind_rows, rule c(5), rule dbind_rows, rule c(6), rule dbind_rows, rule c(7)) simp
  also have "\<dots> = (case first_row (rejection_rows cr i msg) of
       Some row \<Rightarrow> reject_row cr seed msg row s
     | None \<Rightarrow> serve cr seed mib msg (dsp_pdu (the (opened cr i msg)), dsp_context_name (the (opened cr i msg))) s)"
  proof (cases "first_row (early_rows cr i msg)")
    case None
    note e = effective_pdu_rows[where s = s, folded i_def, OF early_rows_passed[OF None]]
    show ?thesis using None by (auto simp: rejection_rows_def first_row_append dbind_def e reject_row_def
          reject_with_def split: option.splits prod.splits)
  qed (simp add: rejection_rows_def first_row_append)
  finally show ?thesis .
qed

section \<open>What a served request has passed\<close>

lemma first_row_None: "first_row rows = None \<longleftrightarrow> (\<forall>r \<in> set rows. \<not> fst r)"
  by (induction rows) (auto split: if_splits)

lemma reject_row_not_served: "reject_row cr seed msg row s \<noteq> (Inr x, s')"
  by (auto simp: reject_row_def reject_with_def split: option.splits prod.splits)

lemma served_obtain:
  assumes "run_validation_pipeline cr seed mib frame (ctx, salt) = (Inr response, s')"
  obtains msg sp where "decode_v3_message frame = Inr msg"
    "\<forall>r \<in> set (early_rows cr (ctx_inputs ctx) msg). \<not> fst r" "opened cr (ctx_inputs ctx) msg = Some sp"
    "dsp_context_engine_id sp = di_engine_id (ctx_inputs ctx)" "dsp_context_name sp = []"
    "serve cr seed mib msg (dsp_pdu sp, []) (ctx, salt) = (Inr response, s')"
proof -
  let ?i = "ctx_inputs ctx"
  obtain msg where d: "decode_v3_message frame = Inr msg"
    using assms by (auto simp: run_validation_pipeline_def split: sum.splits)
  have n: "first_row (rejection_rows cr ?i msg) = None"
    and sv: "serve cr seed mib msg (dsp_pdu (the (opened cr ?i msg)), dsp_context_name (the (opened cr ?i msg))) (ctx, salt)
      = (Inr response, s')"
    using assms pipeline_rows[OF d, of cr seed mib "(ctx, salt)"] reject_row_not_served[of cr seed msg _ "(ctx, salt)" response s']
    by (auto split: option.splits)
  have rows: "\<forall>r \<in> set (early_rows cr ?i msg). \<not> fst r" "\<forall>r \<in> set (scoped_rows cr ?i msg). \<not> fst r"
    using n by (auto simp: first_row_None rejection_rows_def)
  then obtain sp where "opened cr ?i msg = Some sp" "dsp_context_engine_id sp = di_engine_id ?i" "dsp_context_name sp = []"
    by (auto simp: scoped_rows_def)
  then show thesis using that d rows(1) sv by simp
qed

lemma decode_v3_message_obtain:
  assumes "decode_v3_message frame = Inr msg"
  obtains env where "decode_v3_envelope frame = Inr env" "v3_raw_message msg = frame"
    "v3_auth_params_offset msg = env_auth_params_offset env" "v3_user_name msg = uf_user_name (env_usm env)"
    "v3_msg_id msg = MessageId (env_msg_id env)" "v3_max_size msg = env_max_size env"
    "v3_security_model msg = SecurityModel (env_security_model env)"
    "v3_usm msg = \<lparr>usf_auth_engine_id = uf_engine_id (env_usm env),
       usf_auth_engine_boots = unwrap_or_u32 0xFFFFFFFF (uf_engine_boots (env_usm env)),
       usf_auth_engine_time = unwrap_or_u32 0xFFFFFFFF (uf_engine_time (env_usm env)),
       usf_security_flags = MsgFlags (env_security_flags env),
       usf_auth_params = res_ok (auth_params_try_from (uf_auth_params (env_usm env))),
       usf_priv_params = res_ok (privacy_salt_try_from (uf_priv_params (env_usm env)))\<rparr>"
proof -
  from assms obtain env where e: "decode_v3_envelope frame = Inr env"
    by (auto simp: decode_v3_message_def rbind_eq_Inr map_err_eq_Inr)
  show thesis
    by (rule that[OF e]) (use assms e in \<open>auto simp: decode_v3_message_def rbind_eq_Inr map_err_eq_Inr Let_def
        split: ScopedData.splits\<close>)
qed

text \<open>The \<open>debug_assert\<close> of the zeroing: an offset comes with a non-empty field.\<close>

lemma zeroed_field_not_empty:
  assumes "decode_v3_message frame = Inr msg" "v3_auth_params_offset msg = Some off"
  shows "hi_auth_params (received_mac msg) \<noteq> []"
proof -
  obtain env where "decode_v3_envelope frame = Inr env" "v3_auth_params_offset msg = env_auth_params_offset env"
    "usf_auth_params (v3_usm msg) = res_ok (auth_params_try_from (uf_auth_params (env_usm env)))"
    by (rule decode_v3_message_obtain[OF assms(1)]) simp
  then show ?thesis using assms(2) decode_v3_envelope_facts(5)[of frame env]
    by (auto simp: received_mac_def auth_params_try_from_def)
qed

lemma zero_auth_params_slice:
  assumes "off + n \<le> length m" "length m < 9223372036854775808"
  shows "zero_auth_params_in_message m off n = slice_set m off (replicate n 0)"
  using assms by (simp add: zero_auth_params_in_message_def usize_checked_add_def slice_get_def)

lemma verify_hmac_iff:
  assumes "crypto_ok cr" "off + length mac \<le> length m" "length m < 9223372036854775808"
  shows "verify_hmac cr p k \<lparr>hi_raw_message = m, hi_auth_params = mac, hi_auth_params_offset = Some off\<rparr>
    \<longleftrightarrow> compute_mac cr p k (slice_set m off (replicate (length mac) 0)) = Inr mac"
  using verify_mac_iff[OF assms(1), of p k "slice_set m off (replicate (length mac) 0)" mac]
  by (auto simp: verify_hmac_def zero_auth_params_slice[OF assms(2,3)] Let_def split: sum.splits)

lemma verified_message:
  assumes "crypto_ok cr" "decode_v3_message frame = Inr msg" "length frame < 9223372036854775808"
    and "verify_hmac cr p k (received_mac msg)" "decode_v3_envelope frame = Inr env"
    and "v3_auth_params_offset msg = env_auth_params_offset env" "v3_raw_message msg = frame"
    and "usf_auth_params (v3_usm msg) = res_ok (auth_params_try_from (uf_auth_params (env_usm env)))"
  obtains off where "env_auth_params_offset env = Some off"
    "off + length (uf_auth_params (env_usm env)) \<le> length frame"
    "take (length (uf_auth_params (env_usm env))) (drop off frame) = uf_auth_params (env_usm env)"
    "compute_mac cr p k (slice_set frame off (replicate (length (uf_auth_params (env_usm env))) 0))
       = Inr (uf_auth_params (env_usm env))"
proof -
  obtain off where off: "env_auth_params_offset env = Some off"
    using assms(4,6) by (auto simp: verify_hmac_def received_mac_def split: option.splits)
  note o = decode_v3_envelope_offset[OF assms(5) off]
  have "received_mac msg = \<lparr>hi_raw_message = frame, hi_auth_params = uf_auth_params (env_usm env),
      hi_auth_params_offset = Some off\<rparr>"
    using o(1) off assms(6-8) by (simp add: received_mac_def auth_params_try_from_def)
  then show thesis using that[OF off o(2,3)] verify_hmac_iff[OF assms(1) o(2) assms(3)] assms(4) by simp
qed

lemma serve_obtain:
  assumes "serve cr seed mib msg (pdu, cn) (ctx, salt) = (Inr response, s')"
  defines "i \<equiv> ctx_inputs ctx"
  obtains raw salt' where "encode_response_pdu (handle_pdu mib (v3_max_size msg) pdu) = Inr raw" "s' = (ctx, salt')"
    "encode_v3_envelope cr seed (v3_msg_id msg) (di_engine_id i) (v3_user_name msg) cn
       (engine_boots_u32 (di_engine_boots i)) (engine_time_u32 (di_engine_time i))
       (auth_credentials_of (di_usm_user i)) (priv_credentials_of (di_usm_user i)) raw salt = (Inr response, salt')"
proof -
  from assms(1) obtain salt' where r: "encode_v3_response cr seed (v3_msg_id msg) (di_engine_id i) (v3_user_name msg) cn
       (engine_boots_u32 (di_engine_boots i)) (engine_time_u32 (di_engine_time i))
       (auth_credentials_of (di_usm_user i)) (priv_credentials_of (di_usm_user i))
       (handle_pdu mib (v3_max_size msg) pdu) salt = (Inr response, salt')" "s' = (ctx, salt')"
    by (auto simp: serve_def dispatch_pdu_and_encode_response_def i_def ok_or_eq_Inr res_ok_def Let_def
        split: prod.splits sum.splits)
  then show thesis using that by (auto simp: encode_v3_response_def split: sum.splits)
qed

lemma served_engine_bounds:
  assumes "encode_v3_envelope cr seed mid e u c b t auth privacy raw salt = (Inr response, salt')"
  shows "unat b < 2147483648" "unat t < 2147483648"
  using encode_v3_envelope_errors[of b t auth privacy cr seed mid e u c raw salt] assms by fastforce+

lemma served_checks:
  assumes "di_usm_user (ctx_inputs ctx) = Some user" "usm_auth_credentials user = Some cred"
    and "run_validation_pipeline cr seed mib frame (ctx, salt) = (Inr response, s')"
  obtains msg where "decode_v3_message frame = Inr msg"
    "verify_hmac cr (ac_protocol cred) (ac_key cred) (received_mac msg)"
    "v3_user_name msg = user_name_bytes (usm_name user)"
    "\<not> should_reject_security_level (ctx_inputs ctx) (flags_security_level (usf_security_flags (v3_usm msg)))"
    "is_in_time_window (EngineBoots (usf_auth_engine_boots (v3_usm msg)))
      (EngineTime (usf_auth_engine_time (v3_usm msg))) (di_engine_boots (ctx_inputs ctx)) (di_engine_time (ctx_inputs ctx))"
    "unat (engine_boots_u32 (di_engine_boots (ctx_inputs ctx))) < 2147483648"
    "unat (engine_time_u32 (di_engine_time (ctx_inputs ctx))) < 2147483648"
proof -
  let ?i = "ctx_inputs ctx"
  obtain msg and sp :: DecodedScopedPdu where d: "decode_v3_message frame = Inr msg"
    and rows: "\<forall>r \<in> set (early_rows cr ?i msg). \<not> fst r"
    and sv: "serve cr seed mib msg (dsp_pdu sp, []) (ctx, salt) = (Inr response, s')"
    by (rule served_obtain[OF assms(3)]) blast
  have creds: "auth_credentials_of (di_usm_user ?i) = Some (ac_protocol cred, ac_key cred)"
    using assms(1,2) by (simp add: auth_credentials_cases)
  obtain raw salt' where enc: "encode_v3_envelope cr seed (v3_msg_id msg) (di_engine_id ?i) (v3_user_name msg) []
       (engine_boots_u32 (di_engine_boots ?i)) (engine_time_u32 (di_engine_time ?i))
       (auth_credentials_of (di_usm_user ?i)) (priv_credentials_of (di_usm_user ?i)) raw salt = (Inr response, salt')"
    by (rule serve_obtain[OF sv]) blast
  show thesis by (rule that[OF d]) (use rows creds assms(1) served_engine_bounds[OF enc] in \<open>simp_all add: early_rows_def\<close>)
qed

lemma time_window_wire:
  assumes "is_in_time_window (EngineBoots (unwrap_or_u32 0xFFFFFFFF mb)) (EngineTime (unwrap_or_u32 0xFFFFFFFF mt)) eb et"
    and "unat (engine_boots_u32 eb) < 2147483648" "unat (engine_time_u32 et) < 2147483648"
  shows "mb = engine_boots_u32 eb" "\<bar>sint mt - int (unat (engine_time_u32 et))\<bar> \<le> 150"
proof -
  have b: "EngineBoots (unwrap_or_u32 0xFFFFFFFF mb) = eb"
    and t: "\<bar>int (unat (unwrap_or_u32 0xFFFFFFFF mt)) - int (unat (engine_time_u32 et))\<bar> \<le> 150"
    using assms(1) by (auto simp: is_in_time_window_def Let_def split: if_splits)
  show "mb = engine_boots_u32 eb"
    using b assms(2) by (cases eb) (auto simp: unwrap_or_u32_def u32_try_from_i32_def split: if_splits)
  show "\<bar>sint mt - int (unat (engine_time_u32 et))\<bar> \<le> 150"
  proof (cases "0 \<le> sint mt")
    case True
    then have "unat mt < 2147483648" by (simp only: sint_nonneg)
    then have "sint mt = int (unat mt)" by (simp add: sint_unat)
    then show ?thesis using t True by (simp add: unwrap_or_u32_def u32_try_from_i32_def)
  next
    case False
    then have "unat (unwrap_or_u32 0xFFFFFFFF mt) = 4294967295" by (simp add: unwrap_or_u32_def u32_try_from_i32_def)
    then show ?thesis using t assms(3) by linarith
  qed
qed

section \<open>Messages of a key holder\<close>

text \<open>An encoded message as its receiver sees it: the fields, a MAC that verifies, and the scoped PDU
  in the clear or under a ciphertext that opens to it.\<close>

lemma sint_of_small: "unat (w::u32) < 2147483648 \<Longrightarrow> 0 \<le> sint w"
  by (simp only: sint_nonneg)

lemma mac_len_nonzero: "mac_len p \<noteq> 0"
  by (cases p) simp_all

lemma encoded_envelope_decodes:
  assumes cr: "crypto_ok cr"
    and ok: "envelope_ok msg_id engine_id user_name context_name boots time auth privacy raw"
    and enc: "encode_v3_envelope cr seed msg_id engine_id user_name context_name boots time auth privacy raw st = (Inr frame, st')"
  obtains mac pp sd off where
    "decode_v3_envelope frame = Inr \<lparr>env_msg_id = message_id_i32 msg_id, env_max_size = MSG_MAX_SIZE_UDP,
       env_security_flags = response_flags auth privacy, env_security_model = 3,
       env_usm = response_usm engine_id boots time user_name mac pp, env_scoped_data = sd,
       env_raw_message = frame, env_auth_params_offset = (if mac = [] then None else Some off)\<rparr>"
    "length mac = placeholder_len auth" "off + length mac \<le> length frame"
    "length frame \<le> 2 * length engine_id + length user_name + length context_name + length raw + 296"
    "\<forall>p k. auth = Some (p, k) \<longrightarrow> mac \<noteq> [] \<and> compute_mac cr p k (slice_set frame off (replicate (length mac) 0)) = Inr mac"
    "privacy = None \<longrightarrow> sd = ScopedPlaintext engine_id context_name raw \<and> pp = []"
    "\<forall>q k. privacy = Some (q, k) \<longrightarrow> length pp = 8 \<and> (\<exists>ct. sd = ScopedEncrypted ct
       \<and> priv_decrypt cr q k (aes_iv boots time pp) ct = Inr (encode_scoped_pdu engine_id context_name raw))"
proof -
  let ?h = "response_header msg_id (response_flags auth privacy)"
  obtain mac pp sd st2 where e: "encode_v3_envelope cr seed msg_id engine_id user_name context_name boots time auth privacy raw st
       = (Inr (encoded_v3 ?h (response_usm engine_id boots time user_name mac pp) (scoped_body sd)), st2)"
    and lm: "length mac = placeholder_len auth" and lp: "length pp \<le> 8"
    and ls: "length (scoped_body sd) \<le> length engine_id + length context_name + length raw + 40"
    and m: "\<forall>p k. auth = Some (p, k) \<longrightarrow> compute_mac cr p k (encoded_v3 ?h
          (response_usm engine_id boots time user_name (replicate (mac_len p) 0) pp) (scoped_body sd)) = Inr mac"
    and none: "privacy = None \<longrightarrow> sd = ScopedPlaintext engine_id context_name raw \<and> pp = [] \<and> st2 = st"
    and some: "\<forall>q k. privacy = Some (q, k) \<longrightarrow> length pp = 8 \<and> (\<exists>ct. sd = ScopedEncrypted ct
       \<and> priv_decrypt cr q k (aes_iv boots time pp) ct = Inr (encode_scoped_pdu engine_id context_name raw))"
    by (rule encode_v3_envelope_obtain[OF cr ok])
  let ?u = "response_usm engine_id boots time user_name mac pp"
  have fr: "frame = encoded_v3 ?h ?u (scoped_body sd)" using enc e by simp
  have len: "length frame \<le> 2 * length engine_id + length user_name + length context_name + length raw + 296"
    using length_encoded_v3_le[of ?h ?u "scoped_body sd"] lm lp ls placeholder_len_le[of auth] by (simp add: fr)
  then have lf: "length (encoded_v3 ?h ?u (scoped_body sd)) < 9223372036854775808"
    using ok by (simp add: envelope_ok_def fr)
  have hu: "0 \<le> sint (hd_msg_id ?h)" "484 \<le> sint (hd_max_size ?h)" "length (uf_user_name ?u) \<le> 32"
    using ok by (simp_all add: envelope_ok_def MSG_MAX_SIZE_UDP_def)
  obtain off where off: "off = length (auth_prefix ?h ?u (scoped_body sd))"
    and d: "decode_v3_envelope (encoded_v3 ?h ?u (scoped_body sd)) = Inr \<lparr>env_msg_id = hd_msg_id ?h,
       env_max_size = hd_max_size ?h, env_security_flags = hd_security_flags ?h,
       env_security_model = hd_security_model ?h, env_usm = ?u, env_scoped_data = sd,
       env_raw_message = encoded_v3 ?h ?u (scoped_body sd),
       env_auth_params_offset = (if uf_auth_params ?u = [] then None else Some off)\<rparr>"
    using lf hu by (rule decode_encoded_v3)
  have z: "slice_set frame off (replicate (length mac) 0)
      = encoded_v3 ?h (response_usm engine_id boots time user_name (replicate (length mac) 0) pp) (scoped_body sd)"
    using encoded_v3_exchange[of "replicate (length mac) 0" ?u ?h "scoped_body sd"]
    by (simp add: fr off) (simp add: response_usm_def)
  have macs: "\<forall>p k. auth = Some (p, k) \<longrightarrow> mac \<noteq> [] \<and> compute_mac cr p k (slice_set frame off (replicate (length mac) 0)) = Inr mac"
    using m lm unfolding z by (auto simp: placeholder_len_def mac_len_nonzero)
  have "off + length mac \<le> length frame" unfolding fr off by (subst encoded_v3_split) simp
  then show thesis using d lm len macs none some by (intro that[of mac pp sd off]) (simp_all add: fr)
qed

text \<open>The same message read by the agent's decoder, for a request PDU.\<close>

lemma encoded_request_decodes:
  assumes cr: "crypto_ok cr"
    and ok: "envelope_ok msg_id engine_id user_name [] boots time auth privacy raw"
    and enc: "encode_v3_envelope cr seed msg_id engine_id user_name [] boots time auth privacy raw st = (Inr frame, st')"
    and pdu: "decode_pdu raw = Inr pdu"
    and creds: "auth = auth_credentials_of (di_usm_user i)" "privacy = priv_credentials_of (di_usm_user i)"
  obtains msg where "decode_v3_message frame = Inr msg" "v3_msg_id msg = msg_id" "v3_security_model msg = SecurityModel 3"
    "v3_max_size msg = MSG_MAX_SIZE_UDP" "v3_user_name msg = user_name" "v3_engine_id msg = engine_id"
    "v3_context_name msg = []" "usf_security_flags (v3_usm msg) = MsgFlags (response_flags auth privacy)"
    "usf_auth_engine_id (v3_usm msg) = engine_id" "usf_auth_engine_boots (v3_usm msg) = boots"
    "usf_auth_engine_time (v3_usm msg) = time" "is_encrypted msg \<longleftrightarrow> privacy \<noteq> None"
    "\<forall>p k. auth = Some (p, k) \<longrightarrow> verify_hmac cr p k (received_mac msg)"
    "opened cr i msg = Some \<lparr>dsp_context_engine_id = engine_id, dsp_context_name = [], dsp_pdu = pdu\<rparr>"
proof -
  obtain mac pp sd off where env: "decode_v3_envelope frame = Inr \<lparr>env_msg_id = message_id_i32 msg_id,
       env_max_size = MSG_MAX_SIZE_UDP, env_security_flags = response_flags auth privacy, env_security_model = 3,
       env_usm = response_usm engine_id boots time user_name mac pp, env_scoped_data = sd,
       env_raw_message = frame, env_auth_params_offset = (if mac = [] then None else Some off)\<rparr>"
    and lm: "length mac = placeholder_len auth" and off: "off + length mac \<le> length frame"
    and len: "length frame \<le> 2 * length engine_id + length user_name + length ([] :: bytes) + length raw + 296"
    and m: "\<forall>p k. auth = Some (p, k) \<longrightarrow> mac \<noteq> [] \<and> compute_mac cr p k (slice_set frame off (replicate (length mac) 0)) = Inr mac"
    and none: "privacy = None \<longrightarrow> sd = ScopedPlaintext engine_id [] raw \<and> pp = []"
    and some: "\<forall>q k. privacy = Some (q, k) \<longrightarrow> length pp = 8 \<and> (\<exists>ct. sd = ScopedEncrypted ct
       \<and> priv_decrypt cr q k (aes_iv boots time pp) ct = Inr (encode_scoped_pdu engine_id [] raw))"
    by (rule encoded_envelope_decodes[OF cr ok enc])
  obtain decoded where dp: "ber_decode_pdu raw = Inr decoded" "decoded_pdu_to_inbound decoded = Inr pdu"
    using pdu by (auto simp: decode_pdu_def result_Inr_iffs)
  define data where "data = (case sd of ScopedPlaintext _ _ _ \<Rightarrow> Plaintext pdu | ScopedEncrypted ct \<Rightarrow> Encrypted ct)"
  define msg where "msg = \<lparr>v3_msg_id = msg_id, v3_max_size = MSG_MAX_SIZE_UDP, v3_security_model = SecurityModel 3,
      v3_engine_id = engine_id, v3_context_name = [], v3_user_name = user_name, v3_scoped_data = data,
      v3_usm = \<lparr>usf_auth_engine_id = engine_id, usf_auth_engine_boots = boots, usf_auth_engine_time = time,
        usf_security_flags = MsgFlags (response_flags auth privacy),
        usf_auth_params = res_ok (auth_params_try_from mac), usf_priv_params = res_ok (privacy_salt_try_from pp)\<rparr>,
      v3_raw_message = frame, v3_auth_params_offset = (if mac = [] then None else Some off)\<rparr>"
  have bt: "unwrap_or_u32 0xFFFFFFFF boots = boots" "unwrap_or_u32 0xFFFFFFFF time = time"
    using ok sint_of_small[of boots] sint_of_small[of time]
    by (simp_all add: envelope_ok_def unwrap_or_u32_def u32_try_from_i32_def)
  have sd: "(\<exists>ct. sd = ScopedEncrypted ct) \<or> sd = ScopedPlaintext engine_id [] raw"
    "(\<exists>ct. sd = ScopedEncrypted ct) \<longleftrightarrow> privacy \<noteq> None"
    using none some by (cases privacy; auto)+
  have d: "decode_v3_message frame = Inr msg"
    using env sd(1) dp bt by (auto simp: decode_v3_message_def msg_def data_def Let_def)
  have lf: "length frame < 9223372036854775808" using len ok by (simp add: envelope_ok_def)
  have v: "verify_hmac cr p k (received_mac msg)" if a: "auth = Some (p, k)" for p k
  proof -
    have "received_mac msg = \<lparr>hi_raw_message = frame, hi_auth_params = mac, hi_auth_params_offset = Some off\<rparr>"
      using m a by (auto simp: received_mac_def msg_def auth_params_try_from_def)
    then show ?thesis using m a verify_hmac_iff[OF cr off lf] by simp
  qed
  have o: "opened cr i msg = Some \<lparr>dsp_context_engine_id = engine_id, dsp_context_name = [], dsp_pdu = pdu\<rparr>"
  proof (cases privacy)
    case None
    then show ?thesis using none by (simp add: opened_def msg_def data_def)
  next
    case (Some qk)
    obtain q k where qk: "privacy = Some (q, k)" using Some by (cases qk) simp
    then obtain ct where ct: "sd = ScopedEncrypted ct" "length pp = 8"
      "priv_decrypt cr q k (aes_iv boots time pp) ct = Inr (encode_scoped_pdu engine_id [] raw)" using some by blast
    have "length (encode_scoped_pdu engine_id [] raw) < 9223372036854775808"
      using length_scoped_body_le[of engine_id "[]" raw] ok by (simp add: encoded_layers envelope_ok_def)
    then have "decode_scoped_pdu (encode_scoped_pdu engine_id [] raw)
        = Inr \<lparr>dsp_context_engine_id = engine_id, dsp_context_name = [], dsp_pdu = pdu\<rparr>"
      using dp by (simp add: decode_scoped_pdu_def ber_decode_scoped_pdu_encoded)
    then show ?thesis using ct qk creds(2)
      by (simp add: opened_def msg_def data_def privacy_salt_try_from_def)
  qed
  have e: "is_encrypted msg \<longleftrightarrow> privacy \<noteq> None"
    using sd by (auto simp: msg_def data_def split: ScopedData.splits)
  show thesis by (rule that[OF d _ _ _ _ _ _ _ _ _ _ e _ o]) (use v in \<open>simp_all add: msg_def\<close>)
qed

lemma user_keys_ok:
  assumes "\<forall>user. u = Some user \<longrightarrow> usm_user_wf user"
  shows "auth_keys_ok (auth_credentials_of u)" "priv_keys_ok (priv_credentials_of u)"
    "auth_credentials_of u = None \<longrightarrow> priv_credentials_of u = None"
  using assms by (cases u; auto simp: auth_credentials_cases auth_keys_ok_def priv_keys_ok_def usm_user_wf_def)+

lemma user_flags_level:
  assumes "usm_user_wf user"
  shows "flags_security_level (MsgFlags (response_flags (auth_credentials_of (Some user)) (priv_credentials_of (Some user))))
      = Inr (user_security_level user)"
    "is_priv (MsgFlags (response_flags (auth_credentials_of (Some user)) (priv_credentials_of (Some user))))
      \<longleftrightarrow> priv_credentials_of (Some user) \<noteq> None"
  using assms by (cases "usm_auth_credentials user"; cases "usm_priv_credentials user";
      simp add: auth_credentials_cases response_flags_def flags_security_level_def security_level_try_from_def
        is_auth_def is_priv_def AUTH_BIT_def PRIV_BIT_def user_security_level_def usm_user_wf_def)+

lemma handle_pdu_error_index: "unat (resp_error_index (handle_pdu mib n pdu)) < 2147483648"
  by (cases pdu) (simp_all add: handle_get_def handle_get_next_def handle_get_bulk_def handle_set_def Let_def)

lemma response_envelope_ok:
  assumes "\<forall>user. di_usm_user i = Some user \<longrightarrow> usm_user_wf user" "decode_v3_message frame = Inr msg"
    and "length (di_engine_id i) \<le> 32" "unat b < 2147483648" "unat t < 2147483648"
    and "encode_response_pdu (handle_pdu mib n pdu) = Inr raw"
    and "length (concat (map wire_varbind (resp_varbinds (handle_pdu mib n pdu)))) < 4611686018427387904"
  shows "envelope_ok (v3_msg_id msg) (di_engine_id i) (v3_user_name msg) [] b t
    (auth_credentials_of (di_usm_user i)) (priv_credentials_of (di_usm_user i)) raw"
proof -
  obtain env where env: "decode_v3_envelope frame = Inr env" "v3_user_name msg = uf_user_name (env_usm env)"
    "v3_msg_id msg = MessageId (env_msg_id env)"
    by (rule decode_v3_message_obtain[OF assms(2)]) blast
  have "length raw \<le> length (concat (map wire_varbind (resp_varbinds (handle_pdu mib n pdu)))) + 62"
    using encode_response_pdu_spec[OF handle_pdu_error_index, of mib n pdu] assms(6) by (metis sum.inject(2))
  then have "2 * length (di_engine_id i) + length ([] :: bytes) + length raw + 400 < 9223372036854775808"
    using assms(3,7) by simp
  then show ?thesis
    using user_keys_ok[OF assms(1)] decode_v3_envelope_facts(2,4)[OF env(1)] env assms(4,5)
    by (simp add: envelope_ok_def)
qed

lemma early_rows_pass:
  assumes "decode_v3_message frame = Inr msg" "v3_security_model msg = SecurityModel 3"
    and "usf_auth_engine_id (v3_usm msg) = di_engine_id i" "v3_engine_id msg = di_engine_id i" "di_engine_id i \<noteq> []"
    and "di_usm_user i = Some user" "usm_user_wf user" "v3_user_name msg = user_name_bytes (usm_name user)"
    and "usf_security_flags (v3_usm msg) = MsgFlags (response_flags (auth_credentials_of (Some user)) (priv_credentials_of (Some user)))"
    and "di_minimum_security_level i \<le> user_security_level user"
    and "is_encrypted msg \<longleftrightarrow> priv_credentials_of (Some user) \<noteq> None"
    and "\<forall>p k. auth_credentials_of (Some user) = Some (p, k) \<longrightarrow> verify_hmac cr p k (received_mac msg)"
    and "is_in_time_window (EngineBoots (usf_auth_engine_boots (v3_usm msg)))
           (EngineTime (usf_auth_engine_time (v3_usm msg))) (di_engine_boots i) (di_engine_time i)"
    and "v3_context_name msg = []"
  shows "first_row (early_rows cr i msg) = None"
  using assms user_flags_level[OF assms(7)]
  by (auto simp: early_rows_def is_usm_def SecurityModel_USM_def should_reject_security_level_def not_less
      split: option.splits)

lemma passed_request_served:
  assumes "crypto_ok cr" "\<forall>u. di_usm_user (ctx_inputs ctx) = Some u \<longrightarrow> usm_user_wf u"
    and "decode_v3_message frame = Inr msg" "first_row (rejection_rows cr (ctx_inputs ctx) msg) = None"
    and "opened cr (ctx_inputs ctx) msg = Some sp" "dsp_context_name sp = []" "length (di_engine_id (ctx_inputs ctx)) \<le> 32"
    and "unat (engine_boots_u32 (di_engine_boots (ctx_inputs ctx))) < 2147483648"
    and "unat (engine_time_u32 (di_engine_time (ctx_inputs ctx))) < 2147483648"
    and "length (concat (map wire_varbind (resp_varbinds (handle_pdu mib (v3_max_size msg) (dsp_pdu sp))))) < 4611686018427387904"
  shows "\<exists>response salt'. run_validation_pipeline cr seed mib frame (ctx, salt) = (Inr response, (ctx, salt'))
    \<and> encode_v3_response cr seed (v3_msg_id msg) (di_engine_id (ctx_inputs ctx)) (v3_user_name msg) []
        (engine_boots_u32 (di_engine_boots (ctx_inputs ctx))) (engine_time_u32 (di_engine_time (ctx_inputs ctx)))
        (auth_credentials_of (di_usm_user (ctx_inputs ctx))) (priv_credentials_of (di_usm_user (ctx_inputs ctx)))
        (handle_pdu mib (v3_max_size msg) (dsp_pdu sp)) salt = (Inr response, salt')"
proof -
  let ?i = "ctx_inputs ctx"
  have run: "run_validation_pipeline cr seed mib frame (ctx, salt) = serve cr seed mib msg (dsp_pdu sp, []) (ctx, salt)"
    using pipeline_rows[OF assms(3), of cr seed mib "(ctx, salt)"] assms(4-6) by simp
  obtain raw where raw: "encode_response_pdu (handle_pdu mib (v3_max_size msg) (dsp_pdu sp)) = Inr raw"
    by (rule encode_response_pdu_spec[OF handle_pdu_error_index]) blast
  obtain response salt' where enc: "encode_v3_envelope cr seed (v3_msg_id msg) (di_engine_id ?i) (v3_user_name msg) []
      (engine_boots_u32 (di_engine_boots ?i)) (engine_time_u32 (di_engine_time ?i))
      (auth_credentials_of (di_usm_user ?i)) (priv_credentials_of (di_usm_user ?i)) raw salt = (Inr response, salt')"
    by (rule encode_v3_envelope_obtain[OF assms(1) response_envelope_ok[OF assms(2,3,7-9) raw assms(10)]]) blast
  show ?thesis
    using run enc raw
    by (intro exI[of _ response] exI[of _ salt'])
      (simp add: serve_def dispatch_pdu_and_encode_response_def encode_v3_response_def)
qed

lemma encoded_request_served:
  assumes "crypto_ok cr" "di_usm_user (ctx_inputs ctx) = Some user" "usm_user_wf user"
    and "di_minimum_security_level (ctx_inputs ctx) \<le> user_security_level user"
    and "di_engine_id (ctx_inputs ctx) \<noteq> []" "length (di_engine_id (ctx_inputs ctx)) \<le> 32"
    and "length (user_name_bytes (usm_name user)) \<le> 32" "0 \<le> sint (message_id_i32 msg_id)"
    and "unat (engine_boots_u32 (di_engine_boots (ctx_inputs ctx))) < 2 ^ 31"
    and "unat (engine_time_u32 (di_engine_time (ctx_inputs ctx))) < 2 ^ 31" "unat time < 2 ^ 31"
    and "\<bar>int (unat time) - int (unat (engine_time_u32 (di_engine_time (ctx_inputs ctx))))\<bar> \<le> 150"
    and "decode_pdu raw = Inr pdu" "length raw < 2 ^ 62"
    and "encode_v3_envelope cr seed' msg_id (di_engine_id (ctx_inputs ctx)) (user_name_bytes (usm_name user)) []
      (engine_boots_u32 (di_engine_boots (ctx_inputs ctx))) time (auth_credentials_of (Some user))
      (priv_credentials_of (Some user)) raw st = (Inr frame, st')"
    and "length (concat (map wire_varbind (resp_varbinds (handle_pdu mib MSG_MAX_SIZE_UDP pdu)))) < 2 ^ 62"
  shows "\<exists>response salt'. run_validation_pipeline cr seed mib frame (ctx, salt) = (Inr response, (ctx, salt'))
    \<and> encode_v3_response cr seed msg_id (di_engine_id (ctx_inputs ctx)) (user_name_bytes (usm_name user)) []
        (engine_boots_u32 (di_engine_boots (ctx_inputs ctx))) (engine_time_u32 (di_engine_time (ctx_inputs ctx)))
        (auth_credentials_of (Some user)) (priv_credentials_of (Some user))
        (handle_pdu mib MSG_MAX_SIZE_UDP pdu) salt = (Inr response, salt')"
proof -
  let ?i = "ctx_inputs ctx" let ?b = "engine_boots_u32 (di_engine_boots ?i)"
  let ?a = "auth_credentials_of (Some user)" let ?p = "priv_credentials_of (Some user)"
  have wf: "\<forall>u. di_usm_user ?i = Some u \<longrightarrow> usm_user_wf u" using assms(2,3) by simp
  have ok: "envelope_ok msg_id (di_engine_id ?i) (user_name_bytes (usm_name user)) [] ?b time ?a ?p raw"
    using user_keys_ok[of "Some user"] assms by (simp add: envelope_ok_def)
  have creds: "?a = auth_credentials_of (di_usm_user ?i)" "?p = priv_credentials_of (di_usm_user ?i)"
    using assms(2) by simp_all
  obtain msg where msg: "decode_v3_message frame = Inr msg" "v3_msg_id msg = msg_id" "v3_security_model msg = SecurityModel 3"
    "v3_max_size msg = MSG_MAX_SIZE_UDP" "v3_user_name msg = user_name_bytes (usm_name user)" "v3_engine_id msg = di_engine_id ?i"
    "v3_context_name msg = []" "usf_security_flags (v3_usm msg) = MsgFlags (response_flags ?a ?p)"
    "usf_auth_engine_id (v3_usm msg) = di_engine_id ?i" "usf_auth_engine_boots (v3_usm msg) = ?b"
    "usf_auth_engine_time (v3_usm msg) = time" "is_encrypted msg \<longleftrightarrow> ?p \<noteq> None"
    "\<forall>p k. ?a = Some (p, k) \<longrightarrow> verify_hmac cr p k (received_mac msg)"
    and o: "opened cr ?i msg = Some \<lparr>dsp_context_engine_id = di_engine_id ?i, dsp_context_name = [], dsp_pdu = pdu\<rparr>"
    by (rule encoded_request_decodes[OF assms(1) ok assms(15,13) creds])
  have w: "is_in_time_window (EngineBoots (usf_auth_engine_boots (v3_usm msg)))
      (EngineTime (usf_auth_engine_time (v3_usm msg))) (di_engine_boots ?i) (di_engine_time ?i)"
    using assms(12) by (simp add: msg is_in_time_window_def)
  have "first_row (early_rows cr ?i msg) = None"
    by (rule early_rows_pass[OF msg(1,3,9,6) assms(5,2,3) msg(5,8) assms(4) msg(12,13) w msg(7)])
  moreover have "first_row (scoped_rows cr ?i msg) = None"
    using o msg(12) creds by (simp add: scoped_rows_def del: not_None_eq)
  ultimately have rows: "first_row (rejection_rows cr ?i msg) = None" by (simp add: rejection_rows_def first_row_append)
  show ?thesis
    using passed_request_served[OF assms(1) wf msg(1) rows o _ assms(6), of mib seed salt] assms(2,9,10,16)
    by (simp add: msg)
qed

text \<open>A configuration and a request for the witnesses.\<close>

definition sample_user :: UsmUser where
  "sample_user = \<lparr>usm_name = UserName [0x75],
     usm_auth_credentials = Some \<lparr>ac_protocol = HmacSha256, ac_key = SecretKey (replicate 32 0)\<rparr>,
     usm_priv_credentials = Some \<lparr>pc_protocol = Aes128, pc_key = SecretKey (replicate 16 0)\<rparr>\<rparr>"

definition sample_context :: DispatchContext where
  "sample_context = DispatchContext \<lparr>di_engine_id = [0x80, 0, 0x1F, 0x88, 4], di_engine_boots = EngineBoots 2,
     di_engine_time = EngineTime 30, di_unknown_engine_ids_counter = UsmStatsCounter 0,
     di_unknown_user_names_counter = UsmStatsCounter 0, di_unsupported_sec_levels_counter = UsmStatsCounter 0,
     di_wrong_digests_counter = UsmStatsCounter 0, di_not_in_time_windows_counter = UsmStatsCounter 0,
     di_decryption_errors_counter = UsmStatsCounter 0, di_unknown_security_models_counter = UsmStatsCounter 0,
     di_usm_user = Some sample_user, di_minimum_security_level = AuthPriv\<rparr>"

definition sample_request :: bytes where
  "sample_request = tlv TAG_GET_REQUEST (pdu_body 5 0 0 (encode_varbind_list []))"

lemma sample_request_facts:
  "decode_pdu sample_request = Inr (PduGetRequest \<lparr>get_request_id = RequestId 5, get_varbinds = []\<rparr>)"
  "length sample_request < 100"
proof -
  have v: "encode_varbinds [] = Inr (encode_varbind_list [])" using encode_varbinds_wire[of "[]"] by simp
  have l: "length (encode_varbind_list []) \<le> 10" using encode_varbinds_length[OF v] by simp
  have t: "TAG_GET_REQUEST \<in> set VALID_STANDARD_PDU_TAGS" by (simp add: VALID_STANDARD_PDU_TAGS_def)
  have "length (encode_varbind_list []) + 60 < 9223372036854775808" "length (encode_varbind_list []) < 9223372036854775808"
    using l by simp_all
  then show "decode_pdu sample_request = Inr (PduGetRequest \<lparr>get_request_id = RequestId 5, get_varbinds = []\<rparr>)"
    using decode_pdu_encoded(1)[OF v _ t, of 5 0 0] decode_encoded_varbinds[OF v]
    by (simp add: sample_request_def)
  show "length sample_request < 100"
    using l length_pdu_le[of TAG_GET_REQUEST 5 0 0 "encode_varbind_list []"] by (simp add: sample_request_def)
qed

lemma sample_context_facts:
  "di_usm_user (ctx_inputs sample_context) = Some sample_user" "usm_user_wf sample_user"
  "di_minimum_security_level (ctx_inputs sample_context) \<le> user_security_level sample_user"
  "di_engine_id (ctx_inputs sample_context) = [0x80, 0, 0x1F, 0x88, 4]"
  "di_engine_boots (ctx_inputs sample_context) = EngineBoots 2" "di_engine_time (ctx_inputs sample_context) = EngineTime 30"
  "user_name_bytes (usm_name sample_user) = [0x75]"
  "auth_credentials_of (Some sample_user) = Some (HmacSha256, SecretKey (replicate 32 0))"
  "priv_credentials_of (Some sample_user) = Some (Aes128, SecretKey (replicate 16 0))"
  by (simp_all add: sample_context_def sample_user_def usm_user_wf_def secret_key_len_def user_security_level_def
      auth_credentials_cases)

lemma sample_envelope_ok: "envelope_ok (MessageId 7) [0x80, 0, 0x1F, 0x88, 4] [0x75] [] 2 100
    (auth_credentials_of (Some sample_user)) (priv_credentials_of (Some sample_user)) sample_request"
  using user_keys_ok[of "Some sample_user"] sample_context_facts(2,8,9) sample_request_facts(2)
  by (simp add: envelope_ok_def)

lemma sample_frame:
  obtains frame st' where
    "encode_v3_envelope checksum_crypto 1 (MessageId 7) [0x80, 0, 0x1F, 0x88, 4] [0x75] [] 2 100
       (auth_credentials_of (Some sample_user)) (priv_credentials_of (Some sample_user)) sample_request None = (Inr frame, st')"
    "length frame < 500"
proof -
  note ok = sample_envelope_ok
  obtain frame st' where e: "encode_v3_envelope checksum_crypto 1 (MessageId 7) [0x80, 0, 0x1F, 0x88, 4] [0x75] [] 2 100
       (auth_credentials_of (Some sample_user)) (priv_credentials_of (Some sample_user)) sample_request None = (Inr frame, st')"
    by (rule encode_v3_envelope_obtain[OF checksum_crypto_ok ok]) blast
  have "length frame \<le> 2 * length [0x80, 0, 0x1F, 0x88, 4 :: u8] + length [0x75 :: u8] + length ([] :: bytes) + length sample_request + 296"
    by (rule encoded_envelope_decodes[OF checksum_crypto_ok ok e]) blast
  then show thesis using that e sample_request_facts(2) by simp
qed

lemma sample_frame_served:
  assumes "encode_v3_envelope checksum_crypto 1 (MessageId 7) [0x80, 0, 0x1F, 0x88, 4] [0x75] [] 2 100
     (auth_credentials_of (Some sample_user)) (priv_credentials_of (Some sample_user)) sample_request None = (Inr frame, st')"
  shows "\<exists>response salt'. run_validation_pipeline checksum_crypto 1 store_new frame (sample_context, None)
    = (Inr response, (sample_context, salt'))"
  using encoded_request_served[OF checksum_crypto_ok sample_context_facts(1-3), of "MessageId 7" 100 sample_request
      "PduGetRequest \<lparr>get_request_id = RequestId 5, get_varbinds = []\<rparr>" 1 None frame st' store_new 1 None]
    assms sample_request_facts
  by (auto simp: sample_context_facts handle_get_def Let_def)

section \<open>Properties\<close>

text \<open>C1: The pipeline implements the rejection table: the first row whose condition holds decides
  the outcome, a silent drop or exactly one counter and report, and a message that passes every
  row is served with the scoped PDU it contains or decrypts to. A frame that is not a decodable
  SNMPv3 message changes nothing and gets no answer.\<close>

theorem pipeline_implements_table:
  "run_validation_pipeline cr seed mib frame s =
     (case decode_v3_message frame of
        Inl _ \<Rightarrow> (Inl Discard, s)
      | Inr msg \<Rightarrow>
          (case first_row (rejection_rows cr (ctx_inputs (fst s)) msg) of
             Some row \<Rightarrow> reject_row cr seed msg row s
           | None \<Rightarrow> serve cr seed mib msg (dsp_pdu (the (opened cr (ctx_inputs (fst s)) msg)),
               dsp_context_name (the (opened cr (ctx_inputs (fst s)) msg))) s))"
  by (cases "decode_v3_message frame") (simp add: run_validation_pipeline_def, simp add: pipeline_rows)

text \<open>C2: A request is served for a user with authentication only if its frame carries the MAC of
  that user's key: zeroing the authentication parameters in the frame and computing the MAC
  over it gives exactly those parameters. The message names the user and the agent's current
  boots, its time is within 150 seconds, and its security level lies between the configured
  minimum and the user's level.\<close>

theorem served_requests_authentic:
  assumes "crypto_ok cr" "length frame < 2 ^ 63"
    and "di_usm_user (ctx_inputs ctx) = Some user" "usm_auth_credentials user = Some cred"
    and "run_validation_pipeline cr seed mib frame (ctx, salt) = (Inr response, s')"
  shows "\<exists>env off level. decode_v3_envelope frame = Inr env \<and> env_auth_params_offset env = Some off
    \<and> take (length (uf_auth_params (env_usm env))) (drop off frame) = uf_auth_params (env_usm env)
    \<and> compute_mac cr (ac_protocol cred) (ac_key cred)
        (slice_set frame off (replicate (length (uf_auth_params (env_usm env))) 0)) = Inr (uf_auth_params (env_usm env))
    \<and> uf_user_name (env_usm env) = user_name_bytes (usm_name user)
    \<and> uf_engine_boots (env_usm env) = engine_boots_u32 (di_engine_boots (ctx_inputs ctx))
    \<and> \<bar>sint (uf_engine_time (env_usm env)) - int (unat (engine_time_u32 (di_engine_time (ctx_inputs ctx))))\<bar> \<le> 150
    \<and> flags_security_level (MsgFlags (env_security_flags env)) = Inr level
    \<and> di_minimum_security_level (ctx_inputs ctx) \<le> level \<and> level \<le> user_security_level user"
proof -
  let ?i = "ctx_inputs ctx"
  obtain msg where d: "decode_v3_message frame = Inr msg"
    and v: "verify_hmac cr (ac_protocol cred) (ac_key cred) (received_mac msg)"
    and name: "v3_user_name msg = user_name_bytes (usm_name user)"
    and level: "\<not> should_reject_security_level ?i (flags_security_level (usf_security_flags (v3_usm msg)))"
    and window: "is_in_time_window (EngineBoots (usf_auth_engine_boots (v3_usm msg)))
      (EngineTime (usf_auth_engine_time (v3_usm msg))) (di_engine_boots ?i) (di_engine_time ?i)"
    and small: "unat (engine_boots_u32 (di_engine_boots ?i)) < 2147483648" "unat (engine_time_u32 (di_engine_time ?i)) < 2147483648"
    by (rule served_checks[OF assms(3-5)])
  obtain env where env: "decode_v3_envelope frame = Inr env" "v3_raw_message msg = frame"
    "v3_auth_params_offset msg = env_auth_params_offset env" "v3_user_name msg = uf_user_name (env_usm env)"
    "v3_usm msg = \<lparr>usf_auth_engine_id = uf_engine_id (env_usm env),
       usf_auth_engine_boots = unwrap_or_u32 0xFFFFFFFF (uf_engine_boots (env_usm env)),
       usf_auth_engine_time = unwrap_or_u32 0xFFFFFFFF (uf_engine_time (env_usm env)),
       usf_security_flags = MsgFlags (env_security_flags env),
       usf_auth_params = res_ok (auth_params_try_from (uf_auth_params (env_usm env))),
       usf_priv_params = res_ok (privacy_salt_try_from (uf_priv_params (env_usm env)))\<rparr>"
    by (rule decode_v3_message_obtain[OF d]) blast
  have len: "length frame < 9223372036854775808" using assms(2) by simp
  have ap: "usf_auth_params (v3_usm msg) = res_ok (auth_params_try_from (uf_auth_params (env_usm env)))"
    using env(5) by simp
  obtain off where "env_auth_params_offset env = Some off"
    "take (length (uf_auth_params (env_usm env))) (drop off frame) = uf_auth_params (env_usm env)"
    "compute_mac cr (ac_protocol cred) (ac_key cred) (slice_set frame off (replicate (length (uf_auth_params (env_usm env))) 0))
       = Inr (uf_auth_params (env_usm env))"
    by (rule verified_message[OF assms(1) d len v env(1,3,2) ap]) blast
  moreover obtain l where "flags_security_level (MsgFlags (env_security_flags env)) = Inr l"
    "di_minimum_security_level ?i \<le> l" "l \<le> user_security_level user"
    using level assms(3) env(5) by (auto simp: should_reject_security_level_def not_less split: sum.splits)
  moreover have "uf_engine_boots (env_usm env) = engine_boots_u32 (di_engine_boots ?i)"
    "\<bar>sint (uf_engine_time (env_usm env)) - int (unat (engine_time_u32 (di_engine_time ?i)))\<bar> \<le> 150"
    using time_window_wire[OF _ small] window env(5) by simp_all
  ultimately show ?thesis using env(1,4) name by (intro exI conjI) simp_all
qed

theorem served_requests_authentic_witness:
  "\<exists>frame env off mac. decode_v3_envelope frame = Inr env \<and> env_auth_params_offset env = Some off
     \<and> compute_mac checksum_crypto HmacSha256 (SecretKey (replicate 32 0))
         (slice_set frame off (replicate (length mac) 0)) = Inr mac \<and> uf_engine_boots (env_usm env) = 2"
proof -
  obtain frame st' where f: "encode_v3_envelope checksum_crypto 1 (MessageId 7) [0x80, 0, 0x1F, 0x88, 4] [0x75] [] 2 100
       (auth_credentials_of (Some sample_user)) (priv_credentials_of (Some sample_user)) sample_request None = (Inr frame, st')"
    and l: "length frame < 500" by (rule sample_frame)
  obtain response salt' where "run_validation_pipeline checksum_crypto 1 store_new frame (sample_context, None)
      = (Inr response, (sample_context, salt'))"
    using sample_frame_served[OF f] by blast
  from served_requests_authentic[OF checksum_crypto_ok _ sample_context_facts(1) _ this] l show ?thesis
    by (fastforce simp: sample_user_def sample_context_facts(5))
qed

text \<open>C3: A holder of the user's keys is served: a request encoded with them for the agent's engine,
  its current boots and a time within 150 seconds passes every check, for every security level
  the configuration allows, and the answer is the encoded response of the request handler. The
  context is left unchanged.\<close>

theorem key_holder_is_served:
  assumes "crypto_ok cr" "di_usm_user (ctx_inputs ctx) = Some user" "usm_user_wf user"
    and "di_minimum_security_level (ctx_inputs ctx) \<le> user_security_level user"
    and "di_engine_id (ctx_inputs ctx) \<noteq> []" "length (di_engine_id (ctx_inputs ctx)) \<le> 32"
    and "length (user_name_bytes (usm_name user)) \<le> 32" "0 \<le> sint (message_id_i32 msg_id)"
    and "unat (engine_boots_u32 (di_engine_boots (ctx_inputs ctx))) < 2 ^ 31"
    and "unat (engine_time_u32 (di_engine_time (ctx_inputs ctx))) < 2 ^ 31" "unat time < 2 ^ 31"
    and "\<bar>int (unat time) - int (unat (engine_time_u32 (di_engine_time (ctx_inputs ctx))))\<bar> \<le> 150"
    and "decode_pdu raw = Inr pdu" "length raw < 2 ^ 62"
    and "encode_v3_envelope cr seed' msg_id (di_engine_id (ctx_inputs ctx)) (user_name_bytes (usm_name user)) []
      (engine_boots_u32 (di_engine_boots (ctx_inputs ctx))) time (auth_credentials_of (Some user))
      (priv_credentials_of (Some user)) raw st = (Inr frame, st')"
    and "length (concat (map wire_varbind (resp_varbinds (handle_pdu mib MSG_MAX_SIZE_UDP pdu)))) < 2 ^ 62"
  shows "\<exists>response salt'. run_validation_pipeline cr seed mib frame (ctx, salt) = (Inr response, (ctx, salt'))
    \<and> encode_v3_response cr seed msg_id (di_engine_id (ctx_inputs ctx)) (user_name_bytes (usm_name user)) []
        (engine_boots_u32 (di_engine_boots (ctx_inputs ctx))) (engine_time_u32 (di_engine_time (ctx_inputs ctx)))
        (auth_credentials_of (Some user)) (priv_credentials_of (Some user))
        (handle_pdu mib MSG_MAX_SIZE_UDP pdu) salt = (Inr response, salt')"
  by (rule encoded_request_served) (rule assms)+

theorem key_holder_is_served_witness:
  "\<exists>frame response salt'. run_validation_pipeline checksum_crypto 1 store_new frame (sample_context, None)
      = (Inr response, (sample_context, salt'))"
proof -
  obtain frame st' where f: "encode_v3_envelope checksum_crypto 1 (MessageId 7) [0x80, 0, 0x1F, 0x88, 4] [0x75] [] 2 100
       (auth_credentials_of (Some sample_user)) (priv_credentials_of (Some sample_user)) sample_request None = (Inr frame, st')"
    by (rule sample_frame)
  from key_holder_is_served[OF checksum_crypto_ok sample_context_facts(1-3), of "MessageId 7" 100 sample_request
        "PduGetRequest \<lparr>get_request_id = RequestId 5, get_varbinds = []\<rparr>" 1 None frame st' store_new 1 None]
      f sample_request_facts
  show ?thesis by (auto simp: sample_context_facts handle_get_def Let_def)
qed

section \<open>Messages a key holder accepts\<close>

text \<open>What the receiver of a message checks: the header fields, the MAC, and the scoped PDU, which
  the holder of the privacy key decrypts.\<close>

definition message_opens_as ::
  "crypto \<Rightarrow> (AuthProtocol \<times> SecretKey) option \<Rightarrow> (PrivProtocol \<times> SecretKey) option \<Rightarrow> MessageId \<Rightarrow> bytes
    \<Rightarrow> u32 \<Rightarrow> u32 \<Rightarrow> bytes \<Rightarrow> bytes \<Rightarrow> bytes \<Rightarrow> bool" where
  "message_opens_as cr auth privacy msg_id engine_id boots time user_name raw m \<longleftrightarrow>
     (\<exists>env. decode_v3_envelope m = Inr env
    \<and> env_msg_id env = message_id_i32 msg_id \<and> env_security_model env = 3
    \<and> env_security_flags env = response_flags auth privacy
    \<and> uf_engine_id (env_usm env) = engine_id \<and> uf_engine_boots (env_usm env) = boots
    \<and> uf_engine_time (env_usm env) = time \<and> uf_user_name (env_usm env) = user_name
    \<and> (\<forall>p k. auth = Some (p, k) \<longrightarrow>
         verify_hmac cr p k \<lparr>hi_raw_message = m, hi_auth_params = uf_auth_params (env_usm env),
           hi_auth_params_offset = env_auth_params_offset env\<rparr>)
    \<and> (privacy = None \<longrightarrow> env_scoped_data env = ScopedPlaintext engine_id [] raw)
    \<and> (\<forall>q k. privacy = Some (q, k) \<longrightarrow>
         (\<exists>ct plain. env_scoped_data env = ScopedEncrypted ct
            \<and> priv_decrypt cr q k (aes_iv boots time (uf_priv_params (env_usm env))) ct = Inr plain
            \<and> ber_decode_scoped_pdu plain
              = Inr \<lparr>dsf_context_engine_id = engine_id, dsf_context_name = [], dsf_raw_pdu = raw\<rparr>)))"

lemma encoded_envelope_opens:
  assumes cr: "crypto_ok cr"
    and ok: "envelope_ok msg_id engine_id user_name [] boots time auth privacy raw"
    and enc: "encode_v3_envelope cr seed msg_id engine_id user_name [] boots time auth privacy raw st = (Inr m, st')"
  shows "message_opens_as cr auth privacy msg_id engine_id boots time user_name raw m"
proof -
  obtain mac pp sd off where env: "decode_v3_envelope m = Inr \<lparr>env_msg_id = message_id_i32 msg_id,
       env_max_size = MSG_MAX_SIZE_UDP, env_security_flags = response_flags auth privacy, env_security_model = 3,
       env_usm = response_usm engine_id boots time user_name mac pp, env_scoped_data = sd,
       env_raw_message = m, env_auth_params_offset = (if mac = [] then None else Some off)\<rparr>"
    and "length mac = placeholder_len auth" and off: "off + length mac \<le> length m"
    and len: "length m \<le> 2 * length engine_id + length user_name + length ([] :: bytes) + length raw + 296"
    and mac: "\<forall>p k. auth = Some (p, k) \<longrightarrow> mac \<noteq> [] \<and> compute_mac cr p k (slice_set m off (replicate (length mac) 0)) = Inr mac"
    and none: "privacy = None \<longrightarrow> sd = ScopedPlaintext engine_id [] raw \<and> pp = []"
    and some: "\<forall>q k. privacy = Some (q, k) \<longrightarrow> length pp = 8 \<and> (\<exists>ct. sd = ScopedEncrypted ct
       \<and> priv_decrypt cr q k (aes_iv boots time pp) ct = Inr (encode_scoped_pdu engine_id [] raw))"
    by (rule encoded_envelope_decodes[OF cr ok enc])
  have lm: "length m < 9223372036854775808" using len ok by (simp add: envelope_ok_def)
  have "length (encode_scoped_pdu engine_id [] raw) < 9223372036854775808"
    using length_scoped_body_le[of engine_id "[]" raw] ok by (simp add: encoded_layers envelope_ok_def)
  note sp = ber_decode_scoped_pdu_encoded[OF this]
  have v: "\<forall>p k. auth = Some (p, k) \<longrightarrow> verify_hmac cr p k \<lparr>hi_raw_message = m, hi_auth_params = mac,
      hi_auth_params_offset = (if mac = [] then None else Some off)\<rparr>"
    using mac verify_hmac_iff[OF cr off lm] by simp
  show ?thesis unfolding message_opens_as_def env using v none some sp by auto
qed

text \<open>An encoded message is one SEQUENCE, hence one frame of the transport.\<close>

lemma encoded_envelope_sequence:
  assumes "crypto_ok cr" "envelope_ok msg_id engine_id user_name context_name boots time auth privacy raw"
    and "encode_v3_envelope cr seed msg_id engine_id user_name context_name boots time auth privacy raw st = (Inr frame, st')"
  shows "\<exists>v. frame = tlv TAG_SEQUENCE v"
proof -
  obtain h u sd st2 where "encode_v3_envelope cr seed msg_id engine_id user_name context_name boots time auth privacy raw st
      = (Inr (encoded_v3 h u sd), st2)"
    by (rule encode_v3_envelope_obtain[OF assms(1,2)]) blast
  then show ?thesis using assms(3) by (auto simp: encoded_v3_def)
qed

text \<open>A report is encoded without credentials and never touches the salt counter.\<close>

lemma encode_v3_envelope_plain_salt:
  "snd (encode_v3_envelope cr seed mid e u c b t auth None raw st) = st"
  by (auto simp: encode_v3_envelope_def seal_scoped_pdu_def Let_def split: sum.splits prod.splits)

lemma oid_length_le: "length (as_slice oid) \<le> 128"
  using as_slice[of oid] by (simp add: valid_components_def MAX_OID_SUB_IDENTIFIERS_def)

lemma encode_v3_report_obtain:
  assumes "crypto_ok cr" "encode_v3_report cr seed msg_id engine_id boots time oid value st = (r, st')"
    and "0 \<le> sint (message_id_i32 msg_id)" "length engine_id \<le> 32"
  obtains vbl raw where "st' = st" "encode_varbinds [\<lparr>vb_oid = oid, vb_value = Value (Counter32 value)\<rparr>] = Inr vbl"
    "encode_pdu TAG_REPORT (message_id_i32 msg_id) 0 0 vbl = Inr raw"
    "\<forall>m. r = Inr m \<longrightarrow> message_opens_as cr None None msg_id engine_id boots time [] raw m"
    "(\<exists>m. r = Inr m) \<longleftrightarrow> unat boots < 2147483648 \<and> unat time < 2147483648"
proof -
  let ?vb = "\<lparr>vb_oid = oid, vb_value = Value (Counter32 value)\<rparr> :: Varbind"
  obtain vbl where vbl: "encode_varbinds [?vb] = Inr vbl" by (simp add: encode_varbinds_wire)
  have t: "TAG_REPORT \<in> set VALID_STANDARD_PDU_TAGS" by (simp add: VALID_STANDARD_PDU_TAGS_def)
  let ?raw = "tlv TAG_REPORT (pdu_body (message_id_i32 msg_id) 0 0 vbl)"
  have raw: "encode_pdu TAG_REPORT (message_id_i32 msg_id) 0 0 vbl = Inr ?raw" using t by (simp add: encode_pdu_tlv)
  have e: "encode_v3_envelope cr seed msg_id engine_id [] [] boots time None None ?raw st = (r, st')"
    using assms(2) vbl raw by (simp add: encode_v3_report_def)
  have st: "st' = st" using encode_v3_envelope_plain_salt[of cr seed msg_id engine_id "[]" "[]" boots time None ?raw st] e by simp
  have "length (encode_oid oid) \<le> 640" using length_encode_oid[of oid] oid_length_le[of oid] by linarith
  then have "length (wire_varbind ?vb) \<le> 700"
    using length_tlv_le[of TAG_SEQUENCE "tlv TAG_OID (encode_oid oid) @ tlv (wire_tag (vb_value ?vb)) (wire_contents (vb_value ?vb))"]
      length_tlv_le[of TAG_OID "encode_oid oid"] length_tlv_le[of "wire_tag (vb_value ?vb)" "wire_contents (vb_value ?vb)"]
      length_encode_unsigned(1)[of "value"]
    by (simp add: wire_varbind_tlv)
  then have "length ?raw \<le> 800"
    using encode_varbinds_length[OF vbl] length_pdu_le[of TAG_REPORT "message_id_i32 msg_id" 0 0 vbl] by simp
  then have ok: "envelope_ok msg_id engine_id [] [] boots time None None ?raw"
    if "unat boots < 2147483648" "unat time < 2147483648"
    using that assms(3,4) by (simp add: envelope_ok_def auth_keys_ok_def priv_keys_ok_def)
  have iff: "(\<exists>m. r = Inr m) \<longleftrightarrow> unat boots < 2147483648 \<and> unat time < 2147483648"
  proof
    assume "\<exists>m. r = Inr m"
    then obtain m where m: "r = Inr m" by blast
    show "unat boots < 2147483648 \<and> unat time < 2147483648" using served_engine_bounds[OF e[unfolded m]] by blast
  next
    assume bt: "unat boots < 2147483648 \<and> unat time < 2147483648"
    obtain m st2 where "encode_v3_envelope cr seed msg_id engine_id [] [] boots time None None ?raw st = (Inr m, st2)"
      by (rule encode_v3_envelope_obtain[OF assms(1) ok]) (use bt in blast)+
    then show "\<exists>m. r = Inr m" using e by simp
  qed
  have "\<forall>m. r = Inr m \<longrightarrow> message_opens_as cr None None msg_id engine_id boots time [] ?raw m"
    using iff ok encoded_envelope_opens[OF assms(1)] e by blast
  then show thesis using that st vbl raw iff by blast
qed


text \<open>C4: Every response is one its manager accepts: it echoes the message ID and the user name,
  carries the agent's engine ID, boots and time, and for a user with authentication a MAC that
  verifies; its scoped PDU, decrypted with the user's key where the user has privacy, is the
  encoded response of the request handler. Its security level is the level of the configured
  user, whatever level the request used.\<close>

theorem responses_accepted_by_manager:
  fixes ctx :: DispatchContext
  defines "i \<equiv> ctx_inputs ctx"
  assumes "crypto_ok cr" "\<forall>user. di_usm_user i = Some user \<longrightarrow> usm_user_wf user"
    and "length (di_engine_id i) \<le> 32"
    and "run_validation_pipeline cr seed mib frame (ctx, salt) = (Inr response, s')"
    and "decode_v3_message frame = Inr msg" "opened cr i msg = Some sp"
    and "length (concat (map wire_varbind (resp_varbinds (handle_pdu mib (v3_max_size msg) (dsp_pdu sp))))) < 2 ^ 62"
  shows "\<exists>raw. encode_response_pdu (handle_pdu mib (v3_max_size msg) (dsp_pdu sp)) = Inr raw
    \<and> message_opens_as cr (auth_credentials_of (di_usm_user i)) (priv_credentials_of (di_usm_user i)) (v3_msg_id msg)
        (di_engine_id i) (engine_boots_u32 (di_engine_boots i)) (engine_time_u32 (di_engine_time i))
        (v3_user_name msg) raw response"
proof -
  have "serve cr seed mib msg (dsp_pdu sp, []) (ctx, salt) = (Inr response, s')"
    using served_obtain[OF assms(5)] assms(6,7) unfolding i_def by (metis option.inject sum.inject(2))
  then obtain raw salt' where raw: "encode_response_pdu (handle_pdu mib (v3_max_size msg) (dsp_pdu sp)) = Inr raw"
    and enc: "encode_v3_envelope cr seed (v3_msg_id msg) (di_engine_id i) (v3_user_name msg) []
       (engine_boots_u32 (di_engine_boots i)) (engine_time_u32 (di_engine_time i))
       (auth_credentials_of (di_usm_user i)) (priv_credentials_of (di_usm_user i)) raw salt = (Inr response, salt')"
    unfolding i_def by (rule serve_obtain) blast
  have vb: "length (concat (map wire_varbind (resp_varbinds (handle_pdu mib (v3_max_size msg) (dsp_pdu sp))))) < 4611686018427387904"
    using assms(8) by simp
  note ok = response_envelope_ok[OF assms(3,6,4) served_engine_bounds[OF enc] raw vb]
  show ?thesis using raw encoded_envelope_opens[OF assms(2) ok enc] by blast
qed

theorem responses_accepted_by_manager_witness:
  "\<exists>frame response raw s'. run_validation_pipeline checksum_crypto 1 store_new frame (sample_context, None) = (Inr response, s')
     \<and> message_opens_as checksum_crypto (auth_credentials_of (Some sample_user)) (priv_credentials_of (Some sample_user))
         (MessageId 7) [0x80, 0, 0x1F, 0x88, 4] 2 30 [0x75] raw response"
proof -
  obtain frame st' where f: "encode_v3_envelope checksum_crypto 1 (MessageId 7) [0x80, 0, 0x1F, 0x88, 4] [0x75] [] 2 100
       (auth_credentials_of (Some sample_user)) (priv_credentials_of (Some sample_user)) sample_request None = (Inr frame, st')"
    by (rule sample_frame)
  obtain response salt' where run: "run_validation_pipeline checksum_crypto 1 store_new frame (sample_context, None)
      = (Inr response, (sample_context, salt'))"
    using sample_frame_served[OF f] by blast
  obtain msg where msg: "decode_v3_message frame = Inr msg" "v3_msg_id msg = MessageId 7" "v3_user_name msg = [0x75]"
    "opened checksum_crypto (ctx_inputs sample_context) msg = Some \<lparr>dsp_context_engine_id = [0x80, 0, 0x1F, 0x88, 4],
       dsp_context_name = [], dsp_pdu = PduGetRequest \<lparr>get_request_id = RequestId 5, get_varbinds = []\<rparr>\<rparr>"
    by (rule encoded_request_decodes[OF checksum_crypto_ok sample_envelope_ok f sample_request_facts(1),
          where i = "ctx_inputs sample_context"]) (use sample_context_facts(1) in auto)
  from responses_accepted_by_manager[OF checksum_crypto_ok _ _ run msg(1,4)] run
  show ?thesis by (auto simp: sample_context_facts msg handle_get_def Let_def)
qed

section \<open>Rejections\<close>

definition report_counters :: "(counter_ref \<times> Oid) list" where
  "report_counters =
     [(unknown_security_models, UNKNOWN_SECURITY_MODELS_OID), (unknown_engine_ids, UNKNOWN_ENGINE_IDS_OID),
      (unknown_user_names, UNKNOWN_USER_NAMES_OID), (unsupported_sec_levels, UNSUPPORTED_SEC_LEVELS_OID),
      (wrong_digests, WRONG_DIGESTS_OID), (not_in_time_windows, NOT_IN_TIME_WINDOWS_OID),
      (decryption_errors, DECRYPTION_ERRORS_OID)]"

lemma rejection_rows_counters: "(c, Some r) \<in> set (rejection_rows cr i msg) \<Longrightarrow> r \<in> set report_counters"
  by (auto simp: rejection_rows_def early_rows_def scoped_rows_def report_counters_def)

lemma first_row_in: "first_row rows = Some row \<Longrightarrow> (True, row) \<in> set rows"
  by (induction rows) (auto split: if_splits)

lemma counter_fields:
  "(c, oid) \<in> set report_counters \<Longrightarrow>
     di_engine_id (snd c f i) = di_engine_id i \<and> di_engine_boots (snd c f i) = di_engine_boots i
   \<and> di_engine_time (snd c f i) = di_engine_time i \<and> di_usm_user (snd c f i) = di_usm_user i
   \<and> di_minimum_security_level (snd c f i) = di_minimum_security_level i
   \<and> fst c (snd c f i) = f (fst c i)
   \<and> (\<forall>c' oid'. (c', oid') \<in> set report_counters \<longrightarrow> oid' \<noteq> oid \<longrightarrow> fst c' (snd c f i) = fst c' i)"
  by (simp add: report_counters_def) (elim disjE; auto)

text \<open>The seven constants parse, so that the lazily initialised OIDs never panic.\<close>

lemma show_dec_digit: "n < 10 \<Longrightarrow> show_dec n = [char_of (48 + n)]"
  by (simp add: show_dec.simps)

lemma show_dec_two: "10 \<le> n \<Longrightarrow> n < 100 \<Longrightarrow> show_dec n = [char_of (48 + n div 10), char_of (48 + n mod 10)]"
  by (subst show_dec.simps) (simp add: show_dec_digit)

lemma parsed_display: "display_oid oid = s \<Longrightarrow> oid_from_str s = Inr oid"
  using oid_from_str_display by blast

lemma counter_oids_parse:
  "oid_from_str USM_STATS_UNKNOWN_ENGINE_IDS = Inr (Oid_of [1, 3, 6, 1, 6, 3, 15, 1, 1, 4, 0])"
  "oid_from_str USM_STATS_NOT_IN_TIME_WINDOWS = Inr (Oid_of [1, 3, 6, 1, 6, 3, 15, 1, 1, 2, 0])"
  "oid_from_str USM_STATS_UNKNOWN_USER_NAMES = Inr (Oid_of [1, 3, 6, 1, 6, 3, 15, 1, 1, 3, 0])"
  "oid_from_str USM_STATS_UNSUPPORTED_SEC_LEVELS = Inr (Oid_of [1, 3, 6, 1, 6, 3, 15, 1, 1, 1, 0])"
  "oid_from_str USM_STATS_WRONG_DIGESTS = Inr (Oid_of [1, 3, 6, 1, 6, 3, 15, 1, 1, 5, 0])"
  "oid_from_str USM_STATS_DECRYPTION_ERRORS = Inr (Oid_of [1, 3, 6, 1, 6, 3, 15, 1, 1, 6, 0])"
  "oid_from_str SNMP_UNKNOWN_SECURITY_MODELS_OID = Inr (Oid_of [1, 3, 6, 1, 6, 3, 11, 2, 1, 1, 0])"
  by (rule parsed_display, simp add: display_oid_def display_components_def display_u32_def valid_components_def
      show_dec_digit show_dec_two USM_STATS_UNKNOWN_ENGINE_IDS_def USM_STATS_NOT_IN_TIME_WINDOWS_def
      USM_STATS_UNKNOWN_USER_NAMES_def USM_STATS_UNSUPPORTED_SEC_LEVELS_def USM_STATS_WRONG_DIGESTS_def
      USM_STATS_DECRYPTION_ERRORS_def SNMP_UNKNOWN_SECURITY_MODELS_OID_def; simp add: char_of_def bit_iff_odd)+

lemma report_oids:
  "map (as_slice \<circ> snd) report_counters =
     [[1, 3, 6, 1, 6, 3, 11, 2, 1, 1, 0], [1, 3, 6, 1, 6, 3, 15, 1, 1, 4, 0], [1, 3, 6, 1, 6, 3, 15, 1, 1, 3, 0],
      [1, 3, 6, 1, 6, 3, 15, 1, 1, 1, 0], [1, 3, 6, 1, 6, 3, 15, 1, 1, 5, 0], [1, 3, 6, 1, 6, 3, 15, 1, 1, 2, 0],
      [1, 3, 6, 1, 6, 3, 15, 1, 1, 6, 0]]"
  by (simp add: report_counters_def UNKNOWN_ENGINE_IDS_OID_def UNKNOWN_USER_NAMES_OID_def UNSUPPORTED_SEC_LEVELS_OID_def
      WRONG_DIGESTS_OID_def NOT_IN_TIME_WINDOWS_OID_def DECRYPTION_ERRORS_OID_def UNKNOWN_SECURITY_MODELS_OID_def
      parsed_oid_def counter_oids_parse valid_components_def)

definition report_about :: "crypto \<Rightarrow> MessageId \<Rightarrow> DispatchInputs \<Rightarrow> Oid \<Rightarrow> UsmStatsCounter \<Rightarrow> bytes \<Rightarrow> bool" where
  "report_about cr msg_id i oid value m \<longleftrightarrow>
     (\<exists>vbl raw. encode_varbinds [\<lparr>vb_oid = oid, vb_value = Value (Counter32 (counter_get value))\<rparr>] = Inr vbl
        \<and> encode_pdu TAG_REPORT (message_id_i32 msg_id) 0 0 vbl = Inr raw
        \<and> message_opens_as cr None None msg_id (di_engine_id i) (engine_boots_u32 (di_engine_boots i))
            (engine_time_u32 (di_engine_time i)) [] raw m)"

lemma reject_with_effect:
  assumes "crypto_ok cr" "(c, oid) \<in> set report_counters" "0 \<le> sint (message_id_i32 msg_id)"
    and "length (di_engine_id (ctx_inputs ctx)) \<le> 32"
    and "reject_with cr seed c oid msg_id flags (ctx, salt) = (Inl reject, (ctx', salt'))"
  shows "ctx_inputs ctx' = snd c counter_saturating_increment (ctx_inputs ctx) \<and> salt' = salt
    \<and> (case reject of
         Report m \<Rightarrow> is_reportable flags \<and> report_about cr msg_id (ctx_inputs ctx') oid (fst c (ctx_inputs ctx')) m
       | Discard \<Rightarrow> \<not> (is_reportable flags \<and> unat (engine_boots_u32 (di_engine_boots (ctx_inputs ctx))) < 2147483648
           \<and> unat (engine_time_u32 (di_engine_time (ctx_inputs ctx))) < 2147483648))"
proof -
  let ?i = "snd c counter_saturating_increment (ctx_inputs ctx)"
  note f = counter_fields[OF assms(2), of counter_saturating_increment "ctx_inputs ctx"]
  obtain r st where enc: "encode_v3_report cr seed msg_id (di_engine_id ?i) (engine_boots_u32 (di_engine_boots ?i))
      (engine_time_u32 (di_engine_time ?i)) oid (counter_get (fst c ?i)) salt = (r, st)" by fastforce
  have eid: "length (di_engine_id ?i) \<le> 32" using f assms(4) by simp
  obtain vbl raw where v: "st = salt" "encode_varbinds [\<lparr>vb_oid = oid, vb_value = Value (Counter32 (counter_get (fst c ?i)))\<rparr>] = Inr vbl"
    "encode_pdu TAG_REPORT (message_id_i32 msg_id) 0 0 vbl = Inr raw"
    "\<forall>m. r = Inr m \<longrightarrow> message_opens_as cr None None msg_id (di_engine_id ?i) (engine_boots_u32 (di_engine_boots ?i))
       (engine_time_u32 (di_engine_time ?i)) [] raw m"
    "(\<exists>m. r = Inr m) \<longleftrightarrow> unat (engine_boots_u32 (di_engine_boots ?i)) < 2147483648
       \<and> unat (engine_time_u32 (di_engine_time ?i)) < 2147483648"
    by (rule encode_v3_report_obtain[OF assms(1) enc assms(3) eid])
  have e: "emit_report_response cr seed c oid msg_id flags (ctx, salt) =
      (if is_reportable flags then case r of Inl _ \<Rightarrow> Discard | Inr bs \<Rightarrow> Report bs else Discard, (DispatchContext ?i, salt))"
    using enc v(1) by (simp add: emit_report_response_def Let_def split: sum.splits)
  then have rj: "reject = (if is_reportable flags then case r of Inl _ \<Rightarrow> Discard | Inr bs \<Rightarrow> Report bs else Discard)"
    "ctx' = DispatchContext ?i" "salt' = salt"
    using assms(5) by (simp_all add: reject_with_def)
  show ?thesis
    using v f unfolding rj report_about_def by (cases r) (auto split: sum.splits)
qed

lemma message_id_nonneg: "decode_v3_message frame = Inr msg \<Longrightarrow> 0 \<le> sint (message_id_i32 (v3_msg_id msg))"
  using decode_v3_envelope_facts(2) by (auto elim!: decode_v3_message_obtain)

text \<open>An engine-ID discovery probe for the witnesses.\<close>

definition probe_frame :: bytes where
  "probe_frame = encoded_v3 \<lparr>hd_msg_id = 7, hd_max_size = 1500, hd_security_flags = 4, hd_security_model = 3\<rparr>
     \<lparr>uf_engine_id = [], uf_engine_boots = 0, uf_engine_time = 0, uf_user_name = [], uf_auth_params = [],
      uf_priv_params = []\<rparr> (scoped_body (ScopedPlaintext [] [] sample_request))"

lemma probe_decodes:
  obtains msg where "decode_v3_message probe_frame = Inr msg" "v3_security_model msg = SecurityModel_USM"
    "usf_auth_engine_id (v3_usm msg) = []" "is_reportable (usf_security_flags (v3_usm msg))" "v3_msg_id msg = MessageId 7"
    "usf_auth_params (v3_usm msg) = None"
proof -
  let ?h = "\<lparr>hd_msg_id = 7, hd_max_size = 1500, hd_security_flags = 4, hd_security_model = 3\<rparr> :: HeaderData"
  let ?u = "\<lparr>uf_engine_id = [], uf_engine_boots = 0, uf_engine_time = 0, uf_user_name = [], uf_auth_params = [],
      uf_priv_params = []\<rparr> :: UsmFields"
  let ?sd = "ScopedPlaintext [] [] sample_request"
  have l: "length (encoded_v3 ?h ?u (scoped_body ?sd)) < 9223372036854775808"
    using length_encoded_v3_le[of ?h ?u "scoped_body ?sd"] length_scoped_body_le[of "[]" "[]" sample_request]
      sample_request_facts(2) by simp
  obtain env where env: "decode_v3_envelope probe_frame = Inr env" "env_msg_id env = 7" "env_security_flags env = 4"
    "env_security_model env = 3" "env_usm env = ?u" "env_scoped_data env = ?sd"
    unfolding probe_frame_def by (rule decode_encoded_v3[OF l]) simp_all
  obtain decoded where "ber_decode_pdu sample_request = Inr decoded"
    "decoded_pdu_to_inbound decoded = Inr (PduGetRequest \<lparr>get_request_id = RequestId 5, get_varbinds = []\<rparr>)"
    using sample_request_facts(1) by (auto simp: decode_pdu_def result_Inr_iffs)
  then obtain msg where msg: "decode_v3_message probe_frame = Inr msg" "v3_security_model msg = SecurityModel 3"
    "usf_auth_engine_id (v3_usm msg) = []" "usf_security_flags (v3_usm msg) = MsgFlags 4" "v3_msg_id msg = MessageId 7"
    "usf_auth_params (v3_usm msg) = None"
    using env by (simp add: decode_v3_message_def auth_params_try_from_def)
  show thesis by (rule that[OF msg(1)]) (simp_all add: msg SecurityModel_USM_def is_reportable_def REPORTABLE_BIT_def)
qed

text \<open>C10: A rejected frame has exactly one effect. Either the context stays and nothing is sent, or one
  statistics counter goes up by one, saturating, while every other field of the context stays
  as it was; then a report is sent exactly if the message asked for reports and the boots and
  time can be encoded, and the report carries that counter's OID and new value with the agent's
  engine ID, boots and time, unauthenticated and in the clear.\<close>

theorem rejection_effects:
  assumes "crypto_ok cr" "length (di_engine_id (ctx_inputs ctx)) \<le> 32"
    and "run_validation_pipeline cr seed mib frame (ctx, salt) = (Inl reject, (ctx', salt'))"
  shows "reject = Discard \<and> ctx' = ctx
    \<or> (\<exists>msg c oid. decode_v3_message frame = Inr msg \<and> (c, oid) \<in> set report_counters
        \<and> ctx_inputs ctx' = snd c counter_saturating_increment (ctx_inputs ctx) \<and> salt' = salt
        \<and> (case reject of
             Report m \<Rightarrow> is_reportable (usf_security_flags (v3_usm msg))
               \<and> report_about cr (v3_msg_id msg) (ctx_inputs ctx') oid (fst c (ctx_inputs ctx')) m
           | Discard \<Rightarrow> \<not> (is_reportable (usf_security_flags (v3_usm msg))
               \<and> unat (engine_boots_u32 (di_engine_boots (ctx_inputs ctx))) < 2 ^ 31
               \<and> unat (engine_time_u32 (di_engine_time (ctx_inputs ctx))) < 2 ^ 31)))"
proof (cases "decode_v3_message frame")
  case (Inl e)
  then show ?thesis using assms(3) by (simp add: run_validation_pipeline_def)
next
  case (Inr msg)
  note p = pipeline_rows[OF Inr, of cr seed mib "(ctx, salt)"]
  show ?thesis
  proof (cases "first_row (rejection_rows cr (ctx_inputs ctx) msg)")
    case None
    then show ?thesis using p assms(3) by (auto simp: serve_def ok_or_def Let_def split: prod.splits option.splits)
  next
    case (Some row)
    show ?thesis
    proof (cases row)
      case None
      then show ?thesis using p Some assms(3) by (simp add: reject_row_simps)
    next
      case row: (Some c_oid)
      obtain c oid where co: "c_oid = (c, oid)" by (cases c_oid)
      have mem: "(c, oid) \<in> set report_counters"
        using rejection_rows_counters[of True] first_row_in[OF Some] row co by blast
      have "reject_with cr seed c oid (v3_msg_id msg) (usf_security_flags (v3_usm msg)) (ctx, salt)
          = (Inl reject :: Reject + bytes, (ctx', salt'))"
        using p Some assms(3) row co by (simp add: reject_row_simps)
      from reject_with_effect[OF assms(1) mem message_id_nonneg[OF Inr] assms(2) this] Inr mem
      show ?thesis by (intro disjI2 exI[of _ msg] exI[of _ c] exI[of _ oid]) (auto split: Reject.splits)
    qed
  qed
qed

theorem rejection_effects_witness:
  "\<exists>m ctx'. run_validation_pipeline checksum_crypto 1 store_new probe_frame (sample_context, None) = (Inl (Report m), (ctx', None))
     \<and> (\<exists>c oid. (c, oid) \<in> set report_counters \<and> ctx_inputs ctx' = snd c counter_saturating_increment (ctx_inputs sample_context)
          \<and> report_about checksum_crypto (MessageId 7) (ctx_inputs ctx') oid (fst c (ctx_inputs ctx')) m)"
proof -
  obtain msg where msg: "decode_v3_message probe_frame = Inr msg" "v3_security_model msg = SecurityModel_USM"
    "usf_auth_engine_id (v3_usm msg) = []" "is_reportable (usf_security_flags (v3_usm msg))" "v3_msg_id msg = MessageId 7"
    by (rule probe_decodes)
  have r: "first_row (rejection_rows checksum_crypto (ctx_inputs sample_context) msg)
      = Some (Some (unknown_engine_ids, UNKNOWN_ENGINE_IDS_OID))"
    by (simp add: rejection_rows_def early_rows_def is_usm_def msg)
  obtain reject ctx' salt' where run: "run_validation_pipeline checksum_crypto 1 store_new probe_frame (sample_context, None)
      = (Inl reject, (ctx', salt'))"
    using pipeline_rows[OF msg(1), of checksum_crypto 1 store_new "(sample_context, None)"] r
    by (auto simp: reject_row_simps reject_with_def split: prod.splits)
  have "ctx' \<noteq> sample_context"
    using run pipeline_rows[OF msg(1), of checksum_crypto 1 store_new "(sample_context, None)"] r
    by (auto simp: reject_row_simps reject_with_def emit_report_response_def Let_def sample_context_def
        counter_saturating_increment_def split: prod.splits if_splits)
  with rejection_effects[OF checksum_crypto_ok _ run] msg run show ?thesis
    by (cases reject) (auto simp: sample_context_facts)
qed

lemma served_security_floor:
  assumes "run_validation_pipeline cr seed mib frame (ctx, salt) = (Inr response, s')"
    and "decode_v3_message frame = Inr msg"
  shows "(\<exists>level. flags_security_level (usf_security_flags (v3_usm msg)) = Inr level
        \<and> di_minimum_security_level (ctx_inputs ctx) \<le> level)
    \<and> (di_minimum_security_level (ctx_inputs ctx) = AuthPriv \<longrightarrow>
        is_encrypted msg \<and> priv_credentials_of (di_usm_user (ctx_inputs ctx)) \<noteq> None)
    \<and> (\<forall>p k. auth_credentials_of (di_usm_user (ctx_inputs ctx)) = Some (p, k) \<longrightarrow> verify_hmac cr p k (received_mac msg))
    \<and> (di_usm_user (ctx_inputs ctx) = None \<longrightarrow>
        \<not> is_auth (usf_security_flags (v3_usm msg)) \<and> \<not> is_priv (usf_security_flags (v3_usm msg)) \<and> \<not> is_encrypted msg)"
proof -
  let ?i = "ctx_inputs ctx" let ?f = "usf_security_flags (v3_usm msg)"
  obtain msg' and sp :: DecodedScopedPdu where d: "decode_v3_message frame = Inr msg'"
    and rows: "\<forall>r \<in> set (early_rows cr ?i msg'). \<not> fst r" and op: "opened cr ?i msg' = Some sp"
    by (rule served_obtain[OF assms(1)]) blast
  have m: "msg' = msg" using d assms(2) by simp
  have lvl: "\<not> should_reject_security_level ?i (flags_security_level ?f)" and pr: "is_priv ?f = is_encrypted msg"
    and mac: "\<forall>p k. auth_credentials_of (di_usm_user ?i) = Some (p, k) \<longrightarrow> verify_hmac cr p k (received_mac msg)"
    using rows by (auto simp: early_rows_def m split: option.splits)
  obtain level where l: "flags_security_level ?f = Inr level" "di_minimum_security_level ?i \<le> level"
    "di_usm_user ?i = None \<Longrightarrow> level \<le> NoAuthNoPriv"
    using lvl by (auto simp: should_reject_security_level_def not_less split: sum.splits)
  have top: "level = AuthPriv" if "di_minimum_security_level ?i = AuthPriv"
    using l(2) that by (cases level) (simp_all add: less_eq_SecurityLevel_def)
  have "is_encrypted msg \<and> priv_credentials_of (di_usm_user ?i) \<noteq> None" if "di_minimum_security_level ?i = AuthPriv"
    using l(1) top[OF that] flags_level_cases(3)[of ?f] pr op m
    by (auto simp: opened_def split: V3ScopedData.splits option.splits)
  moreover have "\<not> is_auth ?f \<and> \<not> is_priv ?f" if "di_usm_user ?i = None"
    using l(1) l(3)[OF that] flags_level_cases(1)[of ?f] by (cases level) (simp_all add: less_eq_SecurityLevel_def)
  ultimately show ?thesis using l(1,2) mac pr by blast
qed



text \<open>C11: Engine discovery always works: a probe with an empty engine ID and the reportable flag is
  answered, whatever user or level is configured, with a report that carries the agent's engine
  ID, boots and time and the incremented counter of unknown engine IDs.\<close>

theorem discovery_answered:
  assumes "crypto_ok cr" "length (di_engine_id (ctx_inputs ctx)) \<le> 32"
    and "unat (engine_boots_u32 (di_engine_boots (ctx_inputs ctx))) < 2 ^ 31"
    and "unat (engine_time_u32 (di_engine_time (ctx_inputs ctx))) < 2 ^ 31"
    and "decode_v3_message frame = Inr msg" "v3_security_model msg = SecurityModel_USM"
    and "usf_auth_engine_id (v3_usm msg) = []" "is_reportable (usf_security_flags (v3_usm msg))"
  shows "\<exists>m. process_snmpv3_request cr seed frame mib (ctx, salt)
      = (Some m, (DispatchContext (di_unknown_engine_ids_counter_update counter_saturating_increment (ctx_inputs ctx)), salt))
    \<and> report_about cr (v3_msg_id msg) (ctx_inputs ctx) UNKNOWN_ENGINE_IDS_OID
        (counter_saturating_increment (di_unknown_engine_ids_counter (ctx_inputs ctx))) m"
proof -
  let ?oid = UNKNOWN_ENGINE_IDS_OID
  have row: "first_row (rejection_rows cr (ctx_inputs ctx) msg) = Some (Some (unknown_engine_ids, ?oid))"
    using assms(6,7) by (simp add: rejection_rows_def early_rows_def is_usm_def)
  obtain reject ctx' salt' where r: "reject_with cr seed unknown_engine_ids ?oid (v3_msg_id msg)
      (usf_security_flags (v3_usm msg)) (ctx, salt) = (Inl reject :: Reject + bytes, (ctx', salt'))"
    by (cases "emit_report_response cr seed unknown_engine_ids ?oid (v3_msg_id msg) (usf_security_flags (v3_usm msg)) (ctx, salt)")
      (auto simp: reject_with_def)
  have mem: "(unknown_engine_ids, ?oid) \<in> set report_counters" by (simp add: report_counters_def)
  note e = reject_with_effect[OF assms(1) mem message_id_nonneg[OF assms(5)] assms(2) r]
  obtain m where m: "reject = Report m" using e assms(3,4,8) by (cases reject) simp_all
  have ctx': "ctx' = DispatchContext (di_unknown_engine_ids_counter_update counter_saturating_increment (ctx_inputs ctx))"
    using e by (cases ctx') simp
  have "process_snmpv3_request cr seed frame mib (ctx, salt) = (Some m, (ctx', salt))"
    using pipeline_rows[OF assms(5), of cr seed mib "(ctx, salt)"] row r e m
    by (simp add: process_snmpv3_request_def reject_row_simps)
  then show ?thesis using e m by (simp add: ctx' report_about_def)
qed

theorem discovery_answered_witness:
  "\<exists>m s'. process_snmpv3_request checksum_crypto 1 probe_frame store_new (sample_context, None) = (Some m, s')
     \<and> report_about checksum_crypto (MessageId 7) (ctx_inputs sample_context) UNKNOWN_ENGINE_IDS_OID (UsmStatsCounter 1) m"
proof -
  obtain msg where msg: "decode_v3_message probe_frame = Inr msg" "v3_security_model msg = SecurityModel_USM"
    "usf_auth_engine_id (v3_usm msg) = []" "is_reportable (usf_security_flags (v3_usm msg))" "v3_msg_id msg = MessageId 7"
    by (rule probe_decodes)
  have c: "counter_saturating_increment (di_unknown_engine_ids_counter (ctx_inputs sample_context)) = UsmStatsCounter 1"
    by (simp add: counter_saturating_increment_def sample_context_def)
  show ?thesis
    using discovery_answered[OF checksum_crypto_ok _ _ _ msg(1-4), of sample_context 1 store_new None] c
    by (auto simp: sample_context_facts msg)
qed

end
