(* ===== verification/Framing.thy ===== *)
theory Framing
  imports Dispatch
begin

text \<open>
  The RFC 3430 framing of \<open>transport/event_loop.rs\<close>: the length field of a frame, its total
  size, and the extraction of one complete frame from the front of a connection's read buffer.
  The lemmas show that extraction looks only at the bytes of the frame it returns, so that frames
  come out of the stream unchanged however the network cuts it, and that what waits in a
  buffer is always shorter than the largest frame.
\<close>

section \<open>Operations\<close>

datatype BerLengthError = BerLengthError

text \<open>The accumulation \<open>(content_length << 8) | byte\<close> on \<open>usize\<close>.\<close>

definition shift_in :: "nat \<Rightarrow> u8 \<Rightarrow> nat" where
  "shift_in content_length byte = take_bit 64 (push_bit 8 content_length) OR unat byte"

definition parse_ber_length :: "bytes \<Rightarrow> BerLengthError + (nat \<times> nat) option" where
  "parse_ber_length buf =
     (case buf of
        [] \<Rightarrow> Inr None
      | first_byte # rest \<Rightarrow>
          if first_byte AND 0x80 = 0 then Inr (Some (unat first_byte, 1))
          else let num_octets = unat (first_byte AND 0x7F)
            in if num_octets = 0 \<or> num_octets > 4 then Inl BerLengthError
               else case slice_get rest 0 num_octets of
                      None \<Rightarrow> Inr None
                    | Some length_bytes \<Rightarrow> Inr (Some (foldl shift_in 0 length_bytes, 1 + num_octets)))"

definition total_frame_size :: "nat \<Rightarrow> nat \<Rightarrow> nat option" where
  "total_frame_size length_field_bytes content_length =
     Option.bind (usize_checked_add 1 length_field_bytes) (\<lambda>partial. usize_checked_add partial content_length)"

datatype FrameOutcome = Complete bytes | Incomplete | Close string

definition next_complete_frame :: "bytes \<Rightarrow> FrameOutcome \<times> bytes" where
  "next_complete_frame read_buf =
     (case read_buf of
        [] \<Rightarrow> (Incomplete, read_buf)
      | tag_byte # after_tag \<Rightarrow>
          if tag_byte \<noteq> 0x30 then (Close ''non-SEQUENCE tag'', read_buf)
          else case parse_ber_length after_tag of
                 Inl _ \<Rightarrow> (Close ''invalid BER length encoding'', read_buf)
               | Inr None \<Rightarrow> (Incomplete, read_buf)
               | Inr (Some (content_length, length_field_bytes)) \<Rightarrow>
                   (case total_frame_size length_field_bytes content_length of
                      None \<Rightarrow> (Close ''frame size overflows usize'', read_buf)
                    | Some total_frame_bytes \<Rightarrow>
                        if total_frame_bytes > MAX_FRAME_SIZE then (Close ''oversized frame'', read_buf)
                        else case slice_get read_buf 0 total_frame_bytes of
                               None \<Rightarrow> (Incomplete, read_buf)
                             | Some ber_frame \<Rightarrow> (Complete ber_frame, drop total_frame_bytes read_buf)))"

section \<open>The length field\<close>

lemma shift_in_eq: "content_length < 72057594037927936 \<Longrightarrow> shift_in content_length byte = content_length * 256 + unat byte"
proof -
  assume "content_length < 72057594037927936"
  then have t: "take_bit 64 (push_bit 8 content_length) = push_bit 8 content_length"
    by (intro take_bit_nat_eq_self) (simp add: push_bit_eq_mult)
  have e: "take_bit 8 (unat byte) = unat byte" by (rule take_bit_nat_eq_self) simp
  have "bit (unat byte) n \<longrightarrow> n < 8" for n using bit_take_bit_iff[of 8 "unat byte" n] unfolding e by blast
  then have "push_bit 8 content_length AND unat byte = 0"
    by (intro bit_eqI) (auto simp: bit_and_iff bit_push_bit_iff not_le[symmetric])
  then have "push_bit 8 content_length OR unat byte = push_bit 8 content_length + unat byte"
    by (rule disjunctive_add_eq_or[symmetric])
  then show ?thesis unfolding shift_in_def t by (simp add: push_bit_eq_mult)
qed

lemma foldl_shift_in:
  assumes "length bs \<le> 4" "content_length < 256 ^ (4 - length bs)"
  shows "foldl shift_in content_length bs = content_length * 256 ^ length bs + be_nat bs"
  using assms
proof (induction bs arbitrary: content_length)
  case (Cons b bs)
  have p: "(256::nat) ^ (4 - length bs) = 256 * 256 ^ (4 - length (b # bs))"
    using Cons.prems(1) by (simp add: Suc_diff_le flip: power_Suc)
  have "(256::nat) ^ (4 - length (b # bs)) \<le> 256 ^ 4" by (rule power_increasing) simp_all
  then have s: "shift_in content_length b = content_length * 256 + unat b"
    using Cons.prems(2) by (intro shift_in_eq) simp
  have "content_length * 256 + unat b < Suc content_length * 256" using unat_u8_less[of b] by simp
  also have "\<dots> \<le> 256 ^ (4 - length bs)" using Cons.prems(2) unfolding p by simp
  finally have "content_length * 256 + unat b < 256 ^ (4 - length bs)" .
  then show ?case using Cons.IH[of "content_length * 256 + unat b"] Cons.prems(1)
    by (simp add: s algebra_simps)
qed simp

lemma length_field_value: "length bs \<le> 4 \<Longrightarrow> foldl shift_in 0 bs = be_nat bs"
  using foldl_shift_in[of bs 0] by simp

text \<open>A length field is understood from its own bytes alone.\<close>

lemma parse_ber_length_append:
  "parse_ber_length buf \<noteq> Inr None \<Longrightarrow> parse_ber_length (buf @ extra) = parse_ber_length buf"
  by (auto simp: parse_ber_length_def Let_def slice_get_def split: list.splits option.splits if_splits)

lemma parse_ber_length_bounds:
  assumes "parse_ber_length buf = Inr (Some (n, k))"
  shows "1 \<le> k" "k \<le> 5" "k \<le> length buf" "n < 4294967296"
proof -
  have "1 \<le> k \<and> k \<le> 5 \<and> k \<le> length buf \<and> n < 4294967296"
  proof (cases buf)
    case (Cons b rest)
    show ?thesis
    proof (cases "b AND 0x80 = 0")
      case True
      then show ?thesis using assms Cons unat_u8_less[of b] by (auto simp: parse_ber_length_def)
    next
      case False
      define m where "m = unat (b AND 0x7F)"
      have m: "m \<noteq> 0" "m \<le> 4" "m \<le> length rest" "n = foldl shift_in 0 (take m rest)" "k = 1 + m"
        using assms Cons False
        by (auto simp: parse_ber_length_def m_def slice_get_def Let_def split: if_splits)
      have "n < 256 ^ m" using be_nat_less[of "take m rest"] m(2-4) by (simp add: length_field_value min_absorb2)
      also have "\<dots> \<le> 256 ^ 4" using m(2) by (rule power_increasing) simp
      finally show ?thesis using m Cons by simp
    qed
  qed (use assms in \<open>simp add: parse_ber_length_def\<close>)
  then show "1 \<le> k" "k \<le> 5" "k \<le> length buf" "n < 4294967296" by auto
qed

lemma parse_ber_length_take:
  assumes "parse_ber_length buf = Inr (Some (n, k))" "k \<le> j"
  shows "parse_ber_length (take j buf @ extra) = Inr (Some (n, k))"
proof -
  have "parse_ber_length (take k buf) = Inr (Some (n, k))"
    using assms(1) by (auto simp: parse_ber_length_def Let_def slice_get_def split: list.splits if_splits)
  from parse_ber_length_append[of "take k buf" "drop k (take j buf) @ extra"] this
  have "parse_ber_length (take k (take j buf) @ drop k (take j buf) @ extra) = Inr (Some (n, k))"
    using assms(2) by (simp add: min_def)
  then show ?thesis by (simp only: append_assoc[symmetric] append_take_drop_id)
qed

lemma parse_ber_length_None: "parse_ber_length buf = Inr None \<Longrightarrow> length buf \<le> 4"
  by (auto simp: parse_ber_length_def Let_def slice_get_def split: list.splits if_splits option.splits)

text \<open>The encoder's length fields of up to four octets are the ones read back.\<close>

lemma parse_encoded_length:
  assumes "n < 4294967296"
  shows "parse_ber_length (encode_length [] n @ extra) = Inr (Some (n, length (encode_length [] n)))"
proof (cases "n \<le> 127")
  case True
  then have "unat (word_of_nat n :: u8) = n" by (simp add: unat_of_nat)
  with True show ?thesis by (simp add: parse_ber_length_def encode_length_def high_bit_clear)
next
  case False
  let ?k = "length_octets n"
  have k: "0 < ?k" "?k \<le> 8" "n < 256 ^ ?k" "256 ^ (?k - 1) \<le> n"
    using length_octets_bounds[of n] False assms by simp_all
  have k4: "?k \<le> 4"
  proof (rule ccontr)
    assume "\<not> ?k \<le> 4"
    then have "(256::nat) ^ 4 \<le> 256 ^ (?k - 1)" by (intro power_increasing) simp_all
    with k(4) assms show False by simp
  qed
  have b: "unat (0x80 + word_of_nat ?k :: u8) = 128 + ?k"
    using k4 by (simp add: unat_word_ariths unat_of_nat)
  have hb: "(0x80 + word_of_nat ?k :: u8) AND 0x80 \<noteq> 0" unfolding high_bit_clear b by simp
  have lb: "unat ((0x80 + word_of_nat ?k :: u8) AND 0x7F) = ?k" unfolding low_seven_bits b using k4 by simp
  have "foldl shift_in 0 (be_bytes ?k n) = n" using k4 k(3) by (simp add: length_field_value be_nat_be_bytes)
  with hb lb k(1) k4 False show ?thesis
    by (simp add: parse_ber_length_def encode_length_long slice_get_def Let_def)
qed

section \<open>Extracting frames\<close>

lemma total_frame_size_eq: "k \<le> 5 \<Longrightarrow> n < 4294967296 \<Longrightarrow> total_frame_size k n = Some (1 + k + n)"
  by (simp add: total_frame_size_def usize_checked_add_def)

text \<open>The case analysis of one extraction, in terms of the bytes of the buffer.\<close>

lemma next_frame_cases:
  "next_complete_frame buf =
     (case buf of [] \<Rightarrow> (Incomplete, buf)
      | tag # rest \<Rightarrow> if tag \<noteq> 0x30 then (Close ''non-SEQUENCE tag'', buf)
          else case parse_ber_length rest of
                 Inl _ \<Rightarrow> (Close ''invalid BER length encoding'', buf)
               | Inr None \<Rightarrow> (Incomplete, buf)
               | Inr (Some (n, k)) \<Rightarrow>
                   if 65535 < 1 + k + n then (Close ''oversized frame'', buf)
                   else if length buf < 1 + k + n then (Incomplete, buf)
                   else (Complete (take (1 + k + n) buf), drop (1 + k + n) buf))"
proof (cases buf)
  case (Cons tag rest)
  then show ?thesis
  proof (cases "parse_ber_length rest")
    case (Inr r)
    then show ?thesis
    proof (cases r)
      case (Some nk)
      obtain n k where "nk = (n, k)" by (cases nk)
      with parse_ber_length_bounds[of rest n k] Cons Inr Some show ?thesis
        by (simp add: next_complete_frame_def total_frame_size_eq MAX_FRAME_SIZE_def slice_get_def not_less)
    qed (simp add: next_complete_frame_def Cons)
  qed (simp add: next_complete_frame_def)
qed (simp add: next_complete_frame_def)

lemma next_frame_Complete:
  assumes "next_complete_frame buf = (Complete frame, rest)"
  shows "buf = frame @ rest" "2 \<le> length frame" "length frame \<le> 65535"
    "next_complete_frame (frame @ extra) = (Complete frame, extra)"
proof -
  obtain tail n k where c: "buf = 0x30 # tail" "parse_ber_length tail = Inr (Some (n, k))"
    "1 + k + n \<le> 65535" "1 + k + n \<le> length buf" "frame = take (1 + k + n) buf" "rest = drop (1 + k + n) buf"
    using assms unfolding next_frame_cases[of buf]
    by (auto simp: not_less split: list.splits if_splits sum.splits option.splits prod.splits)
  note b = parse_ber_length_bounds[OF c(2)]
  have p: "parse_ber_length (take (k + n) tail @ extra) = Inr (Some (n, k))"
    by (rule parse_ber_length_take[OF c(2)]) simp
  show "buf = frame @ rest" "2 \<le> length frame" "length frame \<le> 65535" using c b by auto
  show "next_complete_frame (frame @ extra) = (Complete frame, extra)"
    using c p by (simp add: next_frame_cases)
qed

lemma next_frame_shrinks: "next_complete_frame buf = (Complete frame, rest) \<Longrightarrow> length rest < length buf"
  using next_frame_Complete(1,2)[of buf frame rest] by auto

lemma next_frame_Incomplete:
  assumes "next_complete_frame buf = (Incomplete, rest)"
  shows "rest = buf" "length buf < 65535"
proof -
  have "rest = buf \<and> (\<forall>tag tail. buf = tag # tail \<longrightarrow> parse_ber_length tail = Inr None \<or> length buf < 65535)"
    using assms unfolding next_frame_cases[of buf]
    by (auto split: list.splits if_splits sum.splits option.splits prod.splits)
  then show "rest = buf" "length buf < 65535"
    by (simp, cases buf) (auto dest: parse_ber_length_None)
qed

lemma next_frame_Close:
  assumes "next_complete_frame buf = (Close reason, rest)"
  shows "rest = buf" "next_complete_frame (buf @ extra) = (Close reason, buf @ extra)"
proof -
  obtain tag tail where c: "rest = buf" "buf = tag # tail" "tag = 0x30 \<longrightarrow> parse_ber_length tail \<noteq> Inr None"
    using assms unfolding next_frame_cases[of buf]
    by (auto split: list.splits if_splits sum.splits option.splits prod.splits)
  show "rest = buf" by (rule c(1))
  show "next_complete_frame (buf @ extra) = (Close reason, buf @ extra)"
    using assms c parse_ber_length_append[of tail extra] unfolding next_frame_cases[of buf] next_frame_cases[of "buf @ extra"]
    by (cases "tag = 0x30") (auto split: if_splits sum.splits option.splits prod.splits)
qed

text \<open>A message of the agent's own encoders is one frame.\<close>

lemma tlv_is_frame:
  assumes "length (tlv TAG_SEQUENCE v) \<le> 65535"
  shows "next_complete_frame (tlv TAG_SEQUENCE v @ extra) = (Complete (tlv TAG_SEQUENCE v), extra)"
proof -
  have n: "length v < 4294967296" using assms by (simp add: length_tlv)
  show ?thesis using assms parse_encoded_length[OF n, of "v @ extra"]
    by (simp add: next_frame_cases tlv_def TAG_SEQUENCE_def)
qed

section \<open>Streams\<close>

text \<open>The frames at the front of a byte stream, with the outcome and the bytes the extraction
  stops at; \<open>deliver\<close> does the same for a stream that arrives in chunks, extracting after each.\<close>

function split_frames :: "bytes \<Rightarrow> bytes list \<times> FrameOutcome \<times> bytes" where
  "split_frames buf =
     (case next_complete_frame buf of
        (Complete frame, rest) \<Rightarrow> (let (frames, stop) = split_frames rest in (frame # frames, stop))
      | stop \<Rightarrow> ([], stop))"
  by auto
termination
  by (relation "measure length") (simp_all add: next_frame_shrinks[OF sym])

declare split_frames.simps [simp del]

fun deliver :: "bytes list \<Rightarrow> bytes \<Rightarrow> bytes list \<times> FrameOutcome \<times> bytes" where
  "deliver [] buf = ([], Incomplete, buf)"
| "deliver (chunk # chunks) buf =
     (case split_frames (buf @ chunk) of
        (frames, Close reason, rest) \<Rightarrow> (frames, Close reason, rest @ concat chunks)
      | (frames, _, rest) \<Rightarrow> (let (frames', stop) = deliver chunks rest in (frames @ frames', stop)))"

lemma split_frames_Complete:
  "next_complete_frame buf = (Complete frame, rest) \<Longrightarrow>
    split_frames buf = (let (frames, stop) = split_frames rest in (frame # frames, stop))"
  by (subst split_frames.simps) simp

lemma split_frames_stop:
  "next_complete_frame buf = (stop, rest) \<Longrightarrow> \<forall>frame. stop \<noteq> Complete frame \<Longrightarrow> split_frames buf = ([], stop, rest)"
  by (subst split_frames.simps) (cases stop; simp)

lemma split_frames_spec:
  assumes "split_frames buf = (frames, stop, rest)"
  shows "buf = concat frames @ rest \<and> next_complete_frame rest = (stop, rest)
    \<and> (\<forall>frame. stop \<noteq> Complete frame)
    \<and> (\<forall>frame \<in> set frames. \<forall>extra. next_complete_frame (frame @ extra) = (Complete frame, extra))"
  using assms
proof (induction buf arbitrary: frames rule: split_frames.induct)
  case (1 buf)
  obtain out tail where n: "next_complete_frame buf = (out, tail)" by fastforce
  show ?case
  proof (cases out)
    case (Complete frame)
    obtain frames' stop' where s: "split_frames tail = (frames', stop')" by (cases "split_frames tail")
    then have f: "frames = frame # frames'" "stop' = (stop, rest)"
      using "1.prems" n Complete by (simp_all add: split_frames_Complete)
    have "tail = concat frames' @ rest \<and> next_complete_frame rest = (stop, rest) \<and> (\<forall>frame. stop \<noteq> Complete frame)
      \<and> (\<forall>frame \<in> set frames'. \<forall>extra. next_complete_frame (frame @ extra) = (Complete frame, extra))"
      using "1.IH"[OF n[symmetric] Complete] s f(2) by simp
    then show ?thesis using next_frame_Complete[OF n[unfolded Complete]] f(1) by simp
  next
    case Incomplete
    then show ?thesis using "1.prems" n next_frame_Incomplete(1)[of buf tail] by (simp add: split_frames_stop)
  next
    case (Close reason)
    then show ?thesis using "1.prems" n next_frame_Close(1)[of buf reason tail] by (auto simp: split_frames_stop)
  qed
qed

lemma split_frames_unique:
  assumes "\<forall>frame \<in> set frames. \<forall>extra. next_complete_frame (frame @ extra) = (Complete frame, extra)"
  shows "split_frames (concat frames @ rest) = (let (frames', stop) = split_frames rest in (frames @ frames', stop))"
  using assms
proof (induction frames)
  case (Cons frame frames)
  have "split_frames (concat (frame # frames) @ rest)
      = (let (frames, stop) = split_frames (concat frames @ rest) in (frame # frames, stop))"
    using Cons.prems by (intro split_frames_Complete) simp
  then show ?case using Cons by (simp split: prod.splits)
qed (simp split: prod.splits)

lemma split_frames_single:
  assumes "length (tlv TAG_SEQUENCE v) \<le> MAX_FRAME_SIZE"
  shows "split_frames (tlv TAG_SEQUENCE v) = ([tlv TAG_SEQUENCE v], Incomplete, [])"
proof -
  have "split_frames (concat [tlv TAG_SEQUENCE v] @ []) = ([tlv TAG_SEQUENCE v], Incomplete, [])"
    using split_frames_unique[of "[tlv TAG_SEQUENCE v]" "[]"] tlv_is_frame[of v] assms
    by (simp add: split_frames_stop next_complete_frame_def MAX_FRAME_SIZE_def)
  then show ?thesis by simp
qed

lemma split_frames_append:
  assumes "split_frames a = (frames, stop, rest)"
  shows "stop = Incomplete \<Longrightarrow> split_frames (a @ b) = (let (frames', stop') = split_frames (rest @ b) in (frames @ frames', stop'))"
    and "stop = Close reason \<Longrightarrow> split_frames (a @ b) = (frames, Close reason, rest @ b)"
  using split_frames_spec[OF assms] split_frames_unique[of frames "rest @ b"] next_frame_Close(2)[of rest reason rest b]
  by (auto simp: split_frames_stop)

lemma deliver_split:
  assumes "next_complete_frame buf = (Incomplete, buf)"
  shows "deliver chunks buf = split_frames (buf @ concat chunks)"
  using assms
proof (induction chunks arbitrary: buf)
  case Nil
  then show ?case by (simp add: split_frames_stop)
next
  case (Cons chunk chunks)
  obtain frames stop rest where s: "split_frames (buf @ chunk) = (frames, stop, rest)" by (metis prod_cases3)
  note spec = split_frames_spec[OF s] and app = split_frames_append[OF s, where b = "concat chunks"]
  show ?case
  proof (cases stop)
    case Incomplete
    then show ?thesis using Cons.IH[of rest] conjunct1[OF conjunct2[OF spec]] app(1)[OF Incomplete] s by simp
  next
    case (Close reason)
    then show ?thesis using app(2) s by simp
  qed (use spec in simp)
qed

section \<open>Properties\<close>

text \<open>C15: Frames survive the network: whatever messages of at most 65535 bytes a peer encodes and
  however the transport cuts their concatenation into chunks, the extraction after each chunk
  yields exactly these messages, in order, and leaves nothing behind; and for any stream, well
  formed or not, the chunking does not influence which frames come out, where a protocol error is
  found, or what remains, and what remains of an open stream is shorter than the largest frame.\<close>

theorem frames_survive_chunking:
  assumes "\<forall>v \<in> set values. length (tlv TAG_SEQUENCE v) \<le> MAX_FRAME_SIZE"
    and "concat chunks = concat (map (tlv TAG_SEQUENCE) values)"
  shows "deliver chunks [] = (map (tlv TAG_SEQUENCE) values, Incomplete, [])
    \<and> deliver stream [] = split_frames (concat stream)
    \<and> (\<forall>frames rest. deliver stream [] = (frames, Incomplete, rest) \<longrightarrow> length rest < MAX_FRAME_SIZE)"
proof -
  have nil: "next_complete_frame [] = (Incomplete, [])" by (simp add: next_complete_frame_def)
  have d: "deliver stream [] = split_frames (concat stream)" for stream
    using deliver_split[OF nil, of stream] by simp
  have "\<forall>frame \<in> set (map (tlv TAG_SEQUENCE) values). \<forall>extra. next_complete_frame (frame @ extra) = (Complete frame, extra)"
    using assms(1) tlv_is_frame by (auto simp: MAX_FRAME_SIZE_def)
  from split_frames_unique[OF this, of "[]"]
  have "deliver chunks [] = (map (tlv TAG_SEQUENCE) values, Incomplete, [])"
    unfolding d assms(2) by (simp add: nil split_frames_stop)
  moreover have "length rest < MAX_FRAME_SIZE" if "deliver stream [] = (frames, Incomplete, rest)" for frames rest
    using split_frames_spec[OF that[unfolded d]] next_frame_Incomplete(2)[of rest rest]
    by (simp add: MAX_FRAME_SIZE_def)
  ultimately show ?thesis using d by blast
qed

theorem frames_survive_chunking_witness:
  "deliver [[0x30], [0x02, 0x05, 0x00, 0x30, 0x00], [0x30, 0x02, 0x05], [0x00]] []
     = ([[0x30, 0x02, 0x05, 0x00], [0x30, 0x00], [0x30, 0x02, 0x05, 0x00]], Incomplete, [])"
  using frames_survive_chunking[of "[[0x05, 0x00], [], [0x05, 0x00]]"
      "[[0x30], [0x02, 0x05, 0x00, 0x30, 0x00], [0x30, 0x02, 0x05], [0x00]]" undefined]
  by (simp del: deliver.simps add: tlv_def TAG_SEQUENCE_def encode_length_def MAX_FRAME_SIZE_def)

end
