(* ===== verification/Event_Loop.thy ===== *)
theory Event_Loop
  imports Framing "HOL-Library.AList"
begin

text \<open>
  The event loop of \<open>transport/event_loop.rs\<close>: accepting connections up to a limit, reading and
  buffering what arrives on each, dispatching complete frames and writing the responses,
  applying commands of the application, sweeping idle connections, and the loop that ties them
  together. The operating system is part of the state as scripts: what the coming calls of
  \<open>accept\<close>, \<open>read\<close> and \<open>write_all\<close> answer, with the clock reading the code takes after each; an
  exhausted script answers that the call would block (\<open>accept\<close>, \<open>read\<close>) or that it succeeds
  (\<open>write_all\<close>). The connection table is an association list. Instants and durations count
  nanoseconds.
\<close>

section \<open>The operating system\<close>

type_synonym Instant = nat
type_synonym Duration = nat
type_synonym Token = nat

datatype SocketAddr = SocketAddrV4 "32 word" "16 word" | SocketAddrV6 "128 word" "16 word"

definition duration_from_secs :: "nat \<Rightarrow> Duration" where
  "duration_from_secs s = s * 1000000000"

definition as_secs :: "Duration \<Rightarrow> u64" where
  "as_secs d = word_of_nat (d div 1000000000)"

datatype read_result = ReadOk bytes Instant | ReadWouldBlock | ReadErr io_error
datatype write_result = WriteOk | WriteErr nat

record TcpStream =
  ts_reads :: "read_result list"
  ts_writes :: "write_result list"
  ts_sent :: bytes

text \<open>A failing \<open>write_all\<close> may have sent a part of the data.\<close>

definition write_all :: "bytes \<Rightarrow> TcpStream \<Rightarrow> bool \<times> TcpStream" where
  "write_all buf stream =
     (case ts_writes stream of
        WriteErr n # ws \<Rightarrow> (False, stream\<lparr>ts_writes := ws, ts_sent := ts_sent stream @ take n buf\<rparr>)
      | ws \<Rightarrow> (True, stream\<lparr>ts_writes := tl ws, ts_sent := ts_sent stream @ buf\<rparr>))"

text \<open>An accepted stream comes with the result of registering it and the clock reading.\<close>

datatype accept_result = AcceptOk TcpStream "io_error option" Instant | AcceptWouldBlock | AcceptErr io_error

section \<open>State\<close>

definition LISTENER_TOKEN :: Token where "LISTENER_TOKEN = 0"
definition WAKER_TOKEN :: Token where "WAKER_TOKEN = 1"
definition FIRST_CONN_TOKEN :: nat where "FIRST_CONN_TOKEN = 2"
definition DEFAULT_MAX_CONNECTIONS :: nat where "DEFAULT_MAX_CONNECTIONS = 64"
definition NORMAL_IDLE_TIMEOUT :: Duration where "NORMAL_IDLE_TIMEOUT = duration_from_secs (5 * 60)"
definition PRESSURE_IDLE_TIMEOUT :: Duration where "PRESSURE_IDLE_TIMEOUT = duration_from_secs 30"
definition PRESSURE_HEADROOM :: nat where "PRESSURE_HEADROOM = 5"

datatype EventLoopError = Bind SocketAddr io_error | Waker io_error | Registration io_error | SecurityLevelRequiresUser

datatype Command = SetValue Oid Value | Shutdown

record ConnectionTimeoutConfig =
  normal_timeout :: Duration
  pressure_timeout :: Duration
  pressure_headroom :: nat

definition timeout_config_default :: ConnectionTimeoutConfig where
  "timeout_config_default = \<lparr>normal_timeout = NORMAL_IDLE_TIMEOUT, pressure_timeout = PRESSURE_IDLE_TIMEOUT,
     pressure_headroom = PRESSURE_HEADROOM\<rparr>"

record ConnectionState =
  conn_stream :: TcpStream
  conn_read_buf :: bytes
  conn_last_activity :: Instant

text \<open>The listener and the command channel stand for the code's \<open>listener\<close> and \<open>rx\<close>: the answers
  of the coming \<open>accept\<close> calls, the queued commands, and whether a sender is left.\<close>

record EventLoop =
  el_accepts :: "accept_result list"
  el_rx :: "Command list"
  el_rx_connected :: bool
  el_next_token :: nat
  el_connections :: "(Token \<times> ConnectionState) list"
  el_max_connections :: nat
  el_timeout_config :: ConnectionTimeoutConfig
  el_store :: Store
  el_engine_id :: EngineId
  el_engine_boots :: EngineBoots
  el_engine_start :: Instant
  el_unknown_engine_ids_counter :: UsmStatsCounter
  el_unknown_user_names_counter :: UsmStatsCounter
  el_unsupported_sec_levels_counter :: UsmStatsCounter
  el_wrong_digests_counter :: UsmStatsCounter
  el_not_in_time_windows_counter :: UsmStatsCounter
  el_decryption_errors_counter :: UsmStatsCounter
  el_unknown_security_models_counter :: UsmStatsCounter
  el_usm_user :: "UsmUser option"
  el_minimum_security_level :: SecurityLevel

text \<open>The results of the system calls of \<open>EventLoop::new\<close>.\<close>

record new_calls =
  nc_poll :: "io_error option"
  nc_bind :: "io_error option"
  nc_local_addr :: "io_error + SocketAddr"
  nc_register :: "io_error option"
  nc_waker :: "io_error option"

definition event_loop_new ::
  "new_calls \<Rightarrow> Instant \<Rightarrow> SocketAddr \<Rightarrow> EngineId \<Rightarrow> EngineBoots \<Rightarrow> UsmUser option \<Rightarrow> SecurityLevel \<Rightarrow> nat
    \<Rightarrow> ConnectionTimeoutConfig \<Rightarrow> EventLoopError + EventLoop \<times> SocketAddr" where
  "event_loop_new calls now addr engine_id engine_boots usm_user minimum_security_level max_connections timeout_config =
     (if security_level_requires_user usm_user minimum_security_level then Inl SecurityLevelRequiresUser
      else case nc_poll calls of Some e \<Rightarrow> Inl (Registration e) | None \<Rightarrow>
      case nc_bind calls of Some e \<Rightarrow> Inl (Bind addr e) | None \<Rightarrow>
      rbind (map_err (Bind addr) (nc_local_addr calls)) (\<lambda>bound_addr.
      case nc_register calls of Some e \<Rightarrow> Inl (Registration e) | None \<Rightarrow>
      case nc_waker calls of Some e \<Rightarrow> Inl (Waker e) | None \<Rightarrow>
      Inr (\<lparr>el_accepts = [], el_rx = [], el_rx_connected = True, el_next_token = FIRST_CONN_TOKEN,
            el_connections = [], el_max_connections = max_connections, el_timeout_config = timeout_config,
            el_store = store_new, el_engine_id = engine_id, el_engine_boots = engine_boots, el_engine_start = now,
            el_unknown_engine_ids_counter = UsmStatsCounter 0, el_unknown_user_names_counter = UsmStatsCounter 0,
            el_unsupported_sec_levels_counter = UsmStatsCounter 0, el_wrong_digests_counter = UsmStatsCounter 0,
            el_not_in_time_windows_counter = UsmStatsCounter 0, el_decryption_errors_counter = UsmStatsCounter 0,
            el_unknown_security_models_counter = UsmStatsCounter 0, el_usm_user = usm_user,
            el_minimum_security_level = minimum_security_level\<rparr>, bound_addr)))"

definition engine_time_seconds :: "Instant \<Rightarrow> EventLoop \<Rightarrow> EngineTime" where
  "engine_time_seconds now el =
     EngineTime (case u32_try_from_u64 (as_secs (now - el_engine_start el)) of Some secs \<Rightarrow> secs | None \<Rightarrow> 0xFFFFFFFF)"

section \<open>Accepting connections\<close>

text \<open>The search for a free token is a loop the code leaves only when it finds one; \<open>None\<close> is a
  search that does not end.\<close>

partial_function (option) next_connection_token ::
  "(Token \<times> ConnectionState) list \<Rightarrow> nat \<Rightarrow> (Token \<times> nat) option" where
  "next_connection_token connections next_token =
     (let candidate = next_token;
          next_token = (next_token + 1) mod usize_limit;
          next_token = (if next_token < FIRST_CONN_TOKEN then FIRST_CONN_TOKEN else next_token)
      in if candidate \<ge> FIRST_CONN_TOKEN \<and> map_of connections candidate = None then Some (candidate, next_token)
         else next_connection_token connections next_token)"

definition register_and_insert_connection ::
  "TcpStream \<Rightarrow> io_error option \<Rightarrow> Instant \<Rightarrow> EventLoop \<Rightarrow> EventLoop option" where
  "register_and_insert_connection stream registered now el =
     map_option (\<lambda>(token, next_token).
         let el = el\<lparr>el_next_token := next_token\<rparr>
         in case registered of
              Some e \<Rightarrow> el
            | None \<Rightarrow> el\<lparr>el_connections := AList.update token
                \<lparr>conn_stream = stream, conn_read_buf = [], conn_last_activity = now\<rparr> (el_connections el)\<rparr>)
       (next_connection_token (el_connections el) (el_next_token el))"

fun accept_loop :: "accept_result list \<Rightarrow> EventLoop \<Rightarrow> EventLoop option" where
  "accept_loop [] el = Some (el\<lparr>el_accepts := []\<rparr>)"
| "accept_loop (r # rs) el =
     (if length (el_connections el) \<ge> el_max_connections el then Some (el\<lparr>el_accepts := r # rs\<rparr>)
      else case r of
             AcceptOk stream registered now \<Rightarrow>
               Option.bind (register_and_insert_connection stream registered now el) (accept_loop rs)
           | AcceptWouldBlock \<Rightarrow> Some (el\<lparr>el_accepts := rs\<rparr>)
           | AcceptErr e \<Rightarrow> Some (el\<lparr>el_accepts := rs\<rparr>))"

definition accept_connections :: "EventLoop \<Rightarrow> EventLoop option" where
  "accept_connections el = accept_loop (el_accepts el) el"

section \<open>Commands\<close>

text \<open>The result tells whether the loop must exit: on \<open>Shutdown\<close>, and when the queue is empty and
  no sender is left.\<close>

fun drain_queue :: "Command list \<Rightarrow> EventLoop \<Rightarrow> bool \<times> EventLoop" where
  "drain_queue [] el = (\<not> el_rx_connected el, el\<lparr>el_rx := []\<rparr>)"
| "drain_queue (SetValue oid value # cmds) el = drain_queue cmds (el\<lparr>el_store := store_set oid value (el_store el)\<rparr>)"
| "drain_queue (Shutdown # cmds) el = (True, el\<lparr>el_rx := cmds\<rparr>)"

definition drain_commands :: "EventLoop \<Rightarrow> bool \<times> EventLoop" where
  "drain_commands el = drain_queue (el_rx el) el"

text \<open>Sending a command, from any thread: the loop is \<open>None\<close> once its thread has ended and the
  receiver is gone, and \<open>woken\<close> is the result of waking the poll. A failure to wake is reported
  although the command is in the queue.\<close>

definition command_sender_send ::
  "Command \<Rightarrow> io_error + unit \<Rightarrow> EventLoop option \<Rightarrow> (io_error + unit) \<times> EventLoop option" where
  "command_sender_send cmd woken loop =
     (case loop of
        None \<Rightarrow> (Inl (BrokenPipe ''event loop has exited''), None)
      | Some el \<Rightarrow> (rbind woken (\<lambda>_. Inr ()), Some (el\<lparr>el_rx := el_rx el @ [cmd]\<rparr>)))"

section \<open>Connection events\<close>

definition put_connection :: "Token \<Rightarrow> ConnectionState \<Rightarrow> EventLoop \<Rightarrow> EventLoop" where
  "put_connection token conn el = el\<lparr>el_connections := AList.update token conn (el_connections el)\<rparr>"

fun read_available :: "read_result list \<Rightarrow> ConnectionState \<Rightarrow> bool \<times> ConnectionState" where
  "read_available [] conn = (False, conn\<lparr>conn_stream := (conn_stream conn)\<lparr>ts_reads := []\<rparr>\<rparr>)"
| "read_available (ReadOk received now # rs) conn =
     (if received = [] then (True, conn\<lparr>conn_stream := (conn_stream conn)\<lparr>ts_reads := rs\<rparr>\<rparr>)
      else read_available rs (conn\<lparr>conn_read_buf := conn_read_buf conn @ received, conn_last_activity := now\<rparr>))"
| "read_available (ReadWouldBlock # rs) conn = (False, conn\<lparr>conn_stream := (conn_stream conn)\<lparr>ts_reads := rs\<rparr>\<rparr>)"
| "read_available (ReadErr e # rs) conn = (True, conn\<lparr>conn_stream := (conn_stream conn)\<lparr>ts_reads := rs\<rparr>\<rparr>)"

definition drain_connection_read_buffer :: "Token \<Rightarrow> EventLoop \<Rightarrow> bool \<times> EventLoop" where
  "drain_connection_read_buffer token el =
     (case map_of (el_connections el) token of
        None \<Rightarrow> (False, el)
      | Some conn \<Rightarrow> (let (closed, conn) = read_available (ts_reads (conn_stream conn)) conn
                      in (closed, put_connection token conn el)))"

text \<open>The dispatcher borrows the counters of the loop for the time of one frame.\<close>

definition dispatch_inputs :: "EngineBoots \<Rightarrow> EngineTime \<Rightarrow> EventLoop \<Rightarrow> DispatchInputs" where
  "dispatch_inputs engine_boots engine_time el =
     \<lparr>di_engine_id = engine_id_bytes (el_engine_id el), di_engine_boots = engine_boots, di_engine_time = engine_time,
      di_unknown_engine_ids_counter = el_unknown_engine_ids_counter el,
      di_unknown_user_names_counter = el_unknown_user_names_counter el,
      di_unsupported_sec_levels_counter = el_unsupported_sec_levels_counter el,
      di_wrong_digests_counter = el_wrong_digests_counter el,
      di_not_in_time_windows_counter = el_not_in_time_windows_counter el,
      di_decryption_errors_counter = el_decryption_errors_counter el,
      di_unknown_security_models_counter = el_unknown_security_models_counter el,
      di_usm_user = el_usm_user el, di_minimum_security_level = el_minimum_security_level el\<rparr>"

definition store_counters :: "DispatchInputs \<Rightarrow> EventLoop \<Rightarrow> EventLoop" where
  "store_counters i el = el
     \<lparr>el_unknown_engine_ids_counter := di_unknown_engine_ids_counter i,
      el_unknown_user_names_counter := di_unknown_user_names_counter i,
      el_unsupported_sec_levels_counter := di_unsupported_sec_levels_counter i,
      el_wrong_digests_counter := di_wrong_digests_counter i,
      el_not_in_time_windows_counter := di_not_in_time_windows_counter i,
      el_decryption_errors_counter := di_decryption_errors_counter i,
      el_unknown_security_models_counter := di_unknown_security_models_counter i\<rparr>"

definition dispatch_snmpv3_frame ::
  "crypto \<Rightarrow> u64 \<Rightarrow> bytes \<Rightarrow> Store \<Rightarrow> dispatch_state \<Rightarrow> bytes option \<times> dispatch_state" where
  "dispatch_snmpv3_frame cr seed ber_frame store ctx = process_snmpv3_request cr seed ber_frame store ctx"

text \<open>The dispatch of one frame on the state of the loop; the privacy salt is process-global.\<close>

definition dispatch_frame ::
  "crypto \<Rightarrow> u64 \<Rightarrow> EngineBoots \<Rightarrow> EngineTime \<Rightarrow> bytes \<Rightarrow> EventLoop \<times> salt_state
    \<Rightarrow> bytes option \<times> EventLoop \<times> salt_state" where
  "dispatch_frame cr seed engine_boots engine_time ber_frame = (\<lambda>(el, salt).
     let dispatch_ctx = dispatch_context_new_unchecked (dispatch_inputs engine_boots engine_time el);
         (response, dispatch_ctx, salt) = dispatch_snmpv3_frame cr seed ber_frame (el_store el) (dispatch_ctx, salt)
     in (response, store_counters (ctx_inputs dispatch_ctx) el, salt))"

lemma dispatch_frame_connections [simp]:
  "dispatch_frame cr seed b t f (el, salt) = (r, el', salt') \<Longrightarrow> el_connections el' = el_connections el"
  by (auto simp: dispatch_frame_def store_counters_def Let_def split: prod.splits)

text \<open>Each round of the loop below removes a frame of at least two bytes from the buffer.\<close>

definition pending_bytes :: "Token \<Rightarrow> EventLoop \<Rightarrow> nat" where
  "pending_bytes token el = (case map_of (el_connections el) token of None \<Rightarrow> 0 | Some conn \<Rightarrow> length (conn_read_buf conn))"

lemma map_of_put_connection [simp]:
  "map_of (el_connections (put_connection token conn el)) = (map_of (el_connections el))(token \<mapsto> conn)"
  by (simp add: put_connection_def update_conv')

lemma pending_bytes_frame:
  assumes "map_of (el_connections el) token = Some conn" "next_complete_frame (conn_read_buf conn) = (Complete frame, rest)"
    and "dispatch_frame cr seed b t frame (put_connection token (conn\<lparr>conn_read_buf := rest\<rparr>) el, salt) = (r, el', salt')"
  shows "pending_bytes token el' < pending_bytes token el"
    and "map_of (el_connections el') token = Some conn' \<Longrightarrow>
      pending_bytes token (put_connection token (conn'\<lparr>conn_stream := stream\<rparr>) el') < pending_bytes token el"
  using next_frame_shrinks[OF assms(2)] assms(1) dispatch_frame_connections[OF assms(3)]
  by (auto simp: pending_bytes_def)

function dispatch_buffered_frames ::
  "crypto \<Rightarrow> u64 \<Rightarrow> Token \<Rightarrow> EngineBoots \<Rightarrow> EngineTime \<Rightarrow> EventLoop \<Rightarrow> salt_state \<Rightarrow> bool \<times> EventLoop \<times> salt_state" where
  "dispatch_buffered_frames cr seed token engine_boots engine_time el salt =
     (case map_of (el_connections el) token of
        None \<Rightarrow> (False, el, salt)
      | Some conn \<Rightarrow>
          (case next_complete_frame (conn_read_buf conn) of
             (Incomplete, _) \<Rightarrow> (False, el, salt)
           | (Close reason, _) \<Rightarrow> (True, el, salt)
           | (Complete ber_frame, read_buf) \<Rightarrow>
               (case dispatch_frame cr seed engine_boots engine_time ber_frame
                       (put_connection token (conn\<lparr>conn_read_buf := read_buf\<rparr>) el, salt) of
                  (None, el', salt') \<Rightarrow> dispatch_buffered_frames cr seed token engine_boots engine_time el' salt'
                | (Some encoded_response, el', salt') \<Rightarrow>
                    (case map_of (el_connections el') token of
                       None \<Rightarrow> (False, el', salt')
                     | Some conn' \<Rightarrow>
                         (case write_all encoded_response (conn_stream conn') of
                            (False, stream) \<Rightarrow> (True, put_connection token (conn'\<lparr>conn_stream := stream\<rparr>) el', salt')
                          | (True, stream) \<Rightarrow>
                              dispatch_buffered_frames cr seed token engine_boots engine_time
                                (put_connection token (conn'\<lparr>conn_stream := stream\<rparr>) el') salt')))))"
  by pat_completeness auto

termination
  by (relation "measure (\<lambda>(cr, seed, token, b, t, el, salt). pending_bytes token el)")
    (auto intro: pending_bytes_frame(1)[OF _ sym sym] pending_bytes_frame(2)[OF _ sym sym])

declare dispatch_buffered_frames.simps [simp del]

definition close_and_deregister_connection :: "Token \<Rightarrow> EventLoop \<Rightarrow> EventLoop" where
  "close_and_deregister_connection token el = el\<lparr>el_connections := AList.delete token (el_connections el)\<rparr>"

definition handle_connection_event ::
  "crypto \<Rightarrow> u64 \<Rightarrow> Token \<Rightarrow> Instant \<Rightarrow> EventLoop \<times> salt_state \<Rightarrow> EventLoop \<times> salt_state" where
  "handle_connection_event cr seed token now = (\<lambda>(el, salt).
     let engine_boots = el_engine_boots el;
         engine_time = engine_time_seconds now el;
         (closed_during_drain, el) = drain_connection_read_buffer token el;
         (closed_during_dispatch, el, salt) = dispatch_buffered_frames cr seed token engine_boots engine_time el salt
     in (if closed_during_drain \<or> closed_during_dispatch then close_and_deregister_connection token el else el, salt))"

section \<open>Sweeping\<close>

text \<open>The sum of the connection count and the configured headroom wraps in a release build; a
  debug build panics when it overflows.\<close>

definition sweep_timeout :: "EventLoop \<Rightarrow> Duration" where
  "sweep_timeout el =
     (let under_pressure = (length (el_connections el) + pressure_headroom (el_timeout_config el)) mod usize_limit
            \<ge> el_max_connections el
      in if under_pressure then pressure_timeout (el_timeout_config el) else normal_timeout (el_timeout_config el))"

definition sweep_idle_connections :: "Instant \<Rightarrow> EventLoop \<Rightarrow> EventLoop" where
  "sweep_idle_connections now el =
     (let timeout = sweep_timeout el;
          stale_tokens = map fst (filter (\<lambda>(_, conn). now - conn_last_activity conn \<ge> timeout) (el_connections el))
      in fold close_and_deregister_connection stale_tokens el)"

section \<open>The loop\<close>

text \<open>What one call of \<open>poll\<close> answers: the tokens with the clock at which each is handled and the
  clock of the sweep that follows, or an error.\<close>

datatype poll_result = PollReady "(Token \<times> Instant) list" Instant | PollErr io_error

type_synonym loop_state = "EventLoop \<times> salt_state"

text \<open>Both functions return \<open>None\<close> when the search for a token does not end; the flag of
  \<open>process_events\<close> is the exit of the outer loop.\<close>

fun process_events :: "crypto \<Rightarrow> u64 \<Rightarrow> (Token \<times> Instant) list \<Rightarrow> loop_state \<Rightarrow> (bool \<times> loop_state) option" where
  "process_events cr seed [] s = Some (False, s)"
| "process_events cr seed ((token, now) # events) (el, salt) =
     (if token = LISTENER_TOKEN then
        Option.bind (accept_connections el) (\<lambda>el. process_events cr seed events (el, salt))
      else if token = WAKER_TOKEN then
        (case drain_commands el of
           (True, el) \<Rightarrow> Some (True, (el, salt))
         | (False, el) \<Rightarrow> process_events cr seed events (el, salt))
      else process_events cr seed events (handle_connection_event cr seed token now (el, salt)))"

datatype run_outcome = Running | Exited "io_error + unit"

definition run_round :: "crypto \<Rightarrow> u64 \<Rightarrow> poll_result \<Rightarrow> loop_state \<Rightarrow> (run_outcome \<times> loop_state) option" where
  "run_round cr seed r s =
     (case r of
        PollErr e \<Rightarrow> Some (Exited (Inl e), s)
      | PollReady events now \<Rightarrow>
          map_option (\<lambda>(shutdown, el, salt).
              if shutdown then (Exited (Inr ()), (el, salt))
              else (Running, (sweep_idle_connections now el, salt)))
            (process_events cr seed events s))"

text \<open>The loop on the answers of its first calls of \<open>poll\<close>; it is still running when they are used up.\<close>

fun run :: "crypto \<Rightarrow> u64 \<Rightarrow> poll_result list \<Rightarrow> loop_state \<Rightarrow> (run_outcome \<times> loop_state) option" where
  "run cr seed [] s = Some (Running, s)"
| "run cr seed (r # rs) s =
     Option.bind (run_round cr seed r s) (\<lambda>(outcome, s).
       case outcome of Running \<Rightarrow> run cr seed rs s | Exited res \<Rightarrow> Some (Exited res, s))"

section \<open>Tokens\<close>

lemma next_token_sound:
  assumes "next_connection_token connections next_token = Some (token, next')"
    and "FIRST_CONN_TOKEN \<le> next_token" "next_token < usize_limit"
  shows "FIRST_CONN_TOKEN \<le> token \<and> token < usize_limit \<and> map_of connections token = None
    \<and> FIRST_CONN_TOKEN \<le> next' \<and> next' < usize_limit"
proof -
  have "FIRST_CONN_TOKEN \<le> next_token \<longrightarrow> next_token < usize_limit \<longrightarrow>
      FIRST_CONN_TOKEN \<le> fst r \<and> fst r < usize_limit \<and> map_of connections (fst r) = None
      \<and> FIRST_CONN_TOKEN \<le> snd r \<and> snd r < usize_limit"
    if "next_connection_token connections next_token = Some r" for r
  proof (rule next_connection_token.raw_induct[OF _ that], goal_cases)
    case (1 rec connections next_token r)
    let ?n = "if (next_token + 1) mod usize_limit < FIRST_CONN_TOKEN then FIRST_CONN_TOKEN else (next_token + 1) mod usize_limit"
    have n: "FIRST_CONN_TOKEN \<le> ?n" "?n < usize_limit"
      by (simp_all add: FIRST_CONN_TOKEN_def)
    show ?case
      using "1"(2) "1"(1)[of connections ?n r] n by (auto simp: Let_def split: if_splits)
  qed
  from this[OF assms(1)] assms(2,3) show ?thesis by simp
qed

text \<open>The candidate follows the cycle of non-reserved tokens, so a free token is reached from every
  starting point.\<close>

lemma next_token_found:
  assumes "FIRST_CONN_TOKEN \<le> free" "free < usize_limit" "map_of connections free = None"
    and "FIRST_CONN_TOKEN \<le> next_token" "next_token < usize_limit"
  shows "\<exists>r. next_connection_token connections next_token = Some r"
proof -
  define dist where "dist n = (if n \<le> free then free - n else usize_limit - n + (free - FIRST_CONN_TOKEN))" for n
  show ?thesis using assms(4,5)
  proof (induction "dist next_token" arbitrary: next_token rule: less_induct)
    case less
    let ?n = "if (next_token + 1) mod usize_limit < FIRST_CONN_TOKEN then FIRST_CONN_TOKEN else (next_token + 1) mod usize_limit"
    show ?case
    proof (cases "map_of connections next_token = None")
      case True
      then show ?thesis using less.prems by (subst next_connection_token.simps) (simp add: Let_def)
    next
      case False
      then have "next_token \<noteq> free" using assms(3) by auto
      moreover have "?n = (if next_token + 1 = usize_limit then FIRST_CONN_TOKEN else next_token + 1)"
        using less.prems by (simp add: FIRST_CONN_TOKEN_def)
      ultimately have "dist ?n < dist next_token"
        using less.prems assms(1,2) by (auto simp: dist_def FIRST_CONN_TOKEN_def)
      moreover have "FIRST_CONN_TOKEN \<le> ?n" "?n < usize_limit" by (simp_all add: FIRST_CONN_TOKEN_def)
      ultimately obtain r where "next_connection_token connections ?n = Some r"
        using less.hyps by blast
      then show ?thesis using False
        by (subst next_connection_token.simps) (simp add: Let_def del: not_None_eq split: if_splits)
    qed
  qed
qed

lemma next_token_total:
  assumes "length connections < usize_limit - FIRST_CONN_TOKEN" "FIRST_CONN_TOKEN \<le> next_token" "next_token < usize_limit"
  shows "\<exists>r. next_connection_token connections next_token = Some r"
proof -
  have "card (fst ` set connections) \<le> length connections"
    using card_length[of "map fst connections"] by simp
  then have "card (fst ` set connections) < card {FIRST_CONN_TOKEN..<usize_limit}" using assms(1) by simp
  then obtain free where "free \<in> {FIRST_CONN_TOKEN..<usize_limit}" "free \<notin> fst ` set connections"
    by (metis card_mono finite_imageI List.finite_set not_le subsetI)
  then show ?thesis using assms(2,3) by (intro next_token_found[of free]) (simp_all add: map_of_eq_None_iff)
qed

section \<open>The dispatch loop\<close>

text \<open>Dispatching changes the counters of the loop and nothing else of it.\<close>

lemma store_counters_twice [simp]: "store_counters i (store_counters j el) = store_counters i el"
  by (simp add: store_counters_def)

lemma store_counters_put [simp]:
  "store_counters i (put_connection token conn el) = put_connection token conn (store_counters i el)"
  by (simp add: store_counters_def put_connection_def)

lemma store_counters_fields [simp]:
  "el_accepts (store_counters i el) = el_accepts el" "el_rx (store_counters i el) = el_rx el"
  "el_rx_connected (store_counters i el) = el_rx_connected el" "el_next_token (store_counters i el) = el_next_token el"
  "el_connections (store_counters i el) = el_connections el" "el_max_connections (store_counters i el) = el_max_connections el"
  "el_timeout_config (store_counters i el) = el_timeout_config el" "el_store (store_counters i el) = el_store el"
  "el_engine_id (store_counters i el) = el_engine_id el" "el_engine_boots (store_counters i el) = el_engine_boots el"
  "el_engine_start (store_counters i el) = el_engine_start el" "el_usm_user (store_counters i el) = el_usm_user el"
  "el_minimum_security_level (store_counters i el) = el_minimum_security_level el"
  by (simp_all add: store_counters_def)

lemma put_connection_fields [simp]:
  "el_accepts (put_connection t c el) = el_accepts el" "el_rx (put_connection t c el) = el_rx el"
  "el_rx_connected (put_connection t c el) = el_rx_connected el" "el_next_token (put_connection t c el) = el_next_token el"
  "el_max_connections (put_connection t c el) = el_max_connections el"
  "el_timeout_config (put_connection t c el) = el_timeout_config el" "el_store (put_connection t c el) = el_store el"
  "el_engine_id (put_connection t c el) = el_engine_id el" "el_engine_boots (put_connection t c el) = el_engine_boots el"
  "el_engine_start (put_connection t c el) = el_engine_start el" "el_usm_user (put_connection t c el) = el_usm_user el"
  "el_minimum_security_level (put_connection t c el) = el_minimum_security_level el"
  by (simp_all add: put_connection_def)

lemma put_connection_twice [simp]: "put_connection t c (put_connection t c' el) = put_connection t c el"
  by (simp add: put_connection_def)

lemma dispatch_inputs_put [simp]: "dispatch_inputs b t (put_connection token conn el) = dispatch_inputs b t el"
  by (simp add: dispatch_inputs_def put_connection_def)

lemma put_connection_same:
  assumes "map_of (el_connections el) token = Some conn"
  shows "put_connection token conn el = el"
proof -
  have "map_of al token = Some conn \<Longrightarrow> AList.update token conn al = al" for al
    by (induction al) (auto split: if_splits)
  with assms show ?thesis by (simp add: put_connection_def)
qed

lemma dispatch_frame_put:
  "dispatch_frame cr seed b t frame (el, salt) = (r, el', salt') \<Longrightarrow>
    dispatch_frame cr seed b t frame (put_connection token conn el, salt) = (r, put_connection token conn el', salt')"
  by (auto simp: dispatch_frame_def Let_def split: prod.splits)

lemma dispatch_frame_counters:
  "dispatch_frame cr seed b t frame (el, salt) = (r, el', salt') \<Longrightarrow> \<exists>i. el' = store_counters i el"
  by (auto simp: dispatch_frame_def Let_def split: prod.splits)

text \<open>The abstract service of a connection: the frames one after the other, each answered before
  the next is looked at, until a write fails. The result tells whether all were served, and which were not.\<close>

fun serve_frames ::
  "crypto \<Rightarrow> u64 \<Rightarrow> EngineBoots \<Rightarrow> EngineTime \<Rightarrow> bytes list \<Rightarrow> TcpStream \<Rightarrow> loop_state
    \<Rightarrow> bool \<times> bytes list \<times> TcpStream \<times> loop_state" where
  "serve_frames cr seed b t [] stream s = (True, [], stream, s)"
| "serve_frames cr seed b t (frame # frames) stream s =
     (case dispatch_frame cr seed b t frame s of
        (None, s) \<Rightarrow> serve_frames cr seed b t frames stream s
      | (Some response, s) \<Rightarrow>
          (case write_all response stream of
             (True, stream) \<Rightarrow> serve_frames cr seed b t frames stream s
           | (False, stream) \<Rightarrow> (False, frames, stream, s)))"

lemma serve_frames_counters:
  "serve_frames cr seed b t frames stream (el, salt) = (ok, left, stream', el', salt') \<Longrightarrow>
    (\<exists>i. el' = store_counters i el) \<and> (ok \<longrightarrow> left = [])"
proof (induction frames arbitrary: stream el salt)
  case Nil
  then have "el' = store_counters (dispatch_inputs b t el) el" by (simp add: store_counters_def dispatch_inputs_def)
  then show ?case using Nil by auto
next
  case (Cons frame frames)
  obtain r el1 salt1 where d: "dispatch_frame cr seed b t frame (el, salt) = (r, el1, salt1)" by (metis prod_cases3)
  then obtain i where i: "el1 = store_counters i el" using dispatch_frame_counters by blast
  show ?case
  proof (cases r)
    case None
    then show ?thesis using Cons d i by fastforce
  next
    case (Some response)
    obtain w stream1 where "write_all response stream = (w, stream1)" by fastforce
    then show ?thesis using Cons d i Some by (cases w) fastforce+
  qed
qed

lemma serve_frames_put:
  "serve_frames cr seed b t frames stream (el, salt) = (ok, left, stream', el', salt') \<Longrightarrow>
    serve_frames cr seed b t frames stream (put_connection token conn el, salt)
      = (ok, left, stream', put_connection token conn el', salt')"
proof (induction frames arbitrary: stream el salt)
  case (Cons frame frames)
  obtain r el1 salt1 where d: "dispatch_frame cr seed b t frame (el, salt) = (r, el1, salt1)" by (metis prod_cases3)
  show ?case using Cons d dispatch_frame_put[OF d, of token conn]
    by (auto split: option.splits prod.splits bool.splits)
qed simp

lemma dispatch_buffered_serve:
  assumes "map_of (el_connections el) token = Some conn" "split_frames (conn_read_buf conn) = (frames, stop, rest)"
    and "serve_frames cr seed b t frames (conn_stream conn) (el, salt) = (ok, left, stream, el', salt')"
  shows "dispatch_buffered_frames cr seed token b t el salt = (\<not> ok \<or> stop \<noteq> Incomplete,
    put_connection token (conn\<lparr>conn_stream := stream, conn_read_buf := concat left @ rest\<rparr>) el', salt')"
  using assms
proof (induction frames arbitrary: conn el salt el')
  case Nil
  then have n: "next_complete_frame (conn_read_buf conn) = (stop, conn_read_buf conn)" "rest = conn_read_buf conn"
    and stop: "\<forall>frame. stop \<noteq> Complete frame"
    using split_frames_spec[OF Nil(2)] by auto
  have "put_connection token (conn\<lparr>conn_stream := conn_stream conn, conn_read_buf := conn_read_buf conn\<rparr>) el = el"
    using Nil(1) by (simp add: put_connection_same)
  then show ?case using Nil n stop by (subst dispatch_buffered_frames.simps) (cases stop; auto)
next
  case (Cons frame frames)
  obtain buf where n: "next_complete_frame (conn_read_buf conn) = (Complete frame, buf)"
    and s: "split_frames buf = (frames, stop, rest)"
    using Cons.prems(2) by (subst (asm) split_frames.simps)
      (auto simp: Let_def split: prod.splits FrameOutcome.splits)
  obtain r el1 salt1 where d: "dispatch_frame cr seed b t frame (el, salt) = (r, el1, salt1)" by (metis prod_cases3)
  let ?conn = "conn\<lparr>conn_read_buf := buf\<rparr>"
  have step: "dispatch_frame cr seed b t frame (put_connection token ?conn el, salt) = (r, put_connection token ?conn el1, salt1)"
    by (rule dispatch_frame_put[OF d])
  have "dispatch_buffered_frames cr seed token b t el salt =
      (case r of None \<Rightarrow> dispatch_buffered_frames cr seed token b t (put_connection token ?conn el1) salt1
       | Some response \<Rightarrow> (case write_all response (conn_stream conn) of
            (False, stream) \<Rightarrow> (True, put_connection token (?conn\<lparr>conn_stream := stream\<rparr>) el1, salt1)
          | (True, stream) \<Rightarrow> dispatch_buffered_frames cr seed token b t
              (put_connection token (?conn\<lparr>conn_stream := stream\<rparr>) el1) salt1))"
    using Cons.prems(1) n step by (subst dispatch_buffered_frames.simps) (simp split: option.splits bool.splits prod.splits)
  moreover have "dispatch_buffered_frames cr seed token b t (put_connection token (?conn\<lparr>conn_stream := str\<rparr>) el1) salt1
     = (\<not> ok \<or> stop \<noteq> Incomplete, put_connection token (conn\<lparr>conn_stream := stream, conn_read_buf := concat left @ rest\<rparr>) el', salt')"
    if "serve_frames cr seed b t frames str (el1, salt1) = (ok, left, stream, el', salt')" for str
    using Cons.IH[of "put_connection token (?conn\<lparr>conn_stream := str\<rparr>) el1" "?conn\<lparr>conn_stream := str\<rparr>" salt1
        "put_connection token (?conn\<lparr>conn_stream := str\<rparr>) el'"]
      s serve_frames_put[OF that, of token "?conn\<lparr>conn_stream := str\<rparr>"] by simp
  from this[of "conn_stream conn"] this[of "snd (write_all (the r) (conn_stream conn))"]
  moreover have "concat frames @ rest = buf" using split_frames_spec[OF s] by simp
  moreover have comm: "conn\<lparr>conn_read_buf := x, conn_stream := y\<rparr> = conn\<lparr>conn_stream := y, conn_read_buf := x\<rparr>" for x y by simp
  ultimately show ?case using Cons.prems(3) d s
    by (auto simp: comm split: option.splits prod.splits bool.splits)
qed

section \<open>Connection events\<close>

lemma read_available_effect:
  "read_available rs conn = (closed, conn') \<Longrightarrow> \<exists>received. conn_read_buf conn' = conn_read_buf conn @ received
     \<and> ts_sent (conn_stream conn') = ts_sent (conn_stream conn) \<and> ts_writes (conn_stream conn') = ts_writes (conn_stream conn)"
  by (induction rs conn rule: read_available.induct) (auto split: if_splits)

lemma dispatch_buffered_effect:
  assumes "dispatch_buffered_frames cr seed token b t el salt = (closed, el', salt')"
  shows "map_of (el_connections el) token = None \<and> el' = el \<and> salt' = salt \<and> \<not> closed
    \<or> (\<exists>conn conn' i. map_of (el_connections el) token = Some conn \<and> el' = put_connection token conn' (store_counters i el)
        \<and> (\<not> closed \<longrightarrow> next_complete_frame (conn_read_buf conn') = (Incomplete, conn_read_buf conn')))"
proof (cases "map_of (el_connections el) token")
  case None
  then show ?thesis using assms by (subst (asm) dispatch_buffered_frames.simps) simp
next
  case (Some conn)
  obtain frames stop rest where s: "split_frames (conn_read_buf conn) = (frames, stop, rest)" by (metis prod_cases3)
  obtain ok left stream el1 salt1 where v: "serve_frames cr seed b t frames (conn_stream conn) (el, salt) = (ok, left, stream, el1, salt1)"
    by (metis prod_cases5)
  note eq = dispatch_buffered_serve[OF Some s v]
  obtain i where i: "el1 = store_counters i el" "ok \<longrightarrow> left = []" using serve_frames_counters[OF v] by blast
  let ?conn = "conn\<lparr>conn_stream := stream, conn_read_buf := concat left @ rest\<rparr>"
  have "el' = put_connection token ?conn (store_counters i el)" "closed \<longleftrightarrow> \<not> ok \<or> stop \<noteq> Incomplete"
    using eq assms i(1) by auto
  moreover have "\<not> closed \<longrightarrow> next_complete_frame (conn_read_buf ?conn) = (Incomplete, conn_read_buf ?conn)"
    using calculation(2) i(2) split_frames_spec[OF s] by auto
  ultimately show ?thesis using Some by blast
qed

lemma close_put [simp]:
  "close_and_deregister_connection token (put_connection token conn el) = close_and_deregister_connection token el"
  by (simp add: close_and_deregister_connection_def put_connection_def delete_update_same)

lemma handle_event_effect:
  assumes "handle_connection_event cr seed token now (el, salt) = (el', salt')"
  shows "map_of (el_connections el) token = None \<and> el' = el \<and> salt' = salt
    \<or> (\<exists>conn conn' i. map_of (el_connections el) token = Some conn
        \<and> (el' = put_connection token conn' (store_counters i el)
             \<and> next_complete_frame (conn_read_buf conn') = (Incomplete, conn_read_buf conn')
           \<or> el' = close_and_deregister_connection token (store_counters i el)))"
proof -
  obtain closed1 el1 where d: "drain_connection_read_buffer token el = (closed1, el1)" by fastforce
  obtain closed2 el2 salt2 where f: "dispatch_buffered_frames cr seed token (el_engine_boots el) (engine_time_seconds now el) el1 salt
      = (closed2, el2, salt2)" by (metis prod_cases3)
  have r: "el' = (if closed1 \<or> closed2 then close_and_deregister_connection token el2 else el2)" "salt' = salt2"
    using assms d f by (auto simp: handle_connection_event_def Let_def)
  note eff = dispatch_buffered_effect[OF f]
  show ?thesis
  proof (cases "map_of (el_connections el) token")
    case None
    then have "el1 = el" "\<not> closed1" using d by (simp_all add: drain_connection_read_buffer_def)
    then show ?thesis using None eff r by simp
  next
    case (Some conn)
    obtain conn1 where c: "el1 = put_connection token conn1 el"
      using d Some by (auto simp: drain_connection_read_buffer_def split: prod.splits)
    obtain conn' i where e: "el2 = put_connection token conn' (store_counters i el)"
      "\<not> closed2 \<longrightarrow> next_complete_frame (conn_read_buf conn') = (Incomplete, conn_read_buf conn')"
      using eff unfolding c by auto
    show ?thesis
    proof (cases "closed1 \<or> closed2")
      case True
      then have "el' = close_and_deregister_connection token (store_counters i el)" using r e(1) by simp
      then show ?thesis using Some by blast
    next
      case False
      then show ?thesis using r e Some by auto
    qed
  qed
qed

section \<open>Sweeping\<close>

lemma close_connections:
  "fold close_and_deregister_connection tokens el
    = el\<lparr>el_connections := filter (\<lambda>(token, _). token \<notin> set tokens) (el_connections el)\<rparr>"
proof (induction tokens arbitrary: el)
  case (Cons token tokens)
  have "AList.delete token al = filter (\<lambda>(t, _). t \<noteq> token) al" for al :: "(Token \<times> ConnectionState) list"
    by (induction al) auto
  moreover have "filter (\<lambda>(t, _). t \<notin> set tokens) (filter (\<lambda>(t, _). t \<noteq> token) al) = filter (\<lambda>(t, _). t \<notin> set (token # tokens)) al"
    for al :: "(Token \<times> ConnectionState) list"
    by (induction al) auto
  ultimately show ?case by (simp add: Cons close_and_deregister_connection_def[of token])
qed simp

lemma key_filter:
  assumes "distinct (map fst al)" "e \<in> set al"
  shows "fst e \<in> set (map fst (filter P al)) \<longleftrightarrow> P e"
proof
  assume "fst e \<in> set (map fst (filter P al))"
  then obtain e' where "e' \<in> set al" "P e'" "fst e' = fst e" by auto
  moreover have "e' = e" using assms calculation by (metis eq_key_imp_eq_value prod.collapse)
  ultimately show "P e" by simp
qed (use assms(2) in auto)

lemma sweep_connections:
  assumes "distinct (map fst (el_connections el))"
  shows "sweep_idle_connections now el = el\<lparr>el_connections :=
     filter (\<lambda>(_, conn). now - conn_last_activity conn < sweep_timeout el) (el_connections el)\<rparr>"
proof -
  let ?stale = "\<lambda>(_ :: Token, conn). sweep_timeout el \<le> now - conn_last_activity conn"
  have "filter (\<lambda>(token, _). token \<notin> set (map fst (filter ?stale (el_connections el)))) (el_connections el)
      = filter (\<lambda>(_, conn). now - conn_last_activity conn < sweep_timeout el) (el_connections el)"
  proof (intro filter_cong refl)
    fix e assume "e \<in> set (el_connections el)"
    from key_filter[OF assms this, of ?stale]
    show "(case e of (token, _) \<Rightarrow> token \<notin> set (map fst (filter ?stale (el_connections el))))
        = (case e of (_, conn) \<Rightarrow> now - conn_last_activity conn < sweep_timeout el)"
      by (cases e) (simp only: prod.case fst_conv not_le)
  qed
  then show ?thesis by (simp only: sweep_idle_connections_def close_connections Let_def)
qed

section \<open>Invariant\<close>

text \<open>Between two events every connection has a token outside the reserved ones and a buffer that
  holds no complete frame; the tokens are distinct and at most \<open>max_connections\<close>; the store is ordered;
  and a minimum level above the lowest comes with a user.\<close>

definition connection_ok :: "Token \<Rightarrow> ConnectionState \<Rightarrow> bool" where
  "connection_ok token conn \<longleftrightarrow> FIRST_CONN_TOKEN \<le> token \<and> token < usize_limit
     \<and> next_complete_frame (conn_read_buf conn) = (Incomplete, conn_read_buf conn)"

definition el_inv :: "EventLoop \<Rightarrow> bool" where
  "el_inv el \<longleftrightarrow> distinct (map fst (el_connections el)) \<and> length (el_connections el) \<le> el_max_connections el
     \<and> (\<forall>token conn. map_of (el_connections el) token = Some conn \<longrightarrow> connection_ok token conn)
     \<and> FIRST_CONN_TOKEN \<le> el_next_token el \<and> el_next_token el < usize_limit
     \<and> store_wf (el_store el) \<and> \<not> security_level_requires_user (el_usm_user el) (el_minimum_security_level el)"

lemma el_inv_new:
  assumes "event_loop_new calls now addr engine_id boots user level max_connections config = Inr (el, bound_addr)"
  shows "el_inv el" "el_connections el = []" "el_store el = store_new" "el_engine_id el = engine_id" "el_engine_boots el = boots"
    "el_usm_user el = user" "el_minimum_security_level el = level" "el_max_connections el = max_connections"
    "el_timeout_config el = config" "el_engine_start el = now"
  using assms by (auto simp: event_loop_new_def el_inv_def FIRST_CONN_TOKEN_def store_new_def store_wf_def result_Inr_iffs
      split: if_splits option.splits)

lemma el_inv_counters [simp]: "el_inv (store_counters i el) \<longleftrightarrow> el_inv el"
  by (simp add: el_inv_def)

lemma el_inv_put:
  assumes "el_inv el" "map_of (el_connections el) token = Some conn"
    and "next_complete_frame (conn_read_buf conn') = (Incomplete, conn_read_buf conn')"
  shows "el_inv (put_connection token conn' el)"
proof -
  have mem: "token \<in> fst ` set (el_connections el)" using assms(2) by (metis domIff dom_map_of_conv_image_fst option.discI)
  have keys: "map fst (AList.update token conn' (el_connections el)) = map fst (el_connections el)"
    using mem by (simp add: update_keys)
  have "length (el_connections (put_connection token conn' el)) = length (el_connections el)"
    using keys map_eq_imp_length_eq[OF keys] by (simp add: put_connection_def)
  moreover have "distinct (map fst (el_connections (put_connection token conn' el)))"
    using assms(1) keys by (simp add: put_connection_def el_inv_def)
  ultimately show ?thesis using assms by (auto simp: el_inv_def connection_ok_def split: if_splits)
qed

lemma el_inv_close:
  assumes "el_inv el"
  shows "el_inv (close_and_deregister_connection token el)"
  using assms length_delete_le[of token "el_connections el"]
  by (auto simp: el_inv_def close_and_deregister_connection_def distinct_delete delete_conv' split: if_splits)

lemma el_inv_handle:
  assumes "el_inv el" "handle_connection_event cr seed token now (el, salt) = (el', salt')"
  shows "el_inv el'"
  using handle_event_effect[OF assms(2)] assms(1) el_inv_put[of "store_counters _ el" token] el_inv_close[of "store_counters _ el" token]
  by auto

lemma el_inv_sweep:
  assumes "el_inv el"
  shows "el_inv (sweep_idle_connections now el)"
proof -
  let ?P = "\<lambda>(_, conn). now - conn_last_activity conn < sweep_timeout el"
  have "map_of (filter ?P (el_connections el)) token = Some conn \<Longrightarrow> map_of (el_connections el) token = Some conn" for token conn
    using assms map_of_SomeD[of "filter ?P (el_connections el)" token conn] map_of_is_SomeI[of "el_connections el" token conn]
    unfolding el_inv_def by simp
  moreover have "length (filter ?P (el_connections el)) \<le> el_max_connections el"
    using assms length_filter_le[of ?P "el_connections el"] unfolding el_inv_def by linarith
  ultimately show ?thesis using assms
    by (simp add: sweep_connections el_inv_def distinct_map_filter)
qed

section \<open>Accepting and commands\<close>

text \<open>What no operation of the loop changes.\<close>

definition el_config :: "EventLoop \<Rightarrow> EngineId \<times> EngineBoots \<times> Instant \<times> UsmUser option \<times> SecurityLevel \<times> nat \<times> ConnectionTimeoutConfig" where
  "el_config el = (el_engine_id el, el_engine_boots el, el_engine_start el, el_usm_user el, el_minimum_security_level el,
     el_max_connections el, el_timeout_config el)"

lemma el_config_simps [simp]:
  "el_config (put_connection t c el) = el_config el" "el_config (store_counters i el) = el_config el"
  "el_config (close_and_deregister_connection t el) = el_config el"
  "el_config (el\<lparr>el_rx := rx\<rparr>) = el_config el" "el_config (el\<lparr>el_accepts := accepts\<rparr>) = el_config el"
  "el_config (el\<lparr>el_store := st\<rparr>) = el_config el" "el_config (el\<lparr>el_connections := cs\<rparr>) = el_config el"
  "el_config (el\<lparr>el_rx_connected := b\<rparr>) = el_config el" "el_config (el\<lparr>el_next_token := n\<rparr>) = el_config el"
  by (simp_all add: el_config_def close_and_deregister_connection_def)

lemma el_inv_simps [simp]:
  "el_inv (el\<lparr>el_rx := rx\<rparr>) \<longleftrightarrow> el_inv el" "el_inv (el\<lparr>el_accepts := accepts\<rparr>) \<longleftrightarrow> el_inv el"
  "el_inv (el\<lparr>el_rx_connected := b\<rparr>) \<longleftrightarrow> el_inv el"
  by (simp_all add: el_inv_def)

lemma register_and_insert_effect:
  assumes "el_inv el" "length (el_connections el) < el_max_connections el"
    and "register_and_insert_connection stream registered now el = Some el'"
  shows "el_inv el' \<and> el_config el' = el_config el \<and> el_rx el' = el_rx el \<and> el_rx_connected el' = el_rx_connected el
    \<and> el_store el' = el_store el \<and> map_of (el_connections el) \<subseteq>\<^sub>m map_of (el_connections el')"
proof -
  obtain token next' where n: "next_connection_token (el_connections el) (el_next_token el) = Some (token, next')"
    and el': "el' = (case registered of Some e \<Rightarrow> el\<lparr>el_next_token := next'\<rparr>
      | None \<Rightarrow> el\<lparr>el_next_token := next', el_connections := AList.update token
          \<lparr>conn_stream = stream, conn_read_buf = [], conn_last_activity = now\<rparr> (el_connections el)\<rparr>)"
    using assms(3) by (auto simp: register_and_insert_connection_def Let_def split: option.splits)
  have r: "FIRST_CONN_TOKEN \<le> token" "token < usize_limit" "map_of (el_connections el) token = None"
    "FIRST_CONN_TOKEN \<le> next'" "next' < usize_limit"
    using next_token_sound[OF n] assms(1) by (simp_all add: el_inv_def)
  have fresh: "token \<notin> fst ` set (el_connections el)" using r(3) by (simp add: map_of_eq_None_iff)
  have len: "length (AList.update token c al) = Suc (length al)" if "token \<notin> fst ` set al" for c al
    using that by (induction al) auto
  show ?thesis
  proof (cases registered)
    case None
    have "connection_ok token \<lparr>conn_stream = stream, conn_read_buf = [], conn_last_activity = now\<rparr>"
      using r by (simp add: connection_ok_def next_complete_frame_def)
    then show ?thesis using None assms(1,2) r len[OF fresh] unfolding el'
      by (auto simp: el_inv_def el_config_def distinct_update update_conv' map_le_def)
  next
    case (Some e)
    then show ?thesis using assms(1) r(4,5) unfolding el' by (simp add: el_inv_def el_config_def)
  qed
qed

lemma accept_loop_effect:
  assumes "el_inv el" "accept_loop rs el = Some el'"
  shows "el_inv el' \<and> el_config el' = el_config el \<and> el_rx el' = el_rx el \<and> el_rx_connected el' = el_rx_connected el
    \<and> el_store el' = el_store el \<and> map_of (el_connections el) \<subseteq>\<^sub>m map_of (el_connections el')"
  using assms
proof (induction rs arbitrary: el)
  case (Cons r rs)
  show ?case
  proof (cases "length (el_connections el) < el_max_connections el \<and> (\<exists>stream registered now. r = AcceptOk stream registered now)")
    case True
    then obtain stream registered now el1 where a: "register_and_insert_connection stream registered now el = Some el1"
      "accept_loop rs el1 = Some el'"
      using Cons.prems(2) by (auto simp: Option.bind_eq_Some_conv)
    note e1 = register_and_insert_effect[OF Cons.prems(1) _ a(1)]
    then show ?thesis using Cons.IH[OF _ a(2)] True by (auto intro: map_le_trans)
  next
    case False
    then show ?thesis using Cons.prems by (auto split: if_splits accept_result.splits)
  qed
qed auto

lemma accept_loop_total:
  assumes "el_inv el" "el_max_connections el \<le> usize_limit - FIRST_CONN_TOKEN"
  shows "\<exists>el'. accept_loop rs el = Some el'"
  using assms
proof (induction rs arbitrary: el)
  case (Cons r rs)
  show ?case
  proof (cases "length (el_connections el) < el_max_connections el \<and> (\<exists>stream registered now. r = AcceptOk stream registered now)")
    case True
    then obtain stream registered now where r: "r = AcceptOk stream registered now" by blast
    have "length (el_connections el) < usize_limit - FIRST_CONN_TOKEN" using True Cons.prems(2) by linarith
    then obtain el1 where a: "register_and_insert_connection stream registered now el = Some el1"
      using next_token_total[of "el_connections el" "el_next_token el"] Cons.prems(1)
      by (auto simp: register_and_insert_connection_def el_inv_def)
    have "el_inv el1 \<and> el_max_connections el1 \<le> usize_limit - FIRST_CONN_TOKEN"
      using register_and_insert_effect[OF Cons.prems(1) _ a] True Cons.prems(2) by (simp add: el_config_def)
    then show ?thesis using Cons.IH[of el1] True r a by simp
  next
    case False
    then show ?thesis by (auto split: accept_result.splits)
  qed
qed simp

text \<open>The updates a queue of commands makes before a shutdown.\<close>

fun set_commands :: "Command list \<Rightarrow> (Oid \<times> Value) list" where
  "set_commands [] = []"
| "set_commands (SetValue oid value # cmds) = (oid, value) # set_commands cmds"
| "set_commands (Shutdown # cmds) = []"

lemma drain_queue_eq:
  "drain_queue cmds el = (Shutdown \<in> set cmds \<or> \<not> el_rx_connected el,
     el\<lparr>el_store := fold (\<lambda>(oid, value). store_set oid value) (set_commands cmds) (el_store el),
        el_rx := tl (dropWhile (\<lambda>c. c \<noteq> Shutdown) cmds)\<rparr>)"
  by (induction cmds el rule: drain_queue.induct) auto

lemma store_wf_fold: "store_wf st \<Longrightarrow> store_wf (fold (\<lambda>(oid, value). store_set oid value) kvs st)"
  by (induction kvs arbitrary: st) (auto simp: mib.inv_set)

lemma drain_commands_effect:
  assumes "drain_commands el = (exit, el')"
  shows "exit = (Shutdown \<in> set (el_rx el) \<or> \<not> el_rx_connected el)" "el_config el' = el_config el"
    "el_connections el' = el_connections el" "el_rx_connected el' = el_rx_connected el" "el_inv el \<Longrightarrow> el_inv el'"
    "set (el_rx el') \<subseteq> set (el_rx el)"
proof -
  have el': "el' = el\<lparr>el_store := fold (\<lambda>(oid, value). store_set oid value) (set_commands (el_rx el)) (el_store el),
        el_rx := tl (dropWhile (\<lambda>c. c \<noteq> Shutdown) (el_rx el))\<rparr>"
    and "exit = (Shutdown \<in> set (el_rx el) \<or> \<not> el_rx_connected el)"
    using assms by (simp_all add: drain_commands_def drain_queue_eq)
  then show "exit = (Shutdown \<in> set (el_rx el) \<or> \<not> el_rx_connected el)" "el_config el' = el_config el"
    "el_connections el' = el_connections el" "el_rx_connected el' = el_rx_connected el"
    by (simp_all add: el_config_def)
  show "el_inv el'" if "el_inv el" using that unfolding el' by (simp add: el_inv_def store_wf_fold)
  have "set (tl (dropWhile (\<lambda>c. c \<noteq> Shutdown) cmds)) \<subseteq> set cmds" for cmds
    by (induction cmds) auto
  then show "set (el_rx el') \<subseteq> set (el_rx el)" unfolding el' by simp
qed

lemma handle_event_config:
  assumes "handle_connection_event cr seed token now (el, salt) = (el', salt')"
  shows "el_config el' = el_config el" "el_rx el' = el_rx el" "el_rx_connected el' = el_rx_connected el"
    "el_store el' = el_store el" "other \<noteq> token \<Longrightarrow> map_of (el_connections el') other = map_of (el_connections el) other"
  using handle_event_effect[OF assms] by (auto simp: close_and_deregister_connection_def delete_conv')

section \<open>Rounds of the loop\<close>

text \<open>Every list of events is handled to its end or to an exit command, whatever the traffic.\<close>

lemma process_events_spec:
  assumes "el_inv el" "el_max_connections el \<le> usize_limit - FIRST_CONN_TOKEN"
  shows "\<exists>exit el' salt'. process_events cr seed events (el, salt) = Some (exit, el', salt') \<and> el_inv el'
    \<and> el_config el' = el_config el \<and> el_rx_connected el' = el_rx_connected el \<and> set (el_rx el') \<subseteq> set (el_rx el)
    \<and> (exit \<longrightarrow> Shutdown \<in> set (el_rx el) \<or> \<not> el_rx_connected el)"
  using assms
proof (induction events arbitrary: el salt)
  case (Cons event events)
  obtain token now where e: "event = (token, now)" by fastforce
  have max: "el_max_connections x = el_max_connections el" if "el_config x = el_config el" for x
    using that by (simp add: el_config_def)
  consider (listener) "token = LISTENER_TOKEN" | (waker) "token = WAKER_TOKEN"
    | (conn) "token \<noteq> LISTENER_TOKEN" "token \<noteq> WAKER_TOKEN" by blast
  then show ?case
  proof cases
    case listener
    obtain el1 where a: "accept_loop (el_accepts el) el = Some el1" using accept_loop_total Cons.prems by blast
    note x = accept_loop_effect[OF Cons.prems(1) a]
    show ?thesis using Cons.IH[of el1 salt] Cons.prems(2) x max[of el1] a listener
      by (simp add: e accept_connections_def)
  next
    case waker
    obtain exit el1 where d: "drain_commands el = (exit, el1)" by fastforce
    note x = drain_commands_effect[OF d]
    show ?thesis
    proof (cases exit)
      case True
      then have "process_events cr seed (event # events) (el, salt) = Some (True, el1, salt)"
        using d waker by (simp add: e LISTENER_TOKEN_def WAKER_TOKEN_def)
      then show ?thesis using True x Cons.prems(1) by blast
    next
      case False
      then show ?thesis using Cons.IH[of el1 salt] Cons.prems d x max[of el1] waker
        by (auto simp: e LISTENER_TOKEN_def WAKER_TOKEN_def)
    qed
  next
    case conn
    obtain el1 salt1 where h: "handle_connection_event cr seed token now (el, salt) = (el1, salt1)" by fastforce
    note x = handle_event_config[OF h] el_inv_handle[OF Cons.prems(1) h]
    show ?thesis using Cons.IH[of el1 salt1] Cons.prems(2) x max[of el1] h conn by (simp add: e)
  qed
qed auto

lemma sweep_fields:
  "el_config (sweep_idle_connections now el) = el_config el" "el_rx (sweep_idle_connections now el) = el_rx el"
  "el_rx_connected (sweep_idle_connections now el) = el_rx_connected el" "el_store (sweep_idle_connections now el) = el_store el"
  by (simp_all add: sweep_idle_connections_def close_connections Let_def)

lemma run_round_spec:
  assumes "el_inv el" "el_max_connections el \<le> usize_limit - FIRST_CONN_TOKEN"
  shows "\<exists>outcome el' salt'. run_round cr seed r (el, salt) = Some (outcome, el', salt') \<and> el_inv el'
    \<and> el_config el' = el_config el \<and> el_rx_connected el' = el_rx_connected el \<and> set (el_rx el') \<subseteq> set (el_rx el)
    \<and> (outcome = Exited (Inr ()) \<longrightarrow> Shutdown \<in> set (el_rx el) \<or> \<not> el_rx_connected el)
    \<and> (\<forall>e. outcome = Exited (Inl e) \<longrightarrow> r = PollErr e)"
proof (cases r)
  case (PollReady events now)
  obtain exit el' salt' where p: "process_events cr seed events (el, salt) = Some (exit, el', salt')" "el_inv el'"
    "el_config el' = el_config el" "el_rx_connected el' = el_rx_connected el" "set (el_rx el') \<subseteq> set (el_rx el)"
    "exit \<longrightarrow> Shutdown \<in> set (el_rx el) \<or> \<not> el_rx_connected el"
    using process_events_spec[OF assms] by metis
  then show ?thesis using PollReady el_inv_sweep[OF p(2)]
    by (cases exit) (simp_all add: run_round_def sweep_fields)
qed (use assms in \<open>auto simp: run_round_def\<close>)

text \<open>Everything that can happen to a running loop: a round of its own, a command or the drop of
  the last sender, a connection request, data or write results on a connection, and a trap sender
  of the same process drawing a salt.\<close>

inductive el_step :: "crypto \<Rightarrow> u64 \<Rightarrow> loop_state \<Rightarrow> loop_state \<Rightarrow> bool" for cr seed where
  round: "run_round cr seed r s = Some (Running, s') \<Longrightarrow> el_step cr seed s s'"
| command: "el_step cr seed (el, salt) (el\<lparr>el_rx := el_rx el @ [cmd]\<rparr>, salt)"
| hangup: "el_step cr seed (el, salt) (el\<lparr>el_rx_connected := False\<rparr>, salt)"
| connect: "el_step cr seed (el, salt) (el\<lparr>el_accepts := el_accepts el @ [r]\<rparr>, salt)"
| network: "map_of (el_connections el) token = Some conn \<Longrightarrow>
    el_step cr seed (el, salt) (put_connection token (conn\<lparr>conn_stream := (conn_stream conn)
      \<lparr>ts_reads := ts_reads (conn_stream conn) @ rs, ts_writes := ts_writes (conn_stream conn) @ ws\<rparr>\<rparr>) el, salt)"
| trap: "el_step cr seed (el, salt) (el, snd (next_privacy_salt seed salt))"

inductive_cases el_step_cases: "el_step cr seed (el, salt) (el', salt')"

lemma el_step_inv:
  assumes "el_step cr seed s s'" "el_inv (fst s)" "el_max_connections (fst s) \<le> usize_limit - FIRST_CONN_TOKEN"
  shows "el_inv (fst s') \<and> el_config (fst s') = el_config (fst s)"
  using assms
proof cases
  case (round r)
  then show ?thesis using run_round_spec[OF assms(2,3), of cr seed r "snd s"] by (cases s) auto
next
  case (network el token conn salt rs ws)
  have "next_complete_frame (conn_read_buf conn) = (Incomplete, conn_read_buf conn)"
    using assms(2) network by (auto simp: el_inv_def connection_ok_def)
  then show ?thesis using network assms(2) by (auto intro!: el_inv_put)
qed simp_all

text \<open>The invariant, with the configuration the loop was built with, is one of the step relation.\<close>

definition loop_ok :: "EngineId \<times> EngineBoots \<times> Instant \<times> UsmUser option \<times> SecurityLevel \<times> nat \<times> ConnectionTimeoutConfig \<Rightarrow> loop_state \<Rightarrow> bool" where
  "loop_ok config s \<longleftrightarrow> el_inv (fst s) \<and> el_max_connections (fst s) \<le> usize_limit - FIRST_CONN_TOKEN \<and> el_config (fst s) = config"

interpretation loop_steps: invariant_system "el_step cr seed" "loop_ok config" for cr seed config
proof
  fix s s' assume "el_step cr seed s s'" "loop_ok config s"
  then show "loop_ok config s'"
    using el_step_inv[of cr seed s s'] by (auto simp: loop_ok_def el_config_def)
qed

lemma reachable_inv:
  assumes "(el_step cr seed)\<^sup>*\<^sup>* s s'" "el_inv (fst s)" "el_max_connections (fst s) \<le> usize_limit - FIRST_CONN_TOKEN"
  shows "el_inv (fst s') \<and> el_config (fst s') = el_config (fst s)"
  using loop_steps.reachable_keeps[OF assms(1), of "el_config (fst s)"] assms(2,3) by (simp add: loop_ok_def)

lemma el_inv_buffers:
  assumes "el_inv el" "(token, conn) \<in> set (el_connections el)"
  shows "FIRST_CONN_TOKEN \<le> token \<and> length (conn_read_buf conn) < MAX_FRAME_SIZE"
  using assms map_of_is_SomeI[of "el_connections el" token conn] next_frame_Incomplete(2)[of "conn_read_buf conn"]
  by (auto simp: el_inv_def connection_ok_def MAX_FRAME_SIZE_def)

lemma run_spec:
  assumes "el_inv el" "el_max_connections el \<le> usize_limit - FIRST_CONN_TOKEN"
    and "Shutdown \<notin> set (el_rx el)" "el_rx_connected el"
  shows "\<exists>outcome el' salt'. run cr seed polls (el, salt) = Some (outcome, el', salt') \<and> el_inv el' \<and> el_config el' = el_config el
    \<and> (outcome = Running \<or> (\<exists>e. outcome = Exited (Inl e) \<and> PollErr e \<in> set polls))"
  using assms
proof (induction polls arbitrary: el salt)
  case (Cons r polls)
  obtain outcome el1 salt1 where r: "run_round cr seed r (el, salt) = Some (outcome, el1, salt1)" "el_inv el1"
    "el_config el1 = el_config el" "el_rx_connected el1 = el_rx_connected el" "set (el_rx el1) \<subseteq> set (el_rx el)"
    "outcome \<noteq> Exited (Inr ())" "\<forall>e. outcome = Exited (Inl e) \<longrightarrow> r = PollErr e"
    using run_round_spec[OF Cons.prems(1,2), of cr seed r salt] Cons.prems(3,4) by metis
  show ?case
  proof (cases outcome)
    case Running
    have "el_max_connections el1 \<le> usize_limit - FIRST_CONN_TOKEN" "Shutdown \<notin> set (el_rx el1)" "el_rx_connected el1"
      using r(3-5) Cons.prems by (auto simp: el_config_def)
    from Cons.IH[OF r(2) this, of salt1] show ?thesis using r(1,3) Running by auto
  next
    case (Exited x)
    then obtain e where "x = Inl e" using r(6) by (cases x) auto
    then show ?thesis using r Exited by auto
  qed
qed simp

lemma store_get_updates:
  "store_wf st \<Longrightarrow> store_get (fold (\<lambda>(oid, value). store_set oid value) kvs st) oid
     = (case map_of (rev kvs) oid of Some value \<Rightarrow> Some value | None \<Rightarrow> store_get st oid)"
proof (induction kvs arbitrary: st)
  case (Cons kv kvs)
  obtain k v where kv: "kv = (k, v)" by fastforce
  have "store_wf (store_set k v st)" using Cons.prems by (rule mib.inv_set)
  then show ?case using Cons by (auto simp: kv mib.get_set map_add_def split: option.splits)
qed simp

section \<open>Properties\<close>

text \<open>A loop with one connection, for the witnesses.\<close>

definition sample_stream :: "read_result list \<Rightarrow> TcpStream" where
  "sample_stream reads = \<lparr>ts_reads = reads, ts_writes = [], ts_sent = []\<rparr>"

definition sample_loop :: "(Token \<times> ConnectionState) list \<Rightarrow> Command list \<Rightarrow> EventLoop" where
  "sample_loop connections cmds =
     \<lparr>el_accepts = [], el_rx = cmds, el_rx_connected = True, el_next_token = 3, el_connections = connections,
      el_max_connections = 64, el_timeout_config = timeout_config_default, el_store = store_new,
      el_engine_id = EngineId [0x80, 0, 0x1F, 0x88, 4], el_engine_boots = EngineBoots 2, el_engine_start = 0,
      el_unknown_engine_ids_counter = UsmStatsCounter 0, el_unknown_user_names_counter = UsmStatsCounter 0,
      el_unsupported_sec_levels_counter = UsmStatsCounter 0, el_wrong_digests_counter = UsmStatsCounter 0,
      el_not_in_time_windows_counter = UsmStatsCounter 0, el_decryption_errors_counter = UsmStatsCounter 0,
      el_unknown_security_models_counter = UsmStatsCounter 0, el_usm_user = Some sample_user,
      el_minimum_security_level = AuthPriv\<rparr>"

definition sample_calls :: new_calls where
  "sample_calls = \<lparr>nc_poll = None, nc_bind = None, nc_local_addr = Inr (SocketAddrV4 0 10161), nc_register = None, nc_waker = None\<rparr>"

lemma sample_loop_inv: "el_inv (sample_loop [] cmds)"
  by (simp add: sample_loop_def el_inv_def FIRST_CONN_TOKEN_def store_new_def store_wf_def security_level_requires_user_def)

lemma sample_new:
  "event_loop_new sample_calls 0 (SocketAddrV4 0 10161) (EngineId [0x80, 0, 0x1F, 0x88, 4]) (EngineBoots 2) (Some sample_user)
     AuthPriv 64 timeout_config_default = Inr ((sample_loop [] [])\<lparr>el_next_token := 2\<rparr>, SocketAddrV4 0 10161)"
  by (simp add: event_loop_new_def sample_calls_def sample_loop_def security_level_requires_user_def FIRST_CONN_TOKEN_def)

text \<open>C12: Resources stay bounded under any traffic: in every state a newly built loop can reach, by
  rounds of its own in any interleaving with commands, connection attempts and whatever the
  network delivers, the connections are at most the configured number, their tokens are distinct
  and not reserved, each buffer holds less than one maximal frame, so that all buffers together
  stay below the product, and the security configuration is the one it was built with.\<close>

theorem reachable_loops_bounded:
  assumes "event_loop_new calls now addr engine_id boots user level max_connections config = Inr (el, bound_addr)"
    and "(el_step cr seed)\<^sup>*\<^sup>* (el, salt) (el', salt')" "max_connections \<le> usize_limit - FIRST_CONN_TOKEN"
  shows "length (el_connections el') \<le> max_connections \<and> distinct (map fst (el_connections el'))
    \<and> (\<forall>(token, conn) \<in> set (el_connections el'). token \<noteq> LISTENER_TOKEN \<and> token \<noteq> WAKER_TOKEN
         \<and> length (conn_read_buf conn) < MAX_FRAME_SIZE)
    \<and> (\<Sum>(token, conn) \<leftarrow> el_connections el'. length (conn_read_buf conn)) \<le> max_connections * MAX_FRAME_SIZE
    \<and> el_usm_user el' = user \<and> el_minimum_security_level el' = level
    \<and> \<not> security_level_requires_user (el_usm_user el') (el_minimum_security_level el')"
proof -
  note new = el_inv_new[OF assms(1)]
  have inv: "el_inv el'" and config: "el_config el' = el_config el"
    using reachable_inv[OF assms(2)] new(1,8) assms(3) by simp_all
  have buf: "\<forall>(token, conn) \<in> set (el_connections el'). token \<noteq> LISTENER_TOKEN \<and> token \<noteq> WAKER_TOKEN
      \<and> length (conn_read_buf conn) < MAX_FRAME_SIZE"
  proof (rule ballI, clarify)
    fix token conn assume "(token, conn) \<in> set (el_connections el')"
    from el_inv_buffers[OF inv this] show "token \<noteq> LISTENER_TOKEN \<and> token \<noteq> WAKER_TOKEN
        \<and> length (conn_read_buf conn) < MAX_FRAME_SIZE"
      by (simp add: FIRST_CONN_TOKEN_def LISTENER_TOKEN_def WAKER_TOKEN_def)
  qed
  have len: "length (el_connections el') \<le> max_connections"
    using inv config new(8) by (simp add: el_inv_def el_config_def)
  have "(\<Sum>(token, conn) \<leftarrow> el_connections el'. length (conn_read_buf conn)) \<le> (\<Sum>e \<leftarrow> el_connections el'. MAX_FRAME_SIZE)"
    using buf by (intro sum_list_mono) auto
  also have "\<dots> \<le> max_connections * MAX_FRAME_SIZE"
    using len by (simp add: sum_list_triv)
  finally have "(\<Sum>(token, conn) \<leftarrow> el_connections el'. length (conn_read_buf conn)) \<le> max_connections * MAX_FRAME_SIZE" .
  moreover have "el_usm_user el' = user" "el_minimum_security_level el' = level"
    using config new(6,7) by (simp_all add: el_config_def)
  moreover have "distinct (map fst (el_connections el'))"
    "\<not> security_level_requires_user (el_usm_user el') (el_minimum_security_level el')"
    using inv by (simp_all add: el_inv_def)
  ultimately show ?thesis using len buf by blast
qed

theorem reachable_loops_bounded_witness:
  "\<exists>el'. (el_step checksum_crypto 1)\<^sup>*\<^sup>* ((sample_loop [] [])\<lparr>el_next_token := 2\<rparr>, None) (el', None)
     \<and> el_rx el' = [Shutdown] \<and> length (el_connections el') \<le> 64"
proof -
  let ?el = "(sample_loop [] [])\<lparr>el_next_token := 2\<rparr>"
  have "(el_step checksum_crypto 1)\<^sup>*\<^sup>* (?el, None) (?el\<lparr>el_rx := el_rx ?el @ [Shutdown]\<rparr>, None)"
    by (rule r_into_rtranclp) (rule el_step.command)
  with reachable_loops_bounded[OF sample_new this] show ?thesis
    by (intro exI[of _ "?el\<lparr>el_rx := el_rx ?el @ [Shutdown]\<rparr>"]) (simp add: sample_loop_def FIRST_CONN_TOKEN_def)
qed

text \<open>C13: No traffic stops or hangs the agent: from every reachable state, for every sequence of
  poll results, the loop handles all events it is given and is still running at their end, or has
  left with an error of \<open>poll\<close> itself, as long as no shutdown is queued and a sender is alive. In
  particular the search for a free connection token always ends.\<close>

theorem traffic_never_stops_the_loop:
  assumes "event_loop_new calls now addr engine_id boots user level max_connections config = Inr (el, bound_addr)"
    and "(el_step cr seed)\<^sup>*\<^sup>* (el, salt) (el', salt')" "max_connections \<le> usize_limit - FIRST_CONN_TOKEN"
    and "Shutdown \<notin> set (el_rx el')" "el_rx_connected el'"
  shows "\<exists>outcome el'' salt''. run cr seed polls (el', salt') = Some (outcome, el'', salt'')
    \<and> (outcome = Running \<or> (\<exists>e. outcome = Exited (Inl e) \<and> PollErr e \<in> set polls))"
proof -
  note new = el_inv_new[OF assms(1)]
  have "el_inv el'" "el_config el' = el_config el"
    using reachable_inv[OF assms(2)] new(1,8) assms(3) by simp_all
  then show ?thesis using run_spec[OF _ _ assms(4,5), of cr seed polls salt'] new(8) assms(3)
    by (auto simp: el_config_def)
qed

theorem traffic_never_stops_the_loop_witness:
  "\<exists>s. run checksum_crypto 1 [PollReady [(LISTENER_TOKEN, 5), (7, 6)] 8, PollReady [] 9]
     ((sample_loop [] [])\<lparr>el_next_token := 2\<rparr>, None) = Some (Running, s)"
proof -
  let ?el = "(sample_loop [] [])\<lparr>el_next_token := 2\<rparr>"
  have "Shutdown \<notin> set (el_rx ?el)" "el_rx_connected ?el" by (simp_all add: sample_loop_def)
  from traffic_never_stops_the_loop[OF sample_new rtranclp.rtrancl_refl _ this, where cr = checksum_crypto and seed = 1
      and salt = None and polls = "[PollReady [(LISTENER_TOKEN, 5), (7, 6)] 8, PollReady [] 9]"]
  show ?thesis by (auto simp: FIRST_CONN_TOKEN_def simp del: run.simps)
qed

text \<open>Commands take effect in the order they were sent: when the waker fires, every value set
  before the first shutdown is in the store, the last one sent for an OID winning, all other OIDs
  are as before, the loop exits exactly if a shutdown is queued or no sender is left, and the
  connections are untouched.\<close>

theorem commands_applied_in_order:
  assumes "store_wf (el_store el)" "drain_commands el = (exit, el')"
  shows "store_get (el_store el') oid
      = (case map_of (rev (set_commands (el_rx el))) oid of Some value \<Rightarrow> Some value | None \<Rightarrow> store_get (el_store el) oid)
    \<and> (exit \<longleftrightarrow> Shutdown \<in> set (el_rx el) \<or> \<not> el_rx_connected el)
    \<and> (\<not> exit \<longrightarrow> el_rx el' = []) \<and> store_wf (el_store el') \<and> el_connections el' = el_connections el"
proof -
  have e: "exit = (Shutdown \<in> set (el_rx el) \<or> \<not> el_rx_connected el)"
    and el': "el' = el\<lparr>el_store := fold (\<lambda>(oid, value). store_set oid value) (set_commands (el_rx el)) (el_store el),
        el_rx := tl (dropWhile (\<lambda>c. c \<noteq> Shutdown) (el_rx el))\<rparr>"
    using assms(2) by (simp_all add: drain_commands_def drain_queue_eq)
  have "Shutdown \<notin> set cmds \<longrightarrow> tl (dropWhile (\<lambda>c. c \<noteq> Shutdown) cmds) = []" for cmds by (induction cmds) auto
  then have "\<not> exit \<longrightarrow> el_rx el' = []" using e by (simp add: el')
  then show ?thesis using e store_get_updates[OF assms(1)] store_wf_fold[OF assms(1)] by (simp add: el')
qed

theorem commands_applied_in_order_witness:
  "\<exists>el'. drain_commands (sample_loop [] [SetValue SYS_UP_TIME_OID (Integer32 1), SetValue SYS_UP_TIME_OID (Integer32 2), Shutdown,
        SetValue SYS_UP_TIME_OID (Integer32 3)]) = (True, el')
     \<and> store_get (el_store el') SYS_UP_TIME_OID = Some (Integer32 2)"
proof -
  let ?el = "sample_loop [] [SetValue SYS_UP_TIME_OID (Integer32 1), SetValue SYS_UP_TIME_OID (Integer32 2), Shutdown,
        SetValue SYS_UP_TIME_OID (Integer32 3)]"
  obtain exit el' where d: "drain_commands ?el = (exit, el')" by fastforce
  have "store_wf (el_store ?el)" using sample_loop_inv by (simp add: el_inv_def)
  from commands_applied_in_order[OF this d, of SYS_UP_TIME_OID] d show ?thesis
    by (auto simp: sample_loop_def)
qed



lemma handle_event_serve:
  assumes "map_of (el_connections el) token = Some conn"
    and "read_available (ts_reads (conn_stream conn)) conn = (ended, conn1)"
    and "split_frames (conn_read_buf conn1) = (frames, stop, rest)"
    and "serve_frames cr seed (el_engine_boots el) (engine_time_seconds now el) frames (conn_stream conn1) (el, salt)
      = (ok, left, stream, el1, salt1)"
    and "handle_connection_event cr seed token now (el, salt) = (el', salt')"
  shows "el' = (if ended \<or> \<not> ok \<or> stop \<noteq> Incomplete then close_and_deregister_connection token el1
        else put_connection token (conn1\<lparr>conn_stream := stream, conn_read_buf := rest\<rparr>) el1)
    \<and> salt' = salt1 \<and> el_store el' = el_store el
    \<and> (\<forall>other. other \<noteq> token \<longrightarrow> map_of (el_connections el') other = map_of (el_connections el) other)"
proof -
  let ?el = "put_connection token conn1 el"
  have d: "drain_connection_read_buffer token el = (ended, ?el)"
    using assms(1,2) by (simp add: drain_connection_read_buffer_def)
  have "serve_frames cr seed (el_engine_boots el) (engine_time_seconds now el) frames (conn_stream conn1) (?el, salt)
      = (ok, left, stream, put_connection token conn1 el1, salt1)"
    by (rule serve_frames_put[OF assms(4)])
  from dispatch_buffered_serve[OF _ assms(3) this]
  have f: "dispatch_buffered_frames cr seed token (el_engine_boots el) (engine_time_seconds now el) ?el salt
      = (\<not> ok \<or> stop \<noteq> Incomplete,
         put_connection token (conn1\<lparr>conn_stream := stream, conn_read_buf := concat left @ rest\<rparr>) el1, salt1)"
    by simp
  have "ok \<longrightarrow> left = []" using serve_frames_counters[OF assms(4)] by blast
  then have "el' = (if ended \<or> \<not> ok \<or> stop \<noteq> Incomplete then close_and_deregister_connection token el1
        else put_connection token (conn1\<lparr>conn_stream := stream, conn_read_buf := rest\<rparr>) el1) \<and> salt' = salt1"
    using assms(5) d f by (auto simp: handle_connection_event_def Let_def)
  then show ?thesis using handle_event_config[OF assms(5)] by simp
qed

text \<open>C14: Handling a connection event is the service of its stream: what arrives is appended to the
  buffer, the complete frames in it are dispatched one after the other and each response is sent
  before the next frame is looked at, what is no complete frame waits, and the connection is closed
  after a protocol error, a failed write, the end of the stream or a read error, with the complete
  frames before it still served. Every other connection and the MIB stay as they are.\<close>

theorem connection_service_refined:
  assumes "map_of (el_connections el) token = Some conn"
    and "read_available (ts_reads (conn_stream conn)) conn = (ended, conn1)"
    and "split_frames (conn_read_buf conn1) = (frames, stop, rest)"
    and "serve_frames cr seed (el_engine_boots el) (engine_time_seconds now el) frames (conn_stream conn1) (el, salt)
      = (ok, left, stream, el1, salt1)"
    and "handle_connection_event cr seed token now (el, salt) = (el', salt')"
  shows "el' = (if ended \<or> \<not> ok \<or> stop \<noteq> Incomplete then close_and_deregister_connection token el1
        else put_connection token (conn1\<lparr>conn_stream := stream, conn_read_buf := rest\<rparr>) el1)
    \<and> salt' = salt1 \<and> el_store el' = el_store el
    \<and> (\<forall>other. other \<noteq> token \<longrightarrow> map_of (el_connections el') other = map_of (el_connections el) other)"
  by (rule handle_event_serve[OF assms])

theorem connection_service_refined_witness:
  "\<exists>salt'. handle_connection_event checksum_crypto 1 2 9
      (sample_loop [(2, \<lparr>conn_stream = sample_stream [ReadOk [0x31] 7], conn_read_buf = [], conn_last_activity = 0\<rparr>)] [], None)
    = (sample_loop [] [], salt')"
proof -
  let ?conn = "\<lparr>conn_stream = sample_stream [ReadOk [0x31] 7], conn_read_buf = [], conn_last_activity = 0\<rparr>"
  let ?el = "sample_loop [(2, ?conn)] []"
  have m: "map_of (el_connections ?el) 2 = Some ?conn" by (simp add: sample_loop_def)
  have r: "read_available (ts_reads (conn_stream ?conn)) ?conn
      = (False, \<lparr>conn_stream = sample_stream [], conn_read_buf = [0x31], conn_last_activity = 7\<rparr>)"
    by (simp add: sample_stream_def)
  have s: "split_frames (conn_read_buf \<lparr>conn_stream = sample_stream [], conn_read_buf = [0x31], conn_last_activity = 7\<rparr>)
      = ([], Close ''non-SEQUENCE tag'', [0x31])"
    by (simp add: split_frames_stop next_complete_frame_def)
  obtain el' salt' where h: "handle_connection_event checksum_crypto 1 2 9 (?el, None) = (el', salt')" by fastforce
  from connection_service_refined[OF m r s serve_frames.simps(1) h]
  have "el' = close_and_deregister_connection 2 ?el" by simp
  then have "el' = sample_loop [] []" by (simp add: close_and_deregister_connection_def sample_loop_def)
  with h show ?thesis by blast
qed

end
