(* ===== verification/Trap.thy ===== *)
theory Trap
  imports Event_Loop
begin

text \<open>
  The trap sender of \<open>transport/trap.rs\<close>: a trap is encoded once, as an SNMPv2c message without a
  user and as an SNMPv3 message at the level of the user otherwise, and sent as one datagram to
  each destination unless it exceeds the MTU cap. The UDP socket is a script of the results of
  its coming \<open>send_to\<close> calls (success when exhausted) with the datagrams sent so far; the message
  ID counter and the privacy salt are process-global. The lemmas show who receives what, and that
  a receiver with the keys of the user accepts the datagram and reads the notification in it.
\<close>

section \<open>Operations\<close>

definition TRAP_MTU_BYTES :: nat where "TRAP_MTU_BYTES = 1500"

definition TRAP_MSG_ID_COUNTER :: i32 where "TRAP_MSG_ID_COUNTER = 1"

record UdpSocket =
  udp_results :: "io_error option list"
  udp_sent :: "(SocketAddr \<times> bytes) list"

definition udp_send_to :: "bytes \<Rightarrow> SocketAddr \<Rightarrow> UdpSocket \<Rightarrow> (io_error + nat) \<times> UdpSocket" where
  "udp_send_to buf dest socket =
     (case udp_results socket of
        Some e # rs \<Rightarrow> (Inl e, socket\<lparr>udp_results := rs\<rparr>)
      | rs \<Rightarrow> (Inr (length buf), socket\<lparr>udp_results := tl rs, udp_sent := udp_sent socket @ [(dest, buf)]\<rparr>))"

record TrapResult =
  tr_destination :: SocketAddr
  tr_outcome :: "io_error + unit"

record TrapSender =
  trs_start_time :: Instant
  trs_engine_id :: EngineId
  trs_engine_boots :: EngineBoots
  trs_usm_user :: "UsmUser option"

text \<open>\<open>bound\<close> is the result of binding the socket.\<close>

definition trap_sender_new ::
  "io_error + UdpSocket \<Rightarrow> Instant \<Rightarrow> EngineId \<Rightarrow> EngineBoots \<Rightarrow> UsmUser option \<Rightarrow> io_error + TrapSender \<times> UdpSocket" where
  "trap_sender_new bound start_time engine_id engine_boots usm_user =
     rbind bound (\<lambda>socket. Inr (\<lparr>trs_start_time = start_time, trs_engine_id = engine_id, trs_engine_boots = engine_boots,
       trs_usm_user = usm_user\<rparr>, socket))"

type_synonym trap_globals = "i32 \<times> salt_state"

definition trap_sender_encode_trap_pdu ::
  "crypto \<Rightarrow> u64 \<Rightarrow> Instant \<Rightarrow> TrapSender \<Rightarrow> WireTrapPdu \<Rightarrow> trap_globals \<Rightarrow> (EncodeError + bytes) \<times> trap_globals" where
  "trap_sender_encode_trap_pdu cr seed now sender wire_pdu = (\<lambda>(counter, salt).
     case trs_usm_user sender of
       None \<Rightarrow> (encode_trap wire_pdu, (counter, salt))
     | Some usm_user \<Rightarrow>
         let engine_time_secs = (case u32_try_from_u64 (as_secs (now - trs_start_time sender)) of
               Some secs \<Rightarrow> secs | None \<Rightarrow> 0xFFFFFFFF);
             trap_auth = option_zip (user_auth_protocol usm_user) (user_auth_key usm_user);
             trap_priv = option_zip (user_priv_protocol usm_user) (user_priv_key usm_user);
             (msg_id, counter) = next_sequential counter;
             (r, salt) = encode_v3_trap cr seed msg_id (engine_id_bytes (trs_engine_id sender))
               (user_name_bytes (usm_name usm_user)) [] (engine_boots_u32 (trs_engine_boots sender)) engine_time_secs
               trap_auth trap_priv wire_pdu salt
         in (r, (counter, salt)))"

definition encode_error_for_all :: "SocketAddr list \<Rightarrow> string \<Rightarrow> TrapResult list" where
  "encode_error_for_all destinations message =
     map (\<lambda>dest. \<lparr>tr_destination = dest, tr_outcome = Inl (InvalidData message)\<rparr>) destinations"

text \<open>The loop over the destinations.\<close>

fun send_to_all :: "bytes \<Rightarrow> SocketAddr list \<Rightarrow> UdpSocket \<Rightarrow> TrapResult list \<times> UdpSocket" where
  "send_to_all buf [] socket = ([], socket)"
| "send_to_all buf (dest # dests) socket =
     (let (r, socket) = udp_send_to buf dest socket;
          (results, socket) = send_to_all buf dests socket
      in (\<lparr>tr_destination = dest, tr_outcome = rbind r (\<lambda>_. Inr ())\<rparr> # results, socket))"

text \<open>The two clock readings are those of the uptime varbind and of the engine time. The text of an
  encoding error that is appended to the first message is left out.\<close>

definition trap_sender_send_trap ::
  "crypto \<Rightarrow> u64 \<Rightarrow> Instant \<Rightarrow> Instant \<Rightarrow> TrapSender \<Rightarrow> TrapPdu \<Rightarrow> SocketAddr list \<Rightarrow> UdpSocket \<Rightarrow> trap_globals
    \<Rightarrow> TrapResult list \<times> UdpSocket \<times> trap_globals" where
  "trap_sender_send_trap cr seed now1 now2 sender pdu destinations socket globals =
     (let wire_pdu = build_wire_trap pdu ((now1 - trs_start_time sender) div 1000000)
      in case trap_sender_encode_trap_pdu cr seed now2 sender wire_pdu globals of
           (Inl e, globals) \<Rightarrow> (encode_error_for_all destinations ''trap PDU encoding failed: '', socket, globals)
         | (Inr encoded_pdu, globals) \<Rightarrow>
             if length encoded_pdu > TRAP_MTU_BYTES
             then (encode_error_for_all destinations (''encoded trap PDU ('' @ show_dec (length encoded_pdu)
                     @ '' bytes) exceeds MTU ('' @ show_dec TRAP_MTU_BYTES @ '' bytes)''), socket, globals)
             else let (results, socket) = send_to_all encoded_pdu destinations socket in (results, socket, globals))"

section \<open>Delivery\<close>

lemma send_to_all_spec:
  "send_to_all buf dests socket = (results, socket') \<Longrightarrow> map tr_destination results = dests
    \<and> udp_sent socket' = udp_sent socket @ map (\<lambda>r. (tr_destination r, buf)) (filter (\<lambda>r. tr_outcome r = Inr ()) results)"
proof (induction dests arbitrary: socket results socket')
  case (Cons dest dests)
  obtain r s1 where u: "udp_send_to buf dest socket = (r, s1)" by fastforce
  obtain rs s2 where a: "send_to_all buf dests s1 = (rs, s2)" by fastforce
  have eq: "results = \<lparr>tr_destination = dest, tr_outcome = rbind r (\<lambda>_. Inr ())\<rparr> # rs" "socket' = s2"
    using Cons.prems u a by simp_all
  have "udp_sent s1 = udp_sent socket @ (case r of Inl _ \<Rightarrow> [] | Inr _ \<Rightarrow> [(dest, buf)])"
    using u by (auto simp: udp_send_to_def split: list.splits option.splits)
  then show ?case using Cons.IH[OF a] eq by (cases r) auto
qed simp

lemma encode_trap_pdu_spec:
  obtains raw vbl where "encode_trap_pdu pdu = Inr raw" "encode_varbinds (trap_varbinds pdu) = Inr vbl"
    "raw = tlv TAG_TRAP (pdu_body (request_id_i32 (trap_request_id pdu)) 0 0 vbl)"
    "length raw \<le> length (concat (map wire_varbind (trap_varbinds pdu))) + 62"
proof -
  obtain vbl where v: "encode_varbinds (trap_varbinds pdu) = Inr vbl" by (simp add: encode_varbinds_wire)
  have "encode_trap_pdu pdu = Inr (tlv TAG_TRAP (pdu_body (request_id_i32 (trap_request_id pdu)) 0 0 vbl))"
    using v by (simp add: encode_trap_pdu_def encode_pdu_tlv VALID_STANDARD_PDU_TAGS_def)
  then show thesis using that v encode_varbinds_length[OF v]
      length_pdu_le[of TAG_TRAP "request_id_i32 (trap_request_id pdu)" 0 0 vbl] by fastforce
qed

lemma next_sequential_nonneg: "0 \<le> sint (message_id_i32 (fst (next_sequential counter)))"
proof -
  have "unat (counter AND 0x7FFFFFFF) < 2147483648" by (simp only: unat_mask31)
  then show ?thesis by (simp add: next_sequential_def) (simp only: sint_nonneg)
qed

text \<open>What a receiver reads in an encoded trap PDU.\<close>

definition notifies :: "TrapPdu \<Rightarrow> u32 \<Rightarrow> bytes \<Rightarrow> bool" where
  "notifies pdu up_time raw \<longleftrightarrow>
     (\<exists>vbl. ber_decode_pdu raw = Inr (Standard TAG_TRAP (request_id_i32 (tp_request_id pdu)) vbl)
       \<and> decode_varbind_list_to_varbinds vbl = Inr (
           [\<lparr>vb_oid = SYS_UP_TIME_OID, vb_value = Value (TimeTicks up_time)\<rparr>,
            \<lparr>vb_oid = SNMP_TRAP_OID_OID, vb_value = Value (ObjectIdentifier (tp_trap_oid pdu))\<rparr>] @ tp_varbinds pdu))"

lemma encode_trap_pdu_notifies:
  assumes "encode_trap_pdu (build_wire_trap pdu millis) = Inr raw"
    and "length (concat (map wire_varbind (trap_varbinds (build_wire_trap pdu millis)))) < 4611686018427387904"
  shows "notifies pdu (elapsed_hundredths millis) raw" "length raw < 4611686018427388000"
proof -
  obtain vbl where v: "encode_varbinds (trap_varbinds (build_wire_trap pdu millis)) = Inr vbl"
    and raw: "raw = tlv TAG_TRAP (pdu_body (request_id_i32 (tp_request_id pdu)) 0 0 vbl)"
    and len: "length raw \<le> length (concat (map wire_varbind (trap_varbinds (build_wire_trap pdu millis)))) + 62"
    using encode_trap_pdu_spec[of "build_wire_trap pdu millis"] assms(1) by (auto simp: build_wire_trap_def Let_def)
  obtain c where c: "vbl = tlv TAG_SEQUENCE c" using v by (auto simp: encode_varbinds_wire encode_varbind_list_tlv)
  have l: "length (tlv TAG_TRAP (pdu_body (request_id_i32 (tp_request_id pdu)) 0 0 (tlv TAG_SEQUENCE c))) < 9223372036854775808"
    using len assms(2) unfolding raw c by linarith
  have "length vbl < 9223372036854775808" using encode_varbinds_length[OF v] assms(2) by linarith
  from decode_encoded_varbinds[OF v this] ber_decode_pdu_encoded(1)[OF l]
  show "notifies pdu (elapsed_hundredths millis) raw"
    unfolding notifies_def raw c by (auto simp: VALID_STANDARD_PDU_TAGS_def build_wire_trap_def Let_def)
  show "length raw < 4611686018427388000" using len assms(2) by linarith
qed

text \<open>The encoding of a trap by the level of the sender, and when it can fail.\<close>

lemma trap_encoding_opens:
  assumes "crypto_ok cr" "\<forall>user. trs_usm_user sender = Some user \<longrightarrow> usm_user_wf user \<and> length (user_name_bytes (usm_name user)) \<le> 32"
    and "length (engine_id_bytes (trs_engine_id sender)) \<le> 32"
    and "length (concat (map wire_varbind (trap_varbinds (build_wire_trap pdu millis)))) < 4611686018427387904"
    and "trap_sender_encode_trap_pdu cr seed now sender (build_wire_trap pdu millis) (counter, salt) = (Inr m, globals')"
  shows "\<exists>raw. notifies pdu (elapsed_hundredths millis) raw
    \<and> (case trs_usm_user sender of None \<Rightarrow> m = encode_v2c_message [] raw
       | Some user \<Rightarrow> (\<exists>time. message_opens_as cr (auth_credentials_of (Some user)) (priv_credentials_of (Some user))
           (fst (next_sequential counter)) (engine_id_bytes (trs_engine_id sender))
           (engine_boots_u32 (trs_engine_boots sender)) time (user_name_bytes (usm_name user)) raw m
           \<and> (now - trs_start_time sender < 2147483648 * 1000000000 \<longrightarrow> unat time = (now - trs_start_time sender) div 1000000000)))"
proof -
  obtain raw where raw: "encode_trap_pdu (build_wire_trap pdu millis) = Inr raw" by (rule encode_trap_pdu_spec)
  note n = encode_trap_pdu_notifies[OF raw assms(4)]
  show ?thesis
  proof (cases "trs_usm_user sender")
    case None
    then have "m = encode_v2c_message [] raw" using assms(5) raw by (simp add: trap_sender_encode_trap_pdu_def encode_trap_def)
    then show ?thesis using None n(1) by auto
  next
    case (Some user)
    define time where "time = (case u32_try_from_u64 (as_secs (now - trs_start_time sender)) of Some secs \<Rightarrow> secs | None \<Rightarrow> 0xFFFFFFFF)"
    obtain salt' where e: "encode_v3_envelope cr seed (fst (next_sequential counter)) (engine_id_bytes (trs_engine_id sender))
        (user_name_bytes (usm_name user)) [] (engine_boots_u32 (trs_engine_boots sender)) time
        (auth_credentials_of (Some user)) (priv_credentials_of (Some user)) raw salt = (Inr m, salt')"
      using assms(5) Some raw unfolding time_def
      by (auto simp: trap_sender_encode_trap_pdu_def encode_v3_trap_def auth_credentials_of_def priv_credentials_of_def
          Let_def split: prod.splits)
    have ok: "envelope_ok (fst (next_sequential counter)) (engine_id_bytes (trs_engine_id sender))
        (user_name_bytes (usm_name user)) [] (engine_boots_u32 (trs_engine_boots sender)) time
        (auth_credentials_of (Some user)) (priv_credentials_of (Some user)) raw"
      using served_engine_bounds[OF e] user_keys_ok[of "Some user"] assms(2,3) n(2) Some next_sequential_nonneg[of counter]
      by (simp add: envelope_ok_def)
    have "unat time = (now - trs_start_time sender) div 1000000000"
      if "now - trs_start_time sender < 2147483648 * 1000000000"
    proof -
      have "(now - trs_start_time sender) div 1000000000 < 2147483648"
        using that by (simp add: less_mult_imp_div_less)
      then show ?thesis by (simp add: time_def as_secs_def u32_try_from_u64_def unat_of_nat)
    qed
    then show ?thesis using n(1) encoded_envelope_opens[OF assms(1) ok e] Some by auto
  qed
qed

lemma v2c_length: "length (encode_v2c_message community raw) \<le> length community + length raw + 40"
  using length_tlv_le[of TAG_SEQUENCE "tlv TAG_INTEGER (encode_signed_i32 SNMPV2C_VERSION) @ tlv TAG_OCTET_STRING community @ raw"]
    length_tlv_le[of TAG_OCTET_STRING community] length_i32_tlv_le[of SNMPV2C_VERSION]
  by (simp add: encode_v2c_message_def wrap_in_outer_sequence_def writer_simps Let_def)

lemma trap_encoding_total:
  assumes "crypto_ok cr" "\<forall>user. trs_usm_user sender = Some user \<longrightarrow> usm_user_wf user \<and> length (user_name_bytes (usm_name user)) \<le> 32"
    and "length (engine_id_bytes (trs_engine_id sender)) \<le> 32" "unat (engine_boots_u32 (trs_engine_boots sender)) < 2147483648"
    and "now - trs_start_time sender < 2147483648 * 1000000000"
    and "length (concat (map wire_varbind (trap_varbinds wire_pdu))) \<le> 1000"
  shows "\<exists>m globals'. trap_sender_encode_trap_pdu cr seed now sender wire_pdu (counter, salt) = (Inr m, globals')
    \<and> length m \<le> TRAP_MTU_BYTES"
proof -
  obtain raw where raw: "encode_trap_pdu wire_pdu = Inr raw"
    and "length raw \<le> length (concat (map wire_varbind (trap_varbinds wire_pdu))) + 62"
    by (rule encode_trap_pdu_spec) blast
  then have len: "length raw \<le> 1062" using assms(6) by linarith
  show ?thesis
  proof (cases "trs_usm_user sender")
    case None
    then show ?thesis using raw len v2c_length[of "[]" raw]
      by (simp add: trap_sender_encode_trap_pdu_def encode_trap_def TRAP_MTU_BYTES_def)
  next
    case (Some user)
    define time where "time = (case u32_try_from_u64 (as_secs (now - trs_start_time sender)) of Some secs \<Rightarrow> secs | None \<Rightarrow> 0xFFFFFFFF)"
    have "(now - trs_start_time sender) div 1000000000 < 2147483648"
      using assms(5) by (simp add: less_mult_imp_div_less)
    then have t: "unat time < 2147483648" by (simp add: time_def as_secs_def u32_try_from_u64_def unat_of_nat)
    have ok: "envelope_ok (fst (next_sequential counter)) (engine_id_bytes (trs_engine_id sender))
        (user_name_bytes (usm_name user)) [] (engine_boots_u32 (trs_engine_boots sender)) time
        (auth_credentials_of (Some user)) (priv_credentials_of (Some user)) raw"
      using t user_keys_ok[of "Some user"] assms(2-4) len Some next_sequential_nonneg[of counter] by (simp add: envelope_ok_def)
    obtain m salt' where e: "encode_v3_envelope cr seed (fst (next_sequential counter)) (engine_id_bytes (trs_engine_id sender))
        (user_name_bytes (usm_name user)) [] (engine_boots_u32 (trs_engine_boots sender)) time
        (auth_credentials_of (Some user)) (priv_credentials_of (Some user)) raw salt = (Inr m, salt')"
      by (rule encode_v3_envelope_obtain[OF assms(1) ok]) blast
    have "length m \<le> 2 * length (engine_id_bytes (trs_engine_id sender)) + length (user_name_bytes (usm_name user))
        + length ([] :: bytes) + length raw + 296"
      by (rule encoded_envelope_decodes[OF assms(1) ok e]) blast
    then have "length m \<le> TRAP_MTU_BYTES" using assms(2,3) Some len by (simp add: TRAP_MTU_BYTES_def)
    moreover have "\<exists>globals'. trap_sender_encode_trap_pdu cr seed now sender wire_pdu (counter, salt) = (Inr m, globals')"
      using e raw Some unfolding time_def
      by (auto simp: trap_sender_encode_trap_pdu_def encode_v3_trap_def auth_credentials_of_def priv_credentials_of_def
          Let_def split: prod.splits)
    ultimately show ?thesis by blast
  qed
qed

section \<open>Properties\<close>

text \<open>C29: Traps reach their managers: there is one result per destination, in order; a destination is
  sent a datagram exactly if its result is a success, every datagram is within the MTU cap and is
  the same, and a receiver that knows the keys of the configured user accepts it as a fresh message of the
  agent's engine at the level of the user and reads the uptime, the trap OID and the application's
  varbinds in it, while without a user it is an SNMPv2c message with the same PDU. If nothing can be
  encoded, or it exceeds the cap, no datagram leaves; and up to 1000 bytes of varbinds that never
  happens, so that every destination is attempted.\<close>

theorem traps_reach_their_managers:
  assumes "crypto_ok cr" "\<forall>user. trs_usm_user sender = Some user \<longrightarrow> usm_user_wf user \<and> length (user_name_bytes (usm_name user)) \<le> 32"
    and "length (engine_id_bytes (trs_engine_id sender)) \<le> 32"
    and "millis = (now1 - trs_start_time sender) div 1000000"
    and "length (concat (map wire_varbind (trap_varbinds (build_wire_trap pdu millis)))) < 2 ^ 62"
    and "trap_sender_send_trap cr seed now1 now2 sender pdu dests socket (counter, salt) = (results, socket', globals')"
  shows "map tr_destination results = dests
    \<and> (\<exists>m. udp_sent socket' = udp_sent socket @ map (\<lambda>r. (tr_destination r, m)) (filter (\<lambda>r. tr_outcome r = Inr ()) results)
        \<and> (udp_sent socket' \<noteq> udp_sent socket \<longrightarrow> length m \<le> TRAP_MTU_BYTES
            \<and> (\<exists>raw. notifies pdu (elapsed_hundredths millis) raw
                \<and> (case trs_usm_user sender of None \<Rightarrow> m = encode_v2c_message [] raw
                   | Some user \<Rightarrow> (\<exists>time. message_opens_as cr (auth_credentials_of (Some user)) (priv_credentials_of (Some user))
                       (fst (next_sequential counter)) (engine_id_bytes (trs_engine_id sender))
                       (engine_boots_u32 (trs_engine_boots sender)) time (user_name_bytes (usm_name user)) raw m
                       \<and> (now2 - trs_start_time sender < 2147483648 * 1000000000 \<longrightarrow>
                            unat time = (now2 - trs_start_time sender) div 1000000000))))))
    \<and> (unat (engine_boots_u32 (trs_engine_boots sender)) < 2 ^ 31 \<and> now2 - trs_start_time sender < 2147483648 * 1000000000
        \<and> length (concat (map wire_varbind (trap_varbinds (build_wire_trap pdu millis)))) \<le> 1000 \<longrightarrow>
       (\<exists>m. send_to_all m dests socket = (results, socket')))"
proof -
  obtain r g where e: "trap_sender_encode_trap_pdu cr seed now2 sender (build_wire_trap pdu millis) (counter, salt) = (r, g)"
    by (cases "trap_sender_encode_trap_pdu cr seed now2 sender (build_wire_trap pdu millis) (counter, salt)")
  have none: "filter (\<lambda>r. tr_outcome r = Inr ()) (encode_error_for_all dests message) = []"
    "map tr_destination (encode_error_for_all dests message) = dests" for message
    by (simp_all add: encode_error_for_all_def comp_def)
  consider (fail) message where "results = encode_error_for_all dests message" "socket' = socket"
      "\<not> (\<exists>m. r = Inr m \<and> length m \<le> TRAP_MTU_BYTES)"
    | (sent) m where "r = Inr m" "length m \<le> TRAP_MTU_BYTES" "send_to_all m dests socket = (results, socket')"
    using assms(6) e unfolding assms(4)
    by (cases r) (auto simp: trap_sender_send_trap_def Let_def not_le split: if_splits prod.splits)
  then show ?thesis
  proof cases
    case fail
    then show ?thesis
      using none trap_encoding_total[OF assms(1-3), of now2 "build_wire_trap pdu millis" seed counter salt] e by auto
  next
    case sent
    have "length (concat (map wire_varbind (trap_varbinds (build_wire_trap pdu millis)))) < 4611686018427387904" using assms(5) by simp
    from trap_encoding_opens[OF assms(1-3) this e[unfolded sent(1)]] send_to_all_spec[OF sent(3)] sent(2,3)
    show ?thesis by blast
  qed
qed

text \<open>A sender with the sample user, and a trap without varbinds of its own.\<close>

definition sample_sender :: TrapSender where
  "sample_sender = \<lparr>trs_start_time = 0, trs_engine_id = EngineId [0x80, 0, 0x1F, 0x88, 4], trs_engine_boots = EngineBoots 2,
     trs_usm_user = Some sample_user\<rparr>"

definition sample_trap :: TrapPdu where
  "sample_trap = \<lparr>tp_request_id = RequestId 1, tp_trap_oid = SYS_UP_TIME_OID, tp_varbinds = []\<rparr>"

lemma trap_oid_lengths: "length (encode_oid SYS_UP_TIME_OID) \<le> 40" "length (encode_oid SNMP_TRAP_OID_OID) \<le> 50"
proof -
  have "as_slice SYS_UP_TIME_OID = [1, 3, 6, 1, 2, 1, 1, 3, 0]" "as_slice SNMP_TRAP_OID_OID = [1, 3, 6, 1, 6, 3, 1, 1, 4, 1, 0]"
    by (simp_all add: SYS_UP_TIME_OID_def SNMP_TRAP_OID_OID_def from_slice_valid valid_components_def)
  then show "length (encode_oid SYS_UP_TIME_OID) \<le> 40" "length (encode_oid SNMP_TRAP_OID_OID) \<le> 50"
    using length_encode_oid[of SYS_UP_TIME_OID] length_encode_oid[of SNMP_TRAP_OID_OID] by simp_all
qed

lemma wire_varbind_length_le:
  "length (wire_varbind vb) \<le> length (encode_oid (vb_oid vb)) + length (wire_contents (vb_value vb)) + 30"
  using length_tlv_le[of TAG_SEQUENCE "tlv TAG_OID (encode_oid (vb_oid vb)) @ tlv (wire_tag (vb_value vb)) (wire_contents (vb_value vb))"]
    length_tlv_le[of TAG_OID "encode_oid (vb_oid vb)"] length_tlv_le[of "wire_tag (vb_value vb)" "wire_contents (vb_value vb)"]
  by (simp add: wire_varbind_tlv)

lemma sample_trap_length: "length (concat (map wire_varbind (trap_varbinds (build_wire_trap sample_trap 0)))) \<le> 1000"
proof -
  let ?v1 = "\<lparr>vb_oid = SYS_UP_TIME_OID, vb_value = Value (TimeTicks (elapsed_hundredths 0))\<rparr> :: Varbind"
  let ?v2 = "\<lparr>vb_oid = SNMP_TRAP_OID_OID, vb_value = Value (ObjectIdentifier SYS_UP_TIME_OID)\<rparr> :: Varbind"
  have "trap_varbinds (build_wire_trap sample_trap 0) = [?v1, ?v2]" by (simp add: build_wire_trap_def sample_trap_def Let_def)
  then show ?thesis
    using wire_varbind_length_le[of ?v1] wire_varbind_length_le[of ?v2] trap_oid_lengths length_encode_unsigned(1)[of "elapsed_hundredths 0"]
    by simp
qed

theorem traps_reach_their_managers_witness:
  "\<exists>m raw time. udp_sent (fst (snd (trap_sender_send_trap checksum_crypto 1 0 0 sample_sender sample_trap [SocketAddrV4 1 162]
        \<lparr>udp_results = [], udp_sent = []\<rparr> (1, None)))) = [(SocketAddrV4 1 162, m)]
     \<and> notifies sample_trap (elapsed_hundredths 0) raw
     \<and> message_opens_as checksum_crypto (auth_credentials_of (Some sample_user)) (priv_credentials_of (Some sample_user))
         (MessageId 1) [0x80, 0, 0x1F, 0x88, 4] 2 time [0x75] raw m"
proof -
  let ?socket = "\<lparr>udp_results = [], udp_sent = []\<rparr> :: UdpSocket"
  obtain results socket' globals' where s: "trap_sender_send_trap checksum_crypto 1 0 0 sample_sender sample_trap [SocketAddrV4 1 162]
      ?socket (1, None) = (results, socket', globals')" by (metis prod_cases3)
  have u: "\<forall>user. trs_usm_user sample_sender = Some user \<longrightarrow> usm_user_wf user \<and> length (user_name_bytes (usm_name user)) \<le> 32"
    using sample_context_facts(2) by (simp add: sample_sender_def sample_user_def sample_context_def)
  have l: "length (concat (map wire_varbind (trap_varbinds (build_wire_trap sample_trap 0)))) < 2 ^ 62"
    by (rule le_less_trans[OF sample_trap_length]) simp
  note t = traps_reach_their_managers[OF checksum_crypto_ok u _ _ l s]
  have e: "length (engine_id_bytes (trs_engine_id sample_sender)) \<le> 32" "0 = (0 - trs_start_time sample_sender) div 1000000"
    by (simp_all add: sample_sender_def)
  have "unat (engine_boots_u32 (trs_engine_boots sample_sender)) < 2 ^ 31" by (simp add: sample_sender_def)
  with t[OF e] sample_trap_length obtain m0 where "send_to_all m0 [SocketAddrV4 1 162] ?socket = (results, socket')" by auto
  then have "udp_sent socket' = [(SocketAddrV4 1 162, m0)]" by (auto simp: udp_send_to_def)
  with t[OF e] show ?thesis unfolding s
    by (fastforce simp: sample_sender_def sample_user_def next_sequential_def)
qed

end
