(* ===== verification/Agent.thy ===== *)
theory Agent
  imports Trap
begin

text \<open>
  The public interface of \<open>lib.rs\<close> and the errors of \<open>error.rs\<close>: the builder, the construction of
  an agent with its boots counter, event loop and trap sender, setting values, sending traps and
  the shutdown on drop. The results of the system calls and the clock readings are arguments;
  the boots store of a configuration is a pair of functions on a store state. A construction that
  panics is \<open>None\<close>. The lemmas show what every security configuration turns into.
\<close>

section \<open>Errors\<close>

datatype AgentError =
    AgentBind SocketAddr io_error
  | AgentSocket io_error
  | AgentUdpSocket io_error
  | AgentSpawn io_error
  | AgentEngineBoots InitBootsError
  | AgentSecurityLevelRequiresUser

datatype SetError = SetDisconnected

datatype TrapError = EmptyDestinations

text \<open>\<open>Error::source\<close> of the two errors that wrap others.\<close>

datatype error_source = SourceIo io_error | SourceBoots InitBootsError

fun agent_error_source :: "AgentError \<Rightarrow> error_source option" where
  "agent_error_source (AgentBind addr source) = Some (SourceIo source)"
| "agent_error_source (AgentSocket e) = Some (SourceIo e)"
| "agent_error_source (AgentUdpSocket e) = Some (SourceIo e)"
| "agent_error_source (AgentSpawn e) = Some (SourceIo e)"
| "agent_error_source AgentSecurityLevelRequiresUser = None"
| "agent_error_source (AgentEngineBoots e) = Some (SourceBoots e)"

fun event_loop_error_source :: "EventLoopError \<Rightarrow> error_source option" where
  "event_loop_error_source (Bind addr source) = Some (SourceIo source)"
| "event_loop_error_source (Waker e) = Some (SourceIo e)"
| "event_loop_error_source (Registration e) = Some (SourceIo e)"
| "event_loop_error_source SecurityLevelRequiresUser = None"

section \<open>The builder\<close>

datatype 's SecurityConfig =
    ConfigNoAuthNoPriv
  | ConfigAuthNoPriv AuthNoPrivUser "'s boots_load" "'s boots_save"
  | ConfigAuthPriv AuthPrivUser "'s boots_load" "'s boots_save"

record 's AgentBuilder =
  ab_listen_addr :: SocketAddr
  ab_engine_id :: EngineId
  ab_security :: "'s SecurityConfig"
  ab_max_connections :: nat
  ab_timeout_config :: ConnectionTimeoutConfig

definition default_engine_id_bytes :: bytes where
  "default_engine_id_bytes = [0x80, 0x00, 0x1F, 0x88, 0x04] @ map of_char ''basic-snmp-agent''"

definition agent_builder_new :: "'s SecurityConfig \<Rightarrow> 's AgentBuilder option" where
  "agent_builder_new security =
     map_option (\<lambda>engine_id.
       \<lparr>ab_listen_addr = SocketAddrV4 0 10161, ab_engine_id = engine_id, ab_security = security,
        ab_max_connections = DEFAULT_MAX_CONNECTIONS, ab_timeout_config = timeout_config_default\<rparr>)
       (res_ok (engine_id_try_from default_engine_id_bytes))"

definition builder_listen_addr :: "SocketAddr \<Rightarrow> 's AgentBuilder \<Rightarrow> 's AgentBuilder" where
  "builder_listen_addr addr b = b\<lparr>ab_listen_addr := addr\<rparr>"

definition builder_engine_id :: "EngineId \<Rightarrow> 's AgentBuilder \<Rightarrow> 's AgentBuilder" where
  "builder_engine_id engine_id b = b\<lparr>ab_engine_id := engine_id\<rparr>"

definition builder_max_connections :: "nat \<Rightarrow> 's AgentBuilder \<Rightarrow> 's AgentBuilder" where
  "builder_max_connections m b = b\<lparr>ab_max_connections := m\<rparr>"

definition builder_connection_timeout_config :: "ConnectionTimeoutConfig \<Rightarrow> 's AgentBuilder \<Rightarrow> 's AgentBuilder" where
  "builder_connection_timeout_config config b = b\<lparr>ab_timeout_config := config\<rparr>"

section \<open>The agent\<close>

text \<open>The loop belongs to its thread and is \<open>None\<close> once the thread has ended.\<close>

record Agent =
  ag_loop :: "EventLoop option"
  ag_trap_sender :: TrapSender
  ag_socket :: UdpSocket
  ag_bound_addr :: SocketAddr

record build_calls =
  bc_new :: new_calls
  bc_loop_start :: Instant
  bc_udp_bind :: "io_error + UdpSocket"
  bc_trap_start :: Instant
  bc_spawn :: "io_error + unit"

definition build :: "build_calls \<Rightarrow> 's AgentBuilder \<Rightarrow> 's \<Rightarrow> ((AgentError + Agent) \<times> 's) option" where
  "build calls b st =
     (let minimum_security_level =
            (case ab_security b of
               ConfigNoAuthNoPriv \<Rightarrow> NoAuthNoPriv
             | ConfigAuthNoPriv _ _ _ \<Rightarrow> AuthNoPriv
             | ConfigAuthPriv _ _ _ \<Rightarrow> AuthPriv);
          security =
            (case ab_security b of
               ConfigNoAuthNoPriv \<Rightarrow> Some (None, None)
             | ConfigAuthNoPriv user load save \<Rightarrow> Some (Some (usm_user_from_auth_no_priv user), Some (load, save))
             | ConfigAuthPriv user load save \<Rightarrow>
                 map_option (\<lambda>usm_user. (Some usm_user, Some (load, save))) (usm_user_from_auth_priv user))
      in map_option (\<lambda>(usm_user, boots_store).
        let (boots, st) = (case boots_store of
                Some (load, save) \<Rightarrow>
                  (let (r, st) = initialise_engine_boots load save (engine_id_bytes (ab_engine_id b)) st
                   in (map_err AgentEngineBoots r, st))
              | None \<Rightarrow> (Inr 1, st))
        in (rbind boots (\<lambda>boots.
            let engine_boots = EngineBoots boots in
            rbind (map_err (\<lambda>e. case e of
                       Bind addr source \<Rightarrow> AgentBind addr source
                     | Waker source \<Rightarrow> AgentSocket source
                     | Registration source \<Rightarrow> AgentSocket source
                     | SecurityLevelRequiresUser \<Rightarrow> AgentSecurityLevelRequiresUser)
                    (event_loop_new (bc_new calls) (bc_loop_start calls) (ab_listen_addr b) (ab_engine_id b) engine_boots
                      usm_user minimum_security_level (ab_max_connections b) (ab_timeout_config b)))
              (\<lambda>(event_loop, bound_addr).
            rbind (map_err AgentUdpSocket (trap_sender_new (bc_udp_bind calls) (bc_trap_start calls) (ab_engine_id b)
                      engine_boots usm_user))
              (\<lambda>(trap_sender, socket).
            rbind (map_err AgentSpawn (bc_spawn calls)) (\<lambda>_.
            Inr \<lparr>ag_loop = Some event_loop, ag_trap_sender = trap_sender, ag_socket = socket, ag_bound_addr = bound_addr\<rparr>)))),
           st)) security)"

definition agent_send_trap ::
  "crypto \<Rightarrow> u64 \<Rightarrow> Instant \<Rightarrow> Instant \<Rightarrow> TrapPdu \<Rightarrow> SocketAddr list \<Rightarrow> Agent \<Rightarrow> trap_globals
    \<Rightarrow> (TrapError + TrapResult list) \<times> Agent \<times> trap_globals" where
  "agent_send_trap cr seed now1 now2 pdu destinations agent globals =
     (if destinations = [] then (Inl EmptyDestinations, agent, globals)
      else let (results, socket, globals) =
                 trap_sender_send_trap cr seed now1 now2 (ag_trap_sender agent) pdu destinations (ag_socket agent) globals
           in (Inr results, agent\<lparr>ag_socket := socket\<rparr>, globals))"

text \<open>\<open>woken\<close> is the result of waking the poll.\<close>

definition agent_set :: "Oid \<Rightarrow> Value \<Rightarrow> io_error + unit \<Rightarrow> Agent \<Rightarrow> (SetError + unit) \<times> Agent" where
  "agent_set oid value woken agent =
     (let (r, loop) = command_sender_send (SetValue oid value) woken (ag_loop agent)
      in (map_err (\<lambda>_. SetDisconnected) r, agent\<lparr>ag_loop := loop\<rparr>))"

definition local_addr :: "Agent \<Rightarrow> SocketAddr" where
  "local_addr agent = ag_bound_addr agent"

text \<open>Dropping the last handle queues a shutdown, whatever becomes of the wake-up, and waits for the
  thread; the wait is the rest of the run of the loop.\<close>

definition agent_drop :: "io_error + unit \<Rightarrow> Agent \<Rightarrow> Agent" where
  "agent_drop woken agent = agent\<lparr>ag_loop := snd (command_sender_send Shutdown woken (ag_loop agent))\<rparr>"

section \<open>Lemmas\<close>

lemma agent_builder_new_total: "\<exists>b. agent_builder_new security = Some b \<and> ab_security b = security
    \<and> engine_id_bytes (ab_engine_id b) = default_engine_id_bytes \<and> ab_max_connections b = 64"
  by (simp add: agent_builder_new_def engine_id_try_from_def default_engine_id_bytes_def DEFAULT_MAX_CONNECTIONS_def)

text \<open>The user and the level a configuration stands for.\<close>

definition config_level :: "'s SecurityConfig \<Rightarrow> SecurityLevel" where
  "config_level c = (case c of ConfigNoAuthNoPriv \<Rightarrow> NoAuthNoPriv | ConfigAuthNoPriv _ _ _ \<Rightarrow> AuthNoPriv | ConfigAuthPriv _ _ _ \<Rightarrow> AuthPriv)"

definition config_constructed :: "'s SecurityConfig \<Rightarrow> bool" where
  "config_constructed c \<longleftrightarrow>
     (case c of
        ConfigNoAuthNoPriv \<Rightarrow> True
      | ConfigAuthNoPriv u _ _ \<Rightarrow> (\<exists>name p key. auth_no_priv_user_new name p key = Inr u \<and> (\<exists>bs. user_name_new bs = Inr name))
      | ConfigAuthPriv u _ _ \<Rightarrow> (\<exists>name p key q. auth_priv_user_new name p key q = Inr u \<and> (\<exists>bs. user_name_new bs = Inr name)))"

definition config_user_ok :: "SecurityLevel \<Rightarrow> UsmUser option \<Rightarrow> bool" where
  "config_user_ok level user \<longleftrightarrow> (user = None \<longleftrightarrow> level = NoAuthNoPriv)
     \<and> (\<forall>u. user = Some u \<longrightarrow> usm_user_wf u \<and> user_security_level u = level \<and> length (user_name_bytes (usm_name u)) \<le> 32)"

lemma user_name_length: "user_name_new bs = Inr name \<Longrightarrow> length (user_name_bytes name) \<le> 32"
  by (auto simp: user_name_new_def UserName_MAX_LENGTH_def split: if_splits)

lemma config_users:
  shows "config_constructed (ConfigAuthNoPriv u load save) \<Longrightarrow> config_user_ok AuthNoPriv (Some (usm_user_from_auth_no_priv u))"
    and "config_constructed (ConfigAuthPriv v load save) \<Longrightarrow> \<exists>user. usm_user_from_auth_priv v = Some user \<and> config_user_ok AuthPriv (Some user)"
proof -
  show "config_user_ok AuthNoPriv (Some (usm_user_from_auth_no_priv u))" if c: "config_constructed (ConfigAuthNoPriv u load save)"
  proof -
    obtain name p key bs where n: "auth_no_priv_user_new name p key = Inr u" "user_name_new bs = Inr name"
      using c by (auto simp: config_constructed_def)
    have "usm_name (usm_user_from_auth_no_priv u) = name"
      using n(1) by (auto simp: auth_no_priv_user_new_def usm_user_from_auth_no_priv_def result_Inr_iffs)
    then show ?thesis using auth_no_priv_user_wf[OF n(1)] user_name_length[OF n(2)] by (simp add: config_user_ok_def)
  qed
  show "\<exists>user. usm_user_from_auth_priv v = Some user \<and> config_user_ok AuthPriv (Some user)"
    if c: "config_constructed (ConfigAuthPriv v load save)"
  proof -
    obtain name p key q bs where n: "auth_priv_user_new name p key q = Inr v" "user_name_new bs = Inr name"
      using c by (auto simp: config_constructed_def)
    obtain user where u: "usm_user_from_auth_priv v = Some user" "usm_user_wf user" "user_security_level user = AuthPriv"
      by (rule auth_priv_user_wf[OF n(1)])
    have "usm_name user = name"
      using n(1) u(1) by (auto simp: auth_priv_user_new_def usm_user_from_auth_priv_def result_Inr_iffs)
    then show ?thesis using u user_name_length[OF n(2)] by (auto simp: config_user_ok_def)
  qed
qed

text \<open>The construction in two steps: the user and boots counter of the configuration, then the
  loop, the sender and the thread around them.\<close>

definition assemble ::
  "build_calls \<Rightarrow> 's AgentBuilder \<Rightarrow> UsmUser option \<Rightarrow> SecurityLevel \<Rightarrow> u32 \<Rightarrow> AgentError + Agent" where
  "assemble calls b user level boots =
     rbind (map_err (\<lambda>e. case e of Bind addr source \<Rightarrow> AgentBind addr source | Waker source \<Rightarrow> AgentSocket source
               | Registration source \<Rightarrow> AgentSocket source | SecurityLevelRequiresUser \<Rightarrow> AgentSecurityLevelRequiresUser)
             (event_loop_new (bc_new calls) (bc_loop_start calls) (ab_listen_addr b) (ab_engine_id b) (EngineBoots boots)
               user level (ab_max_connections b) (ab_timeout_config b)))
       (\<lambda>(event_loop, bound_addr).
          rbind (map_err AgentUdpSocket (trap_sender_new (bc_udp_bind calls) (bc_trap_start calls) (ab_engine_id b)
                    (EngineBoots boots) user))
            (\<lambda>(trap_sender, socket). rbind (map_err AgentSpawn (bc_spawn calls)) (\<lambda>_.
               Inr \<lparr>ag_loop = Some event_loop, ag_trap_sender = trap_sender, ag_socket = socket, ag_bound_addr = bound_addr\<rparr>)))"

lemma build_cases:
  assumes "config_constructed (ab_security b)"
  obtains user where "config_user_ok (config_level (ab_security b)) user"
    "ab_security b = ConfigNoAuthNoPriv \<longrightarrow> build calls b st = Some (assemble calls b user NoAuthNoPriv 1, st)"
    "\<forall>load save. (\<exists>u. ab_security b = ConfigAuthNoPriv u load save) \<or> (\<exists>u. ab_security b = ConfigAuthPriv u load save) \<longrightarrow>
      build calls b st = (case initialise_engine_boots load save (engine_id_bytes (ab_engine_id b)) st of
        (r, st') \<Rightarrow> Some (rbind (map_err AgentEngineBoots r) (assemble calls b user (config_level (ab_security b))), st'))"
proof (cases "ab_security b")
  case ConfigNoAuthNoPriv
  then show thesis by (intro that[of None]) (simp_all add: build_def assemble_def config_user_ok_def config_level_def Let_def)
next
  case (ConfigAuthNoPriv u load save)
  then show thesis using config_users(1)[of u load save] assms
    by (intro that[of "Some (usm_user_from_auth_no_priv u)"])
      (auto simp: build_def assemble_def[abs_def] config_level_def Let_def split: prod.splits)
next
  case (ConfigAuthPriv v load save)
  then obtain user where u: "usm_user_from_auth_priv v = Some user" "config_user_ok AuthPriv (Some user)"
    using config_users(2)[of v load save] assms by auto
  then show thesis using ConfigAuthPriv
    by (intro that[of "Some user"]) (auto simp: build_def assemble_def[abs_def] config_level_def Let_def split: prod.splits)
qed

text \<open>An agent whose loop and trap sender share the engine, its boots counter and the user.\<close>

definition agent_ok :: "build_calls \<Rightarrow> 's AgentBuilder \<Rightarrow> UsmUser option \<Rightarrow> SecurityLevel \<Rightarrow> u32 \<Rightarrow> Agent \<Rightarrow> bool" where
  "agent_ok calls b user level boots agent \<longleftrightarrow>
     (\<exists>el. ag_loop agent = Some el
       \<and> event_loop_new (bc_new calls) (bc_loop_start calls) (ab_listen_addr b) (ab_engine_id b) (EngineBoots boots)
           user level (ab_max_connections b) (ab_timeout_config b) = Inr (el, ag_bound_addr agent)
       \<and> el_usm_user el = user \<and> el_minimum_security_level el = level
       \<and> el_engine_id el = ab_engine_id b \<and> el_engine_boots el = EngineBoots boots)
     \<and> trs_usm_user (ag_trap_sender agent) = user \<and> trs_engine_id (ag_trap_sender agent) = ab_engine_id b
     \<and> trs_engine_boots (ag_trap_sender agent) = EngineBoots boots"

lemma assemble_spec:
  assumes "config_user_ok level user"
  shows "assemble calls b user level boots \<noteq> Inl AgentSecurityLevelRequiresUser"
    and "assemble calls b user level boots = Inr agent \<Longrightarrow> agent_ok calls b user level boots agent"
proof -
  have "\<not> security_level_requires_user user level"
    using assms by (auto simp: config_user_ok_def security_level_requires_user_def)
  then have "event_loop_new c now a e eb user level m t \<noteq> Inl SecurityLevelRequiresUser" for c now a e eb m t
    by (auto simp: event_loop_new_def rbind_def map_err_def split: option.splits sum.splits)
  then show "assemble calls b user level boots \<noteq> Inl AgentSecurityLevelRequiresUser"
    by (auto simp: assemble_def rbind_def map_err_def split: sum.splits EventLoopError.splits prod.splits)
  show "agent_ok calls b user level boots agent" if "assemble calls b user level boots = Inr agent"
    using that el_inv_new(4-7) by (fastforce simp: assemble_def agent_ok_def trap_sender_new_def result_Inr_iffs)
qed

lemma build_spec:
  assumes "config_constructed (ab_security b)"
  shows "\<exists>r st'. build calls b st = Some (r, st') \<and> r \<noteq> Inl AgentSecurityLevelRequiresUser
    \<and> (\<forall>agent. r = Inr agent \<longrightarrow> (\<exists>user boots. config_user_ok (config_level (ab_security b)) user
        \<and> 1 \<le> unat boots \<and> unat boots < 2147483648 \<and> agent_ok calls b user (config_level (ab_security b)) boots agent))"
proof -
  let ?l = "config_level (ab_security b)"
  obtain user where ok: "config_user_ok ?l user"
    and no: "ab_security b = ConfigNoAuthNoPriv \<longrightarrow> build calls b st = Some (assemble calls b user NoAuthNoPriv 1, st)"
    and with_store: "\<forall>load save. (\<exists>u. ab_security b = ConfigAuthNoPriv u load save) \<or> (\<exists>u. ab_security b = ConfigAuthPriv u load save) \<longrightarrow>
      build calls b st = (case initialise_engine_boots load save (engine_id_bytes (ab_engine_id b)) st of
        (r, st') \<Rightarrow> Some (rbind (map_err AgentEngineBoots r) (assemble calls b user ?l), st'))"
    by (rule build_cases[OF assms])
  note spec = assemble_spec[OF ok]
  consider (none) "ab_security b = ConfigNoAuthNoPriv"
    | (store) load save where "(\<exists>u. ab_security b = ConfigAuthNoPriv u load save) \<or> (\<exists>u. ab_security b = ConfigAuthPriv u load save)"
    by (cases "ab_security b") auto
  then show ?thesis
  proof cases
    case none
    then have "build calls b st = Some (assemble calls b user ?l 1, st)" using no by (simp add: config_level_def)
    moreover have "1 \<le> unat (1 :: u32)" "unat (1 :: u32) < 2147483648" by simp_all
    ultimately show ?thesis using ok spec by blast
  next
    case store
    obtain r st' where i: "initialise_engine_boots load save (engine_id_bytes (ab_engine_id b)) st = (r, st')" by fastforce
    have eq: "build calls b st = Some (rbind (map_err AgentEngineBoots r) (assemble calls b user ?l), st')"
      using with_store[rule_format, OF store] i by simp
    show ?thesis
    proof (cases r)
      case (Inl e)
      then show ?thesis using eq by simp
    next
      case (Inr boots)
      have "1 \<le> unat boots" "unat boots < 2147483648"
        using init_result_range[OF i[unfolded Inr]]
        by (simp_all add: MAX_ENGINE_BOOTS_def EngineBoots_CEILING_def word_le_nat_alt)
      moreover have "build calls b st = Some (assemble calls b user ?l boots, st')" using eq Inr by simp
      ultimately show ?thesis using ok spec by blast
    qed
  qed
qed

lemma run_shutdown:
  assumes "Shutdown \<in> set (el_rx el)"
  shows "\<exists>s. run_round cr seed (PollReady ((WAKER_TOKEN, now) # events) t) (el, salt) = Some (Exited (Inr ()), s)"
proof -
  obtain exit el' where d: "drain_commands el = (exit, el')" by fastforce
  have "exit" using drain_commands_effect(1)[OF d] assms by simp
  then show ?thesis using d by (simp add: run_round_def LISTENER_TOKEN_def WAKER_TOKEN_def)
qed

section \<open>Properties\<close>

text \<open>C26: Building never panics and never ends in the configuration error, whatever the system calls and
  the boots store answer; an agent that is built enforces the level of its configuration with a
  user of exactly that level (none for the lowest), its loop and its trap sender share the engine
  ID, the user and a boots counter within its legal range, and the loop starts with an empty store
  and no connections.\<close>

theorem built_agents_secure:
  assumes "config_constructed (ab_security b)"
  shows "\<exists>r st'. build calls b st = Some (r, st') \<and> r \<noteq> Inl AgentSecurityLevelRequiresUser
    \<and> (\<forall>agent. r = Inr agent \<longrightarrow> (\<exists>el. ag_loop agent = Some el
         \<and> el_minimum_security_level el = config_level (ab_security b)
         \<and> (el_usm_user el = None \<longleftrightarrow> config_level (ab_security b) = NoAuthNoPriv)
         \<and> (\<forall>user. el_usm_user el = Some user \<longrightarrow> usm_user_wf user \<and> user_security_level user = config_level (ab_security b))
         \<and> 1 \<le> unat (engine_boots_u32 (el_engine_boots el)) \<and> unat (engine_boots_u32 (el_engine_boots el)) < 2 ^ 31
         \<and> trs_usm_user (ag_trap_sender agent) = el_usm_user el \<and> trs_engine_boots (ag_trap_sender agent) = el_engine_boots el
         \<and> trs_engine_id (ag_trap_sender agent) = ab_engine_id b \<and> el_engine_id el = ab_engine_id b
         \<and> el_connections el = [] \<and> el_store el = store_new))"
proof -
  obtain r st' where r: "build calls b st = Some (r, st')" "r \<noteq> Inl AgentSecurityLevelRequiresUser"
    and ok: "\<forall>agent. r = Inr agent \<longrightarrow> (\<exists>user boots. config_user_ok (config_level (ab_security b)) user
        \<and> 1 \<le> unat boots \<and> unat boots < 2147483648 \<and> agent_ok calls b user (config_level (ab_security b)) boots agent)"
    using build_spec[OF assms] by blast
  have "\<exists>el. ag_loop agent = Some el
         \<and> el_minimum_security_level el = config_level (ab_security b)
         \<and> (el_usm_user el = None \<longleftrightarrow> config_level (ab_security b) = NoAuthNoPriv)
         \<and> (\<forall>user. el_usm_user el = Some user \<longrightarrow> usm_user_wf user \<and> user_security_level user = config_level (ab_security b))
         \<and> 1 \<le> unat (engine_boots_u32 (el_engine_boots el)) \<and> unat (engine_boots_u32 (el_engine_boots el)) < 2 ^ 31
         \<and> trs_usm_user (ag_trap_sender agent) = el_usm_user el \<and> trs_engine_boots (ag_trap_sender agent) = el_engine_boots el
         \<and> trs_engine_id (ag_trap_sender agent) = ab_engine_id b \<and> el_engine_id el = ab_engine_id b
         \<and> el_connections el = [] \<and> el_store el = store_new" if "r = Inr agent" for agent
    using ok that el_inv_new(2,3) unfolding agent_ok_def config_user_ok_def by fastforce
  with r show ?thesis by blast
qed

definition sample_builder :: "unit AgentBuilder" where
  "sample_builder =
     \<lparr>ab_listen_addr = SocketAddrV4 0 10161, ab_engine_id = EngineId [0x80, 0, 0x1F, 0x88, 4],
      ab_security = ConfigAuthPriv \<lparr>ap_name = UserName [0x75], ap_auth_protocol = HmacSha256,
          ap_auth_key = SecretKey (replicate 32 0), ap_priv_protocol = Aes128\<rparr>
        (\<lambda>st. (Inr (Some \<lparr>sb_engine_id = [0x80, 0, 0x1F, 0x88, 4], sb_boots = 1\<rparr>), st)) (\<lambda>_ _ st. (Inr (), st)),
      ab_max_connections = 64, ab_timeout_config = timeout_config_default\<rparr>"

definition sample_build_calls :: build_calls where
  "sample_build_calls = \<lparr>bc_new = sample_calls, bc_loop_start = 0, bc_udp_bind = Inr \<lparr>udp_results = [], udp_sent = []\<rparr>,
     bc_trap_start = 1, bc_spawn = Inr ()\<rparr>"

lemma sample_config_constructed: "config_constructed (ab_security sample_builder)"
proof -
  have "auth_priv_user_new (UserName [0x75]) HmacSha256 (SecretKey (replicate 32 0)) Aes128
      = Inr \<lparr>ap_name = UserName [0x75], ap_auth_protocol = HmacSha256, ap_auth_key = SecretKey (replicate 32 0), ap_priv_protocol = Aes128\<rparr>"
    by (simp add: auth_priv_user_new_def validate_auth_key_length_def secret_key_len_def)
  moreover have "user_name_new [0x75] = Inr (UserName [0x75])" by (simp add: user_name_new_def UserName_MAX_LENGTH_def)
  ultimately show ?thesis by (auto simp: config_constructed_def sample_builder_def)
qed

lemma sample_build: "\<exists>agent. build sample_build_calls sample_builder () = Some (Inr agent, ())
    \<and> ag_loop agent = Some ((sample_loop [] [])\<lparr>el_next_token := 2\<rparr>)"
  by (simp add: build_def sample_builder_def sample_build_calls_def initialise_engine_boots_def event_loop_new_def sample_calls_def
      usm_user_from_auth_priv_def slice_get_def security_level_requires_user_def trap_sender_new_def sample_loop_def
      sample_user_def FIRST_CONN_TOKEN_def MAX_ENGINE_BOOTS_def EngineBoots_CEILING_def new_from_exposed_slice_def word_le_nat_alt Let_def)

theorem built_agents_secure_witness:
  "\<exists>agent el. build sample_build_calls sample_builder () = Some (Inr agent, ()) \<and> ag_loop agent = Some el
     \<and> el_minimum_security_level el = AuthPriv"
proof -
  have l: "config_level (ab_security sample_builder) = AuthPriv" by (simp add: config_level_def sample_builder_def)
  obtain agent where "build sample_build_calls sample_builder () = Some (Inr agent, ())" using sample_build by blast
  with built_agents_secure[OF sample_config_constructed, of sample_build_calls "()"] show ?thesis unfolding l by auto
qed

text \<open>C27: A value set through the agent reaches the store: whether or not waking the loop succeeds, once the
  loop has drained its commands the store holds the value, and values of other OIDs are those of
  the commands sent before; the call reports success exactly if the loop is alive and was woken, and
  on an agent whose loop has ended it changes nothing. Dropping the agent likewise makes the loop
  exit at its next wake-up.\<close>

theorem set_values_reach_the_store:
  assumes "ag_loop agent = Some el" "store_wf (el_store el)" "Shutdown \<notin> set (el_rx el)"
    and "agent_set oid value woken agent = (r, agent')"
  shows "(r = Inr () \<longleftrightarrow> woken = Inr ())
    \<and> (\<exists>el'. ag_loop agent' = Some el'
        \<and> store_get (el_store (snd (drain_commands el'))) oid = Some value
        \<and> (\<forall>other. other \<noteq> oid \<longrightarrow> store_get (el_store (snd (drain_commands el'))) other
             = store_get (el_store (snd (drain_commands el))) other))
    \<and> agent_set oid value woken (agent\<lparr>ag_loop := None\<rparr>) = (Inl SetDisconnected, agent\<lparr>ag_loop := None\<rparr>)
    \<and> (\<exists>el'. ag_loop (agent_drop woken agent') = Some el'
        \<and> (\<exists>s. run_round cr seed (PollReady ((WAKER_TOKEN, now) # events) t) (el', salt) = Some (Exited (Inr ()), s)))"
proof -
  let ?el = "el\<lparr>el_rx := el_rx el @ [SetValue oid value]\<rparr>"
  have r: "r = map_err (\<lambda>_. SetDisconnected) (rbind woken (\<lambda>_. Inr ()))" "ag_loop agent' = Some ?el"
    using assms(1,4) by (auto simp: agent_set_def command_sender_send_def)
  have sets: "set_commands (cmds @ [SetValue oid value]) = set_commands cmds @ [(oid, value)]" if "Shutdown \<notin> set cmds" for cmds
    using that by (induction cmds rule: set_commands.induct) auto
  have st: "el_store (snd (drain_commands ?el))
      = store_set oid value (el_store (snd (drain_commands el)))" and wf: "store_wf (el_store (snd (drain_commands el)))"
    using assms(2) by (simp_all add: drain_commands_def drain_queue_eq sets[OF assms(3)] store_wf_fold)
  have "\<exists>el'. ag_loop (agent_drop woken agent') = Some el' \<and> Shutdown \<in> set (el_rx el')"
    by (simp add: agent_drop_def command_sender_send_def r(2))
  then have "\<exists>el'. ag_loop (agent_drop woken agent') = Some el'
        \<and> (\<exists>s. run_round cr seed (PollReady ((WAKER_TOKEN, now) # events) t) (el', salt) = Some (Exited (Inr ()), s))"
    using run_shutdown by blast
  moreover have "agent_set oid value woken (agent\<lparr>ag_loop := None\<rparr>) = (Inl SetDisconnected, agent\<lparr>ag_loop := None\<rparr>)"
    by (simp add: agent_set_def command_sender_send_def)
  moreover have "r = Inr () \<longleftrightarrow> woken = Inr ()" using r(1) by (cases woken) auto
  ultimately show ?thesis using r(2) by (simp add: st mib.get_set[OF wf])
qed

theorem set_values_reach_the_store_witness:
  "\<exists>agent el'. agent_set SYS_UP_TIME_OID (Integer32 5) (Inl IoFault)
       \<lparr>ag_loop = Some (sample_loop [] []), ag_trap_sender = sample_sender, ag_socket = \<lparr>udp_results = [], udp_sent = []\<rparr>,
        ag_bound_addr = SocketAddrV4 0 10161\<rparr> = (Inl SetDisconnected, agent)
     \<and> ag_loop agent = Some el' \<and> store_get (el_store (snd (drain_commands el'))) SYS_UP_TIME_OID = Some (Integer32 5)"
proof -
  let ?agent = "\<lparr>ag_loop = Some (sample_loop [] []), ag_trap_sender = sample_sender,
      ag_socket = \<lparr>udp_results = [], udp_sent = []\<rparr>, ag_bound_addr = SocketAddrV4 0 10161\<rparr>"
  obtain r agent' where s: "agent_set SYS_UP_TIME_OID (Integer32 5) (Inl IoFault) ?agent = (r, agent')" by fastforce
  have "ag_loop ?agent = Some (sample_loop [] [])" "store_wf (el_store (sample_loop [] []))" "Shutdown \<notin> set (el_rx (sample_loop [] []))"
    using sample_loop_inv[of "[]"] by (simp_all add: el_inv_def sample_loop_def)
  note v = set_values_reach_the_store[OF this s]
  have "r = Inl SetDisconnected" using v by (metis Inl_Inr_False SetError.exhaust old.unit.exhaust sumE)
  then show ?thesis using v s by blast
qed

end
