(* ===== verification/Security.thy ===== *)
theory Security
  imports Agent
begin

text \<open>
  Security of the agent as a whole, across \<open>lib.rs\<close>, \<open>usm/boots.rs\<close>, \<open>transport/event_loop.rs\<close> and
  \<open>transport/dispatch.rs\<close>: how long a captured request can be replayed, in one run and over any
  history of restarts, and what a peer without the key learns of the MIB.
\<close>

section \<open>Replays\<close>

text \<open>What two acceptances of one frame have in common.\<close>

lemma served_twice:
  assumes "di_usm_user (ctx_inputs ctx1) = Some user1" "usm_auth_credentials user1 = Some cred1"
    and "di_usm_user (ctx_inputs ctx2) = Some user2" "usm_auth_credentials user2 = Some cred2"
    and "run_validation_pipeline cr seed1 mib1 frame (ctx1, salt1) = (Inr response1, s1)"
    and "run_validation_pipeline cr seed2 mib2 frame (ctx2, salt2) = (Inr response2, s2)"
  shows "di_engine_boots (ctx_inputs ctx1) = di_engine_boots (ctx_inputs ctx2)"
    and "\<bar>int (unat (engine_time_u32 (di_engine_time (ctx_inputs ctx1))))
        - int (unat (engine_time_u32 (di_engine_time (ctx_inputs ctx2))))\<bar> \<le> 300"
proof -
  obtain msg where d: "decode_v3_message frame = Inr msg"
    and w1: "is_in_time_window (EngineBoots (usf_auth_engine_boots (v3_usm msg)))
      (EngineTime (usf_auth_engine_time (v3_usm msg))) (di_engine_boots (ctx_inputs ctx1)) (di_engine_time (ctx_inputs ctx1))"
    by (rule served_checks[OF assms(1,2,5)])
  obtain msg' where d': "decode_v3_message frame = Inr msg'"
    and w2: "is_in_time_window (EngineBoots (usf_auth_engine_boots (v3_usm msg')))
      (EngineTime (usf_auth_engine_time (v3_usm msg'))) (di_engine_boots (ctx_inputs ctx2)) (di_engine_time (ctx_inputs ctx2))"
    by (rule served_checks[OF assms(3,4,6)])
  have "msg' = msg" using d d' by simp
  with w1 w2 show "di_engine_boots (ctx_inputs ctx1) = di_engine_boots (ctx_inputs ctx2)"
    "\<bar>int (unat (engine_time_u32 (di_engine_time (ctx_inputs ctx1))))
        - int (unat (engine_time_u32 (di_engine_time (ctx_inputs ctx2))))\<bar> \<le> 300"
    by (simp_all add: is_in_time_window_def Let_def split: if_splits)
qed

text \<open>A configuration that keeps its boots in the file at a path, with any fault of the file system.\<close>

definition file_backed :: "fs_path \<Rightarrow> files SecurityConfig \<Rightarrow> bool" where
  "file_backed path c \<longleftrightarrow> (\<exists>rf sf.
     (\<exists>u. c = ConfigAuthNoPriv u (file_load rf path) (file_save sf path))
     \<or> (\<exists>u. c = ConfigAuthPriv u (file_load rf path) (file_save sf path)))"

lemma file_backed_build:
  assumes "config_constructed (ab_security b)" "file_backed path (ab_security b)"
    and "build calls b fs = Some (Inr agent, fs')"
  obtains rf sf boots user cred el where
    "initialise_engine_boots (file_load rf path) (file_save sf path) (engine_id_bytes (ab_engine_id b)) fs = (Inr boots, fs')"
    "usm_auth_credentials user = Some cred" "ag_loop agent = Some el"
    "event_loop_new (bc_new calls) (bc_loop_start calls) (ab_listen_addr b) (ab_engine_id b) (EngineBoots boots)
       (Some user) (config_level (ab_security b)) (ab_max_connections b) (ab_timeout_config b) = Inr (el, ag_bound_addr agent)"
proof -
  let ?l = "config_level (ab_security b)"
  obtain user where ok: "config_user_ok ?l user"
    and with_store: "\<forall>load save. (\<exists>u. ab_security b = ConfigAuthNoPriv u load save) \<or> (\<exists>u. ab_security b = ConfigAuthPriv u load save) \<longrightarrow>
      build calls b fs = (case initialise_engine_boots load save (engine_id_bytes (ab_engine_id b)) fs of
        (r, st') \<Rightarrow> Some (rbind (map_err AgentEngineBoots r) (assemble calls b user ?l), st'))"
    by (rule build_cases[OF assms(1), of calls fs])
  obtain rf sf where c: "(\<exists>u. ab_security b = ConfigAuthNoPriv u (file_load rf path) (file_save sf path))
      \<or> (\<exists>u. ab_security b = ConfigAuthPriv u (file_load rf path) (file_save sf path))"
    using assms(2) by (auto simp: file_backed_def)
  obtain r fs2 where i: "initialise_engine_boots (file_load rf path) (file_save sf path) (engine_id_bytes (ab_engine_id b)) fs = (r, fs2)"
    by fastforce
  have "rbind (map_err AgentEngineBoots r) (assemble calls b user ?l) = Inr agent" "fs2 = fs'"
    using with_store[rule_format, OF c] assms(3) i by simp_all
  then obtain boots where a: "r = Inr boots" "fs2 = fs'" "assemble calls b user ?l boots = Inr agent" by (cases r) auto
  have l: "?l \<noteq> NoAuthNoPriv" using c by (auto simp: config_level_def)
  then obtain u where u: "user = Some u" "usm_user_wf u" "user_security_level u \<noteq> NoAuthNoPriv"
    using ok by (cases user) (auto simp: config_user_ok_def)
  obtain cred where "usm_auth_credentials u = Some cred"
    using u(3) by (auto simp: user_security_level_def split: option.splits)
  then show thesis using that i a u(1) assemble_spec(2)[OF ok a(3)] by (auto simp: agent_ok_def)
qed

lemma reachable_context:
  assumes "event_loop_new calls now addr engine_id boots user level max_connections config = Inr (el, bound_addr)"
    and "(el_step cr seed)\<^sup>*\<^sup>* (el, salt) (el', salt')" "max_connections \<le> usize_limit - FIRST_CONN_TOKEN"
  shows "di_usm_user (dispatch_inputs (el_engine_boots el') time el') = user"
    and "di_engine_boots (dispatch_inputs (el_engine_boots el') time el') = boots"
proof -
  note n = el_inv_new[OF assms(1)]
  have "el_config el' = el_config el" using reachable_inv[OF assms(2)] n(1,8) assms(3) by simp
  then have "el_usm_user el' = user" "el_engine_boots el' = boots" using n by (simp_all add: el_config_def)
  then show "di_usm_user (dispatch_inputs (el_engine_boots el') time el') = user"
    "di_engine_boots (dispatch_inputs (el_engine_boots el') time el') = boots"
    by (simp_all add: dispatch_inputs_def)
qed

text \<open>C8: A request can be replayed only briefly and never across a restart. Let an agent that keeps its boots
  in a file answer a frame. If the same run answers it again, at whatever state of its loop, the two
  engine times differ by at most 300 seconds. After any number of further start-ups, failed ones and
  ones with faulty storage included, a later agent of the same engine rejects the frame whatever its
  user, clock and MIB.\<close>

theorem replay_bounded:
  assumes "config_constructed (ab_security b1)" "file_backed path (ab_security b1)" "path_extension path \<noteq> Some ''tmp''"
    and "ab_max_connections b1 \<le> usize_limit - FIRST_CONN_TOKEN" "length (engine_id_bytes (ab_engine_id b1)) \<le> 32"
    and "build calls1 b1 fs = Some (Inr agent1, fs1)" "ag_loop agent1 = Some el1"
    and "(el_step cr seed1)\<^sup>*\<^sup>* (el1, salt1) (el1', salt1')"
    and "run_validation_pipeline cr seed1 mib1 frame (DispatchContext (dispatch_inputs (el_engine_boots el1') t1 el1'), s1)
      = (Inr response1, s1')"
  shows "((el_step cr seed1)\<^sup>*\<^sup>* (el1, salt1) (el2', salt2')
      \<and> run_validation_pipeline cr seed1 mib2 frame (DispatchContext (dispatch_inputs (el_engine_boots el2') t2 el2'), s2)
          = (Inr response2, s2') \<longrightarrow> \<bar>int (unat (engine_time_u32 t1)) - int (unat (engine_time_u32 t2))\<bar> \<le> 300)
    \<and> (config_constructed (ab_security b3) \<and> file_backed path (ab_security b3) \<and> ab_engine_id b3 = ab_engine_id b1
      \<and> ab_max_connections b3 \<le> usize_limit - FIRST_CONN_TOKEN
      \<and> (start_up path (engine_id_bytes (ab_engine_id b1)))\<^sup>*\<^sup>* fs1 fs2
      \<and> build calls3 b3 fs2 = Some (Inr agent3, fs3) \<and> ag_loop agent3 = Some el3
      \<and> (el_step cr seed3)\<^sup>*\<^sup>* (el3, salt3) (el3', salt3') \<longrightarrow>
        run_validation_pipeline cr seed3 mib3 frame (DispatchContext (dispatch_inputs (el_engine_boots el3') t3 el3'), s3)
          \<noteq> (Inr response3, s3'))"
proof -
  let ?e = "engine_id_bytes (ab_engine_id b1)"
  obtain rf sf boots user cred where i: "initialise_engine_boots (file_load rf path) (file_save sf path) ?e fs = (Inr boots, fs1)"
    and u: "usm_auth_credentials user = Some cred"
    and n: "event_loop_new (bc_new calls1) (bc_loop_start calls1) (ab_listen_addr b1) (ab_engine_id b1) (EngineBoots boots)
       (Some user) (config_level (ab_security b1)) (ab_max_connections b1) (ab_timeout_config b1) = Inr (el1, ag_bound_addr agent1)"
    by (rule file_backed_build[OF assms(1,2,6)]) (use assms(7) in auto)
  note c1 = reachable_context[OF n assms(8,4)]
  have "\<bar>int (unat (engine_time_u32 t1)) - int (unat (engine_time_u32 t2))\<bar> \<le> 300"
    if r: "(el_step cr seed1)\<^sup>*\<^sup>* (el1, salt1) (el2', salt2')"
      and s: "run_validation_pipeline cr seed1 mib2 frame (DispatchContext (dispatch_inputs (el_engine_boots el2') t2 el2'), s2)
          = (Inr response2, s2')"
    using served_twice(2)[OF _ u _ u assms(9) s] c1 reachable_context[OF n r assms(4)] by (simp add: dispatch_inputs_def)
  moreover have False
    if b3: "config_constructed (ab_security b3)" "file_backed path (ab_security b3)" "ab_engine_id b3 = ab_engine_id b1"
      "ab_max_connections b3 \<le> usize_limit - FIRST_CONN_TOKEN" "(start_up path ?e)\<^sup>*\<^sup>* fs1 fs2"
      "build calls3 b3 fs2 = Some (Inr agent3, fs3)" "ag_loop agent3 = Some el3"
      "(el_step cr seed3)\<^sup>*\<^sup>* (el3, salt3) (el3', salt3')"
      and s: "run_validation_pipeline cr seed3 mib3 frame (DispatchContext (dispatch_inputs (el_engine_boots el3') t3 el3'), s3)
          = (Inr response3, s3')"
  proof -
    obtain rf3 sf3 boots3 user3 cred3
      where i3: "initialise_engine_boots (file_load rf3 path) (file_save sf3 path) ?e fs2 = (Inr boots3, fs3)"
      and u3: "usm_auth_credentials user3 = Some cred3"
      and n3: "event_loop_new (bc_new calls3) (bc_loop_start calls3) (ab_listen_addr b3) (ab_engine_id b3) (EngineBoots boots3)
       (Some user3) (config_level (ab_security b3)) (ab_max_connections b3) (ab_timeout_config b3) = Inr (el3, ag_bound_addr agent3)"
      by (rule file_backed_build[OF b3(1,2,6)]) (use b3(3,7) in auto)
    note c3 = reachable_context[OF n3 b3(8,4)]
    have "EngineBoots boots = EngineBoots boots3" using served_twice(1)[OF _ u _ u3 assms(9) s] c1 c3 by simp
    moreover have "boots < boots3"
      using start_up_exceeds[OF boots_history.reachable_keeps[OF b3(5) start_up_keeps[OF assms(3,5) i]] i3] .
    ultimately show False by simp
  qed
  ultimately show ?thesis by blast
qed

text \<open>An agent with its boots in a file.\<close>

definition sample_path :: fs_path where
  "sample_path = \<lparr>path_parent = [], path_stem = ''boots'', path_extension = None\<rparr>"

definition filed_builder :: "files AgentBuilder" where
  "filed_builder =
     \<lparr>ab_listen_addr = SocketAddrV4 0 10161, ab_engine_id = EngineId [0x80, 0, 0x1F, 0x88, 4],
      ab_security = ConfigAuthPriv \<lparr>ap_name = UserName [0x75], ap_auth_protocol = HmacSha256,
          ap_auth_key = SecretKey (replicate 32 0), ap_priv_protocol = Aes128\<rparr>
        (file_load None sample_path) (file_save None sample_path),
      ab_max_connections = 64, ab_timeout_config = timeout_config_default\<rparr>"

lemma filed_config: "config_constructed (ab_security filed_builder)" "file_backed sample_path (ab_security filed_builder)"
  using sample_config_constructed by (auto simp: config_constructed_def filed_builder_def sample_builder_def file_backed_def)

lemma filed_build:
  assumes "fs sample_path = Some (boots_record [0x80, 0, 0x1F, 0x88, 4] k)" "k < MAX_ENGINE_BOOTS"
  obtains agent fs' where "build sample_build_calls filed_builder fs = Some (Inr agent, fs')"
    "ag_loop agent = Some ((sample_loop [] [])\<lparr>el_next_token := 2, el_engine_boots := EngineBoots (k + 1)\<rparr>)"
    "fs' sample_path = Some (boots_record [0x80, 0, 0x1F, 0x88, 4] (k + 1))"
proof -
  have "file_load None sample_path fs = (Inr (Some \<lparr>sb_engine_id = [0x80, 0, 0x1F, 0x88, 4], sb_boots = k\<rparr>), fs)"
    using assms(1) by (simp add: file_load_def parse_boots_record)
  moreover obtain fs' where "file_save None sample_path [0x80, 0, 0x1F, 0x88, 4] (k + 1) fs = (Inr (), fs')"
    "fs' sample_path = Some (boots_record [0x80, 0, 0x1F, 0x88, 4] (k + 1))"
    by (simp add: file_save_def Let_def)
  ultimately show thesis using assms(2) that
    by (simp add: build_def filed_builder_def sample_build_calls_def initialise_engine_boots_def event_loop_new_def sample_calls_def
      usm_user_from_auth_priv_def slice_get_def security_level_requires_user_def trap_sender_new_def sample_loop_def
      sample_user_def FIRST_CONN_TOKEN_def new_from_exposed_slice_def not_le Let_def)
qed

theorem replay_bounded_witness:
  "\<exists>fs agent1 fs1 el1 agent2 fs2 el2 frame response s. build sample_build_calls filed_builder fs = Some (Inr agent1, fs1)
     \<and> ag_loop agent1 = Some el1 \<and> build sample_build_calls filed_builder fs1 = Some (Inr agent2, fs2) \<and> ag_loop agent2 = Some el2
     \<and> run_validation_pipeline checksum_crypto 1 store_new frame
         (DispatchContext (dispatch_inputs (el_engine_boots el1) (EngineTime 30) el1), None) = (Inr response, s)
     \<and> (\<forall>t response' s'. run_validation_pipeline checksum_crypto 1 store_new frame
         (DispatchContext (dispatch_inputs (el_engine_boots el2) t el2), None) \<noteq> (Inr response', s'))"
proof -
  let ?e = "[0x80, 0, 0x1F, 0x88, 4] :: bytes" let ?fs = "Map.empty(sample_path \<mapsto> boots_record ?e 1) :: files"
  let ?el = "\<lambda>k. (sample_loop [] [])\<lparr>el_next_token := 2, el_engine_boots := EngineBoots k\<rparr>"
  have k: "(1 :: u32) < MAX_ENGINE_BOOTS" "(2 :: u32) < MAX_ENGINE_BOOTS"
    by (simp_all add: MAX_ENGINE_BOOTS_def EngineBoots_CEILING_def)
  obtain agent1 fs1 where b1: "build sample_build_calls filed_builder ?fs = Some (Inr agent1, fs1)" "ag_loop agent1 = Some (?el 2)"
    "fs1 sample_path = Some (boots_record ?e 2)"
    by (rule filed_build[of ?fs 1]) (use k in \<open>simp_all\<close>)
  obtain agent2 fs2 where b2: "build sample_build_calls filed_builder fs1 = Some (Inr agent2, fs2)" "ag_loop agent2 = Some (?el 3)"
    by (rule filed_build[of fs1 2]) (use k b1(3) in \<open>simp_all\<close>)
  have i: "DispatchContext (dispatch_inputs (el_engine_boots (?el 2)) (EngineTime 30) (?el 2)) = sample_context"
    by (simp add: dispatch_inputs_def sample_loop_def sample_context_def)
  obtain frame st' where f: "encode_v3_envelope checksum_crypto 1 (MessageId 7) ?e [0x75] [] 2 100
       (auth_credentials_of (Some sample_user)) (priv_credentials_of (Some sample_user)) sample_request None = (Inr frame, st')"
    by (rule sample_frame)
  obtain response s where run: "run_validation_pipeline checksum_crypto 1 store_new frame
      (DispatchContext (dispatch_inputs (el_engine_boots (?el 2)) (EngineTime 30) (?el 2)), None) = (Inr response, s)"
    using sample_frame_served[OF f] unfolding i by blast
  have c: "ab_max_connections filed_builder \<le> usize_limit - FIRST_CONN_TOKEN" "length (engine_id_bytes (ab_engine_id filed_builder)) \<le> 32"
    "path_extension sample_path \<noteq> Some ''tmp''"
    by (simp_all add: filed_builder_def FIRST_CONN_TOKEN_def sample_path_def)
  have "run_validation_pipeline checksum_crypto 1 store_new frame
      (DispatchContext (dispatch_inputs (el_engine_boots (?el 3)) t (?el 3)), None) \<noteq> (Inr response', s')" for t response' s'
    using replay_bounded[where ?b3.0 = filed_builder and ?fs2.0 = fs1 and ?agent3.0 = agent2 and ?el3.0 = "?el 3" and ?el3' = "?el 3",
        OF filed_config c(3,1,2) b1(1,2) rtranclp.rtrancl_refl run] filed_config c(1) b2 by blast
  with b1(1,2) b2 run show ?thesis by blast
qed

section \<open>Confidentiality of the MIB\<close>

text \<open>A frame whose MAC does not verify under the user's key.\<close>

definition unauthentic :: "crypto \<Rightarrow> UsmUser option \<Rightarrow> bytes \<Rightarrow> bool" where
  "unauthentic cr user frame \<longleftrightarrow> (\<exists>p k. auth_credentials_of user = Some (p, k)
     \<and> (\<forall>msg. decode_v3_message frame = Inr msg \<longrightarrow> \<not> verify_hmac cr p k (received_mac msg)))"

lemma first_row_exists: "\<exists>r \<in> set rows. fst r \<Longrightarrow> \<exists>row. first_row rows = Some row"
  by (induction rows) force+

lemma unauthentic_pipeline:
  assumes "unauthentic cr (di_usm_user (ctx_inputs ctx)) frame"
  shows "run_validation_pipeline cr seed mib frame (ctx, salt) = run_validation_pipeline cr seed mib' frame (ctx, salt)"
proof (cases "decode_v3_message frame")
  case (Inl e)
  then show ?thesis by (simp add: run_validation_pipeline_def)
next
  case (Inr msg)
  obtain p k where c: "auth_credentials_of (di_usm_user (ctx_inputs ctx)) = Some (p, k)" "\<not> verify_hmac cr p k (received_mac msg)"
    using assms Inr by (auto simp: unauthentic_def)
  have "\<exists>r \<in> set (rejection_rows cr (ctx_inputs ctx) msg). fst r" using c by (simp add: rejection_rows_def early_rows_def)
  then obtain row where "first_row (rejection_rows cr (ctx_inputs ctx) msg) = Some row" using first_row_exists by blast
  then show ?thesis by (simp add: pipeline_rows[OF Inr])
qed

text \<open>The loop with another MIB.\<close>

abbreviation with_store :: "Store \<Rightarrow> EventLoop \<Rightarrow> EventLoop" where
  "with_store mib el \<equiv> el\<lparr>el_store := mib\<rparr>"

lemma with_store_simps [simp]:
  "dispatch_inputs b t (with_store mib el) = dispatch_inputs b t el"
  "store_counters i (with_store mib el) = with_store mib (store_counters i el)"
  "put_connection token conn (with_store mib el) = with_store mib (put_connection token conn el)"
  "close_and_deregister_connection token (with_store mib el) = with_store mib (close_and_deregister_connection token el)"
  "engine_time_seconds now (with_store mib el) = engine_time_seconds now el"
  by (simp_all add: dispatch_inputs_def store_counters_def put_connection_def close_and_deregister_connection_def
      engine_time_seconds_def)

lemma unauthentic_dispatch:
  assumes "unauthentic cr (el_usm_user el) frame" "dispatch_frame cr seed b t frame (el, salt) = (r, el', salt')"
  shows "dispatch_frame cr seed b t frame (with_store mib el, salt) = (r, with_store mib el', salt')"
proof -
  have "unauthentic cr (di_usm_user (ctx_inputs (DispatchContext (dispatch_inputs b t el)))) frame"
    using assms(1) by (simp add: dispatch_inputs_def)
  from unauthentic_pipeline[OF this, of seed mib salt "el_store el"] assms(2) show ?thesis
    by (auto simp: dispatch_frame_def dispatch_snmpv3_frame_def process_snmpv3_request_def dispatch_context_new_unchecked_def
        Let_def split: prod.splits)
qed

lemma dispatch_frame_user:
  "dispatch_frame cr seed b t frame (el, salt) = (r, el', salt') \<Longrightarrow> el_usm_user el' = el_usm_user el"
  by (auto simp: dispatch_frame_def store_counters_def Let_def split: prod.splits)

lemma unauthentic_serve:
  assumes "\<forall>frame \<in> set frames. unauthentic cr (el_usm_user el) frame"
    and "serve_frames cr seed b t frames stream (el, salt) = (ok, left, stream', el', salt')"
  shows "serve_frames cr seed b t frames stream (with_store mib el, salt) = (ok, left, stream', with_store mib el', salt')"
  using assms
proof (induction frames arbitrary: stream el salt)
  case (Cons frame frames)
  obtain r el1 salt1 where d: "dispatch_frame cr seed b t frame (el, salt) = (r, el1, salt1)" by (metis prod_cases3)
  have d': "dispatch_frame cr seed b t frame (with_store mib el, salt) = (r, with_store mib el1, salt1)"
    using unauthentic_dispatch[OF _ d] Cons.prems(1) by simp
  have u: "\<forall>frame \<in> set frames. unauthentic cr (el_usm_user el1) frame" using Cons.prems(1) dispatch_frame_user[OF d] by simp
  show ?case
  proof (cases r)
    case None
    then show ?thesis using Cons.IH[OF u] Cons.prems(2) d d' by simp
  next
    case (Some response)
    obtain sent stream1 where "write_all response stream = (sent, stream1)" by fastforce
    then show ?thesis using Some Cons.IH[OF u] Cons.prems(2) d d' by (cases sent) simp_all
  qed
qed simp

text \<open>The discovery probe carries no MAC.\<close>

lemma probe_unsigned: "decode_v3_message probe_frame = Inr msg \<Longrightarrow> \<not> verify_hmac cr p k (received_mac msg)"
proof -
  assume d: "decode_v3_message probe_frame = Inr msg"
  obtain msg' where m: "decode_v3_message probe_frame = Inr msg'" "usf_auth_params (v3_usm msg') = None" by (rule probe_decodes)
  then have "hi_auth_params (received_mac msg) = []" using d by (simp add: received_mac_def)
  moreover have "mac_len p \<noteq> 0" using mac_len_bounds[of p] by simp
  ultimately show ?thesis by (auto simp: verify_hmac_def verify_mac_def Let_def split: option.splits sum.splits if_splits)
qed

lemma probe_length: "length probe_frame < 1000"
  using length_encoded_v3_le length_scoped_body_le[of "[]" "[]" sample_request] sample_request_facts(2)
  unfolding probe_frame_def by (fastforce intro: le_less_trans)

text \<open>C9: Who does not hold the key learns nothing of the MIB: when none of the frames that arrive on a connection
  carries a MAC that verifies, the whole effect of handling them is the same for every content of the
  MIB, in particular the bytes sent back, the statistics and whether the connection is closed; only
  the MIB itself differs, and it stays as it was.\<close>

theorem forgers_learn_nothing:
  assumes "map_of (el_connections el) token = Some conn"
    and "read_available (ts_reads (conn_stream conn)) conn = (ended, conn1)"
    and "\<forall>frame \<in> set (fst (split_frames (conn_read_buf conn1))). unauthentic cr (el_usm_user el) frame"
    and "handle_connection_event cr seed token now (el, salt) = (el', salt')"
  shows "handle_connection_event cr seed token now (el\<lparr>el_store := mib\<rparr>, salt) = (el'\<lparr>el_store := mib\<rparr>, salt')
    \<and> el_store el' = el_store el"
proof -
  obtain frames stop rest where s: "split_frames (conn_read_buf conn1) = (frames, stop, rest)" by (metis prod_cases3)
  obtain ok left stream el1 salt1 where f: "serve_frames cr seed (el_engine_boots el) (engine_time_seconds now el) frames
      (conn_stream conn1) (el, salt) = (ok, left, stream, el1, salt1)" by (metis prod_cases5)
  have f': "serve_frames cr seed (el_engine_boots (with_store mib el)) (engine_time_seconds now (with_store mib el)) frames
      (conn_stream conn1) (with_store mib el, salt) = (ok, left, stream, with_store mib el1, salt1)"
    using unauthentic_serve[OF _ f, of mib] assms(3) s by simp
  have m: "map_of (el_connections (with_store mib el)) token = Some conn" using assms(1) by simp
  obtain el2 salt2 where h: "handle_connection_event cr seed token now (with_store mib el, salt) = (el2, salt2)" by fastforce
  note e = handle_event_serve[OF assms(1,2) s f assms(4)] handle_event_serve[OF m assms(2) s f' h]
  then have "el2 = with_store mib el'" "salt2 = salt'" by simp_all
  moreover have "el_store el' = el_store el" using e(1) by blast
  ultimately show ?thesis using h by simp
qed

theorem forgers_learn_nothing_witness:
  "\<exists>el' salt'. handle_connection_event checksum_crypto 1 2 0
      ((sample_loop [(2, \<lparr>conn_stream = sample_stream [ReadOk probe_frame 0], conn_read_buf = [], conn_last_activity = 0\<rparr>)] [])
        \<lparr>el_store := store_set SYS_UP_TIME_OID (Integer32 7) store_new\<rparr>, None)
      = (el'\<lparr>el_store := store_set SYS_UP_TIME_OID (Integer32 7) store_new\<rparr>, salt')
    \<and> handle_connection_event checksum_crypto 1 2 0
      (sample_loop [(2, \<lparr>conn_stream = sample_stream [ReadOk probe_frame 0], conn_read_buf = [], conn_last_activity = 0\<rparr>)] [], None)
      = (el', salt')"
proof -
  let ?conn = "\<lparr>conn_stream = sample_stream [ReadOk probe_frame 0], conn_read_buf = [], conn_last_activity = 0\<rparr>"
  let ?el = "sample_loop [(2, ?conn)] []"
  have m: "map_of (el_connections ?el) 2 = Some ?conn" and u: "el_usm_user ?el = Some sample_user" by (simp_all add: sample_loop_def)
  obtain ended conn1 where r: "read_available (ts_reads (conn_stream ?conn)) ?conn = (ended, conn1)" by fastforce
  have ne: "probe_frame \<noteq> []" by (simp add: probe_frame_def encoded_v3_def tlv_def)
  then have b: "conn_read_buf conn1 = probe_frame" using r by (auto simp: sample_stream_def)
  have l: "length probe_frame \<le> MAX_FRAME_SIZE" using probe_length by (simp add: MAX_FRAME_SIZE_def)
  have s: "fst (split_frames probe_frame) = [probe_frame]"
    using split_frames_single l by (simp add: probe_frame_def encoded_v3_def)
  have "\<forall>frame \<in> set (fst (split_frames (conn_read_buf conn1))). unauthentic checksum_crypto (el_usm_user ?el) frame"
    using probe_unsigned by (simp add: b s u unauthentic_def sample_context_facts(8))
  note v = forgers_learn_nothing[OF m r this]
  obtain el' salt' where h: "handle_connection_event checksum_crypto 1 2 0 (?el, None) = (el', salt')" by fastforce
  from v[OF h] h show ?thesis by blast
qed

end
