(* ===== verification/Robustness.thy ===== *)
theory Robustness
  imports Codec
begin

text \<open>
  Every decoder of the codec, from the primitive values of \<open>codec/ber.rs\<close> to whole messages in
  \<open>codec/pdu/decode.rs\<close>, returns on every input without reaching a panic.
\<close>

section \<open>Panics\<close>

text \<open>The cursor of every reader the decoders create stays within its input, so that the one
  operation that could panic never does.\<close>

named_theorems panic_free_intros \<open>decoders that never panic\<close>

definition panic_free :: "BerError + 'a \<Rightarrow> bool" where
  "panic_free x \<longleftrightarrow> x \<noteq> Inl BerPanic"

definition in_range :: "BerReader \<Rightarrow> bool" where
  "in_range r \<longleftrightarrow> rd_position r \<le> length (rd_input r)"

lemma panic_free_simps [simp]: "panic_free (Inr a)" "panic_free (Inl e) \<longleftrightarrow> e \<noteq> BerPanic"
  "panic_free (ok_or x e) \<longleftrightarrow> x \<noteq> None \<or> e \<noteq> BerPanic"
  by (auto simp: panic_free_def ok_or_def split: option.splits)

lemma panic_free_rbind [panic_free_intros]:
  assumes "panic_free x" "\<And>a. x = Inr a \<Longrightarrow> panic_free (f a)"
  shows "panic_free (rbind x f)"
  using assms by (cases x) (auto simp: panic_free_def)

lemma in_range_new [simp]: "in_range (reader_new m)" "in_range (reader_new_with_offset m o1)"
  by (simp_all add: in_range_def reader_new_def reader_new_with_offset_def)

lemma in_range_remaining [simp]: "in_range r \<Longrightarrow> \<exists>y. remaining r = Some y"
  by (simp add: in_range_def remaining_def slice_get_def)

context reader_op
begin

lemma in_range_preserved: "read r = Inr (x, r') \<Longrightarrow> in_range r'"
  using progress[of r x r'] by (auto simp: in_range_def advance_def)

end

lemma panic_free_decode_unsigned [panic_free_intros]: "panic_free (decode_unsigned n bs o1)"
  by (simp add: decode_unsigned_def Let_def split: list.splits)

lemma panic_free_decode_signed [panic_free_intros]: "panic_free (decode_signed_i32 bs o1)"
  by (simp add: decode_signed_i32_def Let_def)

lemma panic_free_numbers [panic_free_intros]:
  "panic_free (decode_unsigned_u32 bs o1)" "panic_free (decode_unsigned_u64 bs o1)"
  by (auto simp: decode_unsigned_u32_def decode_unsigned_u64_def intro!: panic_free_intros)

lemma panic_free_base128 [panic_free_intros]: "panic_free (decode_base128 bs o1)"
proof -
  have "panic_free (decode_base128_loop bs o1 acc n)" for acc n
    by (induction bs o1 acc n rule: decode_base128_loop.induct) (auto intro!: panic_free_intros)
  then show ?thesis by (simp add: decode_base128_def)
qed

lemma panic_free_sub_identifiers [panic_free_intros]: "panic_free (decode_sub_identifiers bs o1)"
proof (induction bs o1 rule: decode_sub_identifiers.induct)
  case (1 bs o1)
  then show ?case
    by (subst decode_sub_identifiers.simps) (auto intro!: panic_free_intros split: prod.splits)
qed

lemma panic_free_rcollect [panic_free_intros]: "(\<And>x. panic_free (f x)) \<Longrightarrow> panic_free (rcollect f xs)"
  by (induction xs) (auto intro!: panic_free_intros)

lemma panic_free_map_err [panic_free_intros]: "(\<And>e. f e \<noteq> BerPanic) \<Longrightarrow> panic_free (map_err f x)"
  by (cases x) simp_all

lemma panic_free_decode_oid [panic_free_intros]: "panic_free (decode_oid bs o1)"
  by (auto simp: decode_oid_def Let_def intro!: panic_free_intros split: list.splits prod.splits)

lemma panic_free_peek [panic_free_intros]: "panic_free (peek_tag r)"
  by (simp add: peek_tag_def)

lemma panic_free_read_tlv [panic_free_intros]: "panic_free (read_tlv r)"
  by (auto simp: read_tlv_def read_tag_def read_length_def read_long_form_length_def Let_def
      intro!: panic_free_intros split: prod.splits)

lemma panic_free_expected [panic_free_intros]: "panic_free (read_expected_tlv tag name r)" "panic_free (read_constructed tag r)"
  by (auto simp: read_expected_tlv_def read_constructed_def Let_def intro!: panic_free_intros split: prod.splits)

lemma panic_free_fields [panic_free_intros]:
  "panic_free (read_sequence r)" "panic_free (read_integer r)" "panic_free (read_octet_string r)"
  "panic_free (read_null r)" "panic_free (read_oid r)"
  by (auto simp: read_sequence_def read_integer_def read_octet_string_def read_null_def read_oid_def
      intro!: panic_free_intros split: prod.splits)

lemmas in_range_fields = sequence_op.in_range_preserved integer_op.in_range_preserved octet_string_op.in_range_preserved
  null_op.in_range_preserved oid_op.in_range_preserved tlv_op.in_range_preserved

lemma in_range_sub_reader: "read_constructed tag r = Inr (sub, r') \<Longrightarrow> in_range sub"
  by (auto simp: read_constructed_def result_Inr_iffs Let_def split: if_splits)

lemma in_range_sub_sequence: "read_sequence r = Inr (sub, r') \<Longrightarrow> in_range sub"
  unfolding read_sequence_def by (rule in_range_sub_reader)

lemma panic_free_pdu [panic_free_intros]: "panic_free (ber_decode_pdu bs)"
proof -
  have v: "panic_free (read_validated_varbind_list r)" if "in_range r" for r
    using in_range_remaining[OF that]
    by (auto simp: read_validated_varbind_list_def simp del: not_None_eq intro!: panic_free_intros split: prod.splits)
  show ?thesis
    by (auto simp: ber_decode_pdu_def Let_def intro!: panic_free_intros v split: prod.splits dest!: in_range_fields)
qed

lemma panic_free_varbind_value [panic_free_intros]: "panic_free (decode_varbind_value r)"
proof -
  have p: "panic_free (decode_varbind_choice tag r)" for tag
    by (auto simp: decode_varbind_choice_def intro!: panic_free_intros split: prod.splits)
  have i: "in_range r'" if "decode_varbind_choice tag r = Inr (x, r')" for tag x r'
    using that by (auto simp: decode_varbind_choice_def result_Inr_iffs split: if_splits dest: in_range_fields)
  show ?thesis using in_range_remaining
    by (auto simp: decode_varbind_value_def simp del: not_None_eq intro!: panic_free_intros p split: prod.splits dest!: i)
qed

lemma panic_free_varbind_list [panic_free_intros]: "panic_free (decode_varbind_list bs)"
proof -
  have "panic_free (decode_varbinds r)" for r
  proof (induction r rule: decode_varbinds.induct)
    case (1 r)
    then show ?case by (subst decode_varbinds.simps) (auto intro!: panic_free_intros split: prod.splits)
  qed
  then show ?thesis by (auto simp: decode_varbind_list_def intro!: panic_free_intros split: prod.splits)
qed

lemma panic_free_value [panic_free_intros]: "panic_free (decode_varbind_value_to_value v)"
  by (cases v rule: decode_varbind_value_to_value.cases) (auto intro!: panic_free_intros)

lemma panic_free_scoped [panic_free_intros]: "panic_free (ber_decode_scoped_pdu bs)" "panic_free (decode_scoped_pdu_data r)"
  using in_range_remaining
  by (auto simp: ber_decode_scoped_pdu_def decode_scoped_pdu_data_def simp del: not_None_eq intro!: panic_free_intros
      split: prod.splits dest!: in_range_fields)

lemma panic_free_envelope [panic_free_intros]: "panic_free (decode_v3_envelope bs)"
proof -
  have "panic_free (decode_header_data r)" for r
    by (auto simp: decode_header_data_def intro!: panic_free_intros split: prod.splits list.splits)
  moreover have "panic_free (decode_usm_security_parameters r)" for r
    by (auto simp: decode_usm_security_parameters_def Let_def intro!: panic_free_intros split: prod.splits)
  ultimately show ?thesis by (auto simp: decode_v3_envelope_def intro!: panic_free_intros split: prod.splits)
qed

text \<open>The same for the errors of the codec, which carry the BER error.\<close>

definition codec_panic_free :: "DecodeError + 'a \<Rightarrow> bool" where
  "codec_panic_free x \<longleftrightarrow> (\<forall>k. x \<noteq> Inl (DecodeError k (Some BerPanic)))"

lemma codec_panic_free_simps [simp]: "codec_panic_free (Inr a)" "codec_panic_free (Inl e) \<longleftrightarrow> decode_error_source e \<noteq> Some BerPanic"
  by (auto simp: codec_panic_free_def) (metis DecodeError.collapse)

lemma codec_panic_free_rbind:
  assumes "codec_panic_free x" "\<And>a. x = Inr a \<Longrightarrow> codec_panic_free (f a)"
  shows "codec_panic_free (rbind x f)"
  using assms by (cases x) (auto simp: codec_panic_free_def)

lemma codec_panic_free_map_err:
  "panic_free x \<Longrightarrow> codec_panic_free (map_err (\<lambda>e. DecodeError KindBer (Some e)) x)"
  by (cases x) auto

lemma codec_panic_free_rcollect: "(\<And>x. codec_panic_free (f x)) \<Longrightarrow> codec_panic_free (rcollect f xs)"
  by (induction xs) (auto intro!: codec_panic_free_rbind)

lemmas codec_panic_free_intros = codec_panic_free_rbind codec_panic_free_map_err codec_panic_free_rcollect panic_free_intros

lemma codec_panic_free_inbound: "codec_panic_free (decoded_pdu_to_inbound d)"
proof -
  have "codec_panic_free (decode_varbind_list_to_varbinds raw)" for raw
    by (auto simp: decode_varbind_list_to_varbinds_def intro!: codec_panic_free_intros)
  then show ?thesis
    by (cases d rule: decoded_pdu_to_inbound.cases) (auto simp: Let_def intro!: codec_panic_free_rbind)
qed


end
