(* ===== verification/Der.thy ===== *)
theory Der
  imports Ber_Snmp Ber_Varbind Ber_Pdu
begin

text \<open>
  The Distinguished Encoding Rules of X.690 for the types SNMP uses, written from the standard as
  recursions on numbers, and the proof that the agent's encoders of lengths, integers and object
  identifiers (\<open>src/src/codec/ber.rs\<close>), which work on fixed-width byte arrays, produce exactly them.
\<close>

section \<open>The encoding rules\<close>

text \<open>The base-256 digits of a number; definite lengths in the short or the shortest long form.\<close>

fun base256 :: "nat \<Rightarrow> bytes" where
  "base256 n = (if n = 0 then [] else base256 (n div 256) @ [word_of_nat n])"

declare base256.simps [simp del]

definition der_length :: "nat \<Rightarrow> bytes" where
  "der_length n = (if n < 128 then [word_of_nat n] else word_of_nat (128 + length (base256 n)) # base256 n)"

definition der_tlv :: "u8 \<Rightarrow> bytes \<Rightarrow> bytes" where
  "der_tlv tag v = tag # der_length (length v) @ v"

text \<open>An INTEGER of any size, in two's complement with the fewest octets.\<close>

function der_integer :: "int \<Rightarrow> bytes" where
  "der_integer v = (if -128 \<le> v \<and> v < 128 then [word_of_int v] else der_integer (v div 256) @ [word_of_int v])"
  by auto

termination der_integer
  by (relation "measure (\<lambda>v. nat \<bar>v\<bar>)") auto

declare der_integer.simps [simp del]

text \<open>A sub-identifier in base 128, and an object identifier with its first two arcs combined.\<close>

fun der_high :: "nat \<Rightarrow> bytes" where
  "der_high n = (if n = 0 then [] else der_high (n div 128) @ [word_of_nat (n mod 128 + 128)])"

declare der_high.simps [simp del]

definition der_sub_identifier :: "nat \<Rightarrow> bytes" where
  "der_sub_identifier n = der_high (n div 128) @ [word_of_nat (n mod 128)]"

fun der_oid :: "nat list \<Rightarrow> bytes" where
  "der_oid (a # b # arcs) = der_sub_identifier (a * 40 + b) @ concat (map der_sub_identifier arcs)"
| "der_oid _ = []"

section \<open>Lengths\<close>

lemma be_bytes_snoc: "be_bytes (Suc k) n = be_bytes k (n div 256) @ [word_of_nat n]"
  by (induction k) (simp_all add: div_mult2_eq mult.commute)

lemma be_bytes_base256:
  "0 < k \<Longrightarrow> 256 ^ (k - 1) \<le> n \<Longrightarrow> n < 256 ^ k \<Longrightarrow> be_bytes k n = base256 n"
proof (induction k arbitrary: n)
  case (Suc k)
  show ?case
  proof (cases k)
    case 0
    then show ?thesis using Suc.prems by (subst base256.simps, subst base256.simps) auto
  next
    case (Suc j)
    have "256 ^ (k - 1) \<le> n div 256" "n div 256 < 256 ^ k"
      using Suc.prems Suc by (simp_all add: less_eq_div_iff_mult_less_eq div_less_iff_less_mult mult.commute)
    moreover have "n \<noteq> 0" using Suc.prems(2) by (metis le_zero_eq power_not_zero zero_neq_numeral)
    ultimately show ?thesis using Suc.IH[of "n div 256"] Suc unfolding be_bytes_snoc by (subst base256.simps) simp
  qed
qed simp

lemma encode_length_der: "n < usize_limit \<Longrightarrow> encode_length [] n = der_length n"
proof (cases "127 < n")
  case True
  assume "n < usize_limit"
  note b = length_octets_bounds[OF True this]
  have e: "be_bytes (length_octets n) n = base256 n" using b by (intro be_bytes_base256)
  then have "length (base256 n) = length_octets n" by (metis length_be_bytes)
  then show ?thesis using True e by (simp add: encode_length_long der_length_def)
qed (simp add: encode_length_def der_length_def)

lemma tlv_der: "length v < usize_limit \<Longrightarrow> tlv tag v = der_tlv tag v"
  by (simp add: tlv_def der_tlv_def encode_length_der)

section \<open>Integers\<close>

text \<open>Contents without a redundant sign octet are determined by their value.\<close>

fun no_redundant_sign :: "bytes \<Rightarrow> bool" where
  "no_redundant_sign (a # b # bs) \<longleftrightarrow> \<not> (a = 0 \<and> unat b < 128) \<and> \<not> (a = 0xFF \<and> 128 \<le> unat b)"
| "no_redundant_sign bs \<longleftrightarrow> True"

lemma tc_value_snoc: "xs \<noteq> [] \<Longrightarrow> tc_value (xs @ [x]) = tc_value xs * 256 + int (unat x)"
  by (simp add: tc_value_def be_nat_append algebra_simps)

lemma no_redundant_sign_prefix: "no_redundant_sign (xs @ [x]) \<Longrightarrow> no_redundant_sign xs"
  by (cases xs rule: no_redundant_sign.cases) auto

lemma no_redundant_sign_large:
  assumes "no_redundant_sign bs" "1 < length bs"
  shows "tc_value bs < -128 \<or> 128 \<le> tc_value bs"
proof -
  obtain a b cs where bs: "bs = a # b # cs" using assms(2) by (cases bs rule: no_redundant_sign.cases) auto
  have "(1::int) \<le> 256 ^ length cs" by simp
  moreover have "tc_value bs < - (128 * 256 ^ length cs) \<or> 128 * 256 ^ length cs \<le> tc_value bs"
    using tc_value_needs_bytes[OF bs] assms(1) bs by auto
  ultimately show ?thesis by linarith
qed

lemma zero256: "(256::u8) = 0"
  by simp

lemma der_integer_unique: "bs \<noteq> [] \<Longrightarrow> no_redundant_sign bs \<Longrightarrow> der_integer (tc_value bs) = bs"
proof (induction bs rule: rev_induct)
  case (snoc x xs)
  show ?case
  proof (cases "xs = []")
    case True
    have v: "tc_value [x] = (if 128 \<le> unat x then int (unat x) - 256 else int (unat x))" by (simp add: tc_value_def)
    then have "-128 \<le> tc_value [x] \<and> tc_value [x] < 128"
      using tc_value_range[of "[x]" x "[]"] by simp
    moreover have "(word_of_int (int (unat x) - 256) :: u8) = x"
      by (simp add: zero256)
    ultimately show ?thesis using True v by (subst der_integer.simps) auto
  next
    case False
    have v: "tc_value (xs @ [x]) = tc_value xs * 256 + int (unat x)" using False by (rule tc_value_snoc)
    have "int (unat x) < 256" using unat_u8_less[of x] by linarith
    then have d: "tc_value (xs @ [x]) div 256 = tc_value xs" unfolding v by (simp del: of_nat_unat)
    have w: "(word_of_int (tc_value (xs @ [x])) :: u8) = x" unfolding v by (simp add: zero256)
    have "\<not> (-128 \<le> tc_value (xs @ [x]) \<and> tc_value (xs @ [x]) < 128)"
      using no_redundant_sign_large[OF snoc.prems(2)] False by (cases xs) auto
    then show ?thesis using snoc.IH[OF False no_redundant_sign_prefix[OF snoc.prems(2)]] d w
      by (subst der_integer.simps) auto
  qed
qed simp

lemma encode_signed_der: "encode_signed_i32 v = der_integer (sint v)"
proof -
  let ?neg = "128 \<le> unat (hd (be_bytes 4 (unat v)))"
  have ne: "be_bytes 4 (unat v) \<noteq> []" by (simp add: be_bytes_not_Nil)
  have s: "encode_signed_i32 v = strip_sign ?neg (be_bytes 4 (unat v))" by (rule encode_signed_i32_strip)
  have neg: "(128 \<le> unat (hd (encode_signed_i32 v))) = ?neg" using tc_value_strip_sign[OF ne, of ?neg] s by simp
  have "no_redundant_sign (encode_signed_i32 v)"
  proof (cases "encode_signed_i32 v" rule: no_redundant_sign.cases)
    case (1 a b bs)
    have "\<not> (a = (if ?neg then 0xFF else 0) \<and> (128 \<le> unat b) = ?neg)" using 1 s by (intro strip_sign_step) auto
    moreover have "(128 \<le> unat a) = ?neg" using neg 1 by simp
    ultimately show ?thesis unfolding 1 by auto
  qed simp_all
  from der_integer_unique[OF encode_signed_i32_not_Nil this] show ?thesis by (simp add: tc_value_encode_signed_i32)
qed

lemma encode_unsigned_der: "raw \<noteq> [] \<Longrightarrow> encode_unsigned_bytes raw = der_integer (int (be_nat raw))"
proof -
  assume raw: "raw \<noteq> []"
  obtain b s where s: "strip_zeros raw = b # s" using raw by (cases "strip_zeros raw") auto
  have e: "encode_unsigned_bytes raw = (if b AND 0x80 \<noteq> 0 then 0 # b # s else b # s)"
    unfolding encode_unsigned_bytes_def Let_def strip_zeros_takeWhile s by simp
  have "no_redundant_sign (encode_unsigned_bytes raw)"
    using strip_zeros_hd[of raw] s by (cases s) (auto simp: e high_bit_clear)
  moreover have "tc_value (encode_unsigned_bytes raw) = int (be_nat raw)"
    using encode_unsigned_bytes_value[OF raw] by (simp add: tc_value_def)
  ultimately show ?thesis using der_integer_unique encode_unsigned_bytes_value(2)[OF raw] by metis
qed

lemma encode_unsigned_words_der:
  "encode_unsigned_u32 v = der_integer (uint v)" "encode_unsigned_u64 w = der_integer (uint w)"
proof -
  have "unat v < 2 ^ 32" "unat w < 2 ^ 64"
    using unsigned_less[of v, where ?'a=nat] unsigned_less[of w, where ?'a=nat] by simp_all
  then show "encode_unsigned_u32 v = der_integer (uint v)" "encode_unsigned_u64 w = der_integer (uint w)"
    by (simp_all add: encode_unsigned_u32_def encode_unsigned_u64_def encode_unsigned_der be_bytes_not_Nil be_nat_be_bytes)
qed

section \<open>Object identifiers\<close>

lemma low7_word: "(ucast ((v::u64) AND 0x7F) :: u8) = word_of_nat (unat v mod 128)"
proof -
  have "word_of_nat (unat (ucast (v AND 0x7F) :: u8)) = (ucast (v AND 0x7F) :: u8)" by simp
  then show ?thesis unfolding unat_low7 by simp
qed

lemma der_high_groups: "der_high (unat v) = map (\<lambda>g. g + 0x80) (rev (base128_groups v))"
proof (induction v rule: base128_groups.induct)
  case (1 v)
  show ?case
  proof (cases "v > 0")
    case True
    then have v: "0 < unat v" by (simp add: word_less_nat_alt)
    have "unat (drop_bit 7 v) = unat v div 128" by (simp add: drop_bit_eq_div unat_div_distrib)
    moreover have "(ucast (v AND 0x7F) :: u8) + 0x80 = word_of_nat (unat v mod 128 + 128)"
      by (simp add: low7_word)
    ultimately show ?thesis using 1[OF True] True v
      by (subst der_high.simps, subst base128_groups.simps) simp
  next
    case False
    then have "v = 0" by (simp add: word_neq_0_conv[symmetric])
    then show ?thesis by (subst der_high.simps, subst base128_groups.simps) simp
  qed
qed

lemma encode_base128_der: "encode_base128 [] v = der_sub_identifier (unat v)"
proof (cases "v = 0")
  case True
  then show ?thesis by (simp add: encode_base128_def der_sub_identifier_def der_high.simps)
next
  case False
  then have "v > 0" by (simp add: word_neq_0_conv)
  then have g: "base128_groups v = ucast (v AND 0x7F) # base128_groups (drop_bit 7 v)" by (subst base128_groups.simps) simp
  have "unat (drop_bit 7 v) = unat v div 128" by (simp add: drop_bit_eq_div unat_div_distrib)
  moreover have "(ucast (v AND 0x7F) :: u8) = word_of_nat (unat v mod 128)"
    by (rule low7_word)
  ultimately show ?thesis using False g base128_emit_rev[of "ucast (v AND 0x7F)" "base128_groups (drop_bit 7 v)"]
      der_high_groups[of "drop_bit 7 v"]
    by (simp add: encode_base128_def der_sub_identifier_def Let_def)
qed

lemma encode_oid_der: "encode_oid oid = der_oid (map unat (as_slice oid))"
proof -
  obtain a b arcs where d: "as_slice oid = a # b # arcs" "unat a \<le> 2" "unat a \<le> 1 \<longrightarrow> unat b \<le> 39"
    by (rule oid_arcs_cases)
  have "unat (ucast a * 40 + ucast b :: u64) = unat a * 40 + unat b"
    using d(2) unat_i32_less[of b] by (simp add: unat_word_ariths unat_ucast_up_u64)
  then show ?thesis using d(1)
    by (simp add: encode_oid_def decompose_def encode_oid_concat encode_base128_der comp_def unat_ucast_up_u64)
qed

section \<open>Properties\<close>

text \<open>C34: The agent encodes exactly by the distinguished rules: its encoders of lengths, of signed and
  unsigned integers and of object identifiers, which trim fixed-width byte arrays, agree with the
  recursive definitions of X.690 on every value.\<close>

theorem encoders_are_der:
  "(n < usize_limit \<longrightarrow> encode_length [] n = der_length n)
   \<and> encode_signed_i32 i = der_integer (sint i)
   \<and> encode_unsigned_u32 v = der_integer (uint v)
   \<and> encode_unsigned_u64 w = der_integer (uint w)
   \<and> encode_oid oid = der_oid (map unat (as_slice oid))"
  by (simp add: encode_length_der encode_signed_der encode_unsigned_words_der encode_oid_der)

theorem encoders_are_der_witness:
  "encode_length [] 300 = der_length 300 \<and> encode_signed_i32 (- 129) = der_integer (- 129)"
  using encoders_are_der[of 300 "- 129"] by simp

end
