(* ===== verification/Frames.thy ===== *)
theory Frames
  imports Dispatch Der
begin

text \<open>
  The frame encoders of the test and fuzzing programs (\<open>src/tests/snmpv3-frames/src/lib.rs\<close>). They build
  the message structures of the \<open>rasn\<close> library and hand them to its BER encoder, which is a parameter;
  \<open>rasn_ok\<close> states that it encodes by the distinguished rules of X.690. The lemmas show what the agent's
  decoder reads from such a frame.
\<close>

section \<open>The message structures\<close>

text \<open>The types of \<open>rasn\<close> and \<open>rasn_snmp\<close>, with the fields the encoders fill. An \<open>Integer\<close> of \<open>rasn\<close> is
  unbounded, an \<open>OctetString\<close> a byte string, and an \<open>ObjectIdentifier\<close> made by \<open>new_unchecked\<close> any
  sequence of arcs.\<close>

datatype RasnVarBindValue = RasnUnspecified

record RasnVarBind =
  rvb_name :: "u32 list"
  rvb_value :: RasnVarBindValue

record RasnPdu =
  rp_request_id :: i32
  rp_error_status :: u32
  rp_error_index :: u32
  rp_variable_bindings :: "RasnVarBind list"

record BulkPdu =
  bp_request_id :: i32
  bp_non_repeaters :: u32
  bp_max_repetitions :: u32
  bp_variable_bindings :: "RasnVarBind list"

datatype Pdus =
    PdusGetRequest RasnPdu
  | PdusGetNextRequest RasnPdu
  | PdusGetBulkRequest BulkPdu
  | PdusSetRequest RasnPdu

record RasnScopedPdu =
  rs_engine_id :: bytes
  rs_name :: bytes
  rs_data :: Pdus

record USMSecurityParameters =
  up_authoritative_engine_id :: bytes
  up_authoritative_engine_boots :: int
  up_authoritative_engine_time :: int
  up_user_name :: bytes
  up_authentication_parameters :: bytes
  up_privacy_parameters :: bytes

record RasnHeaderData =
  rh_message_id :: int
  rh_max_size :: int
  rh_flags :: bytes
  rh_security_model :: int

datatype RasnScopedPduData = CleartextPdu RasnScopedPdu

record V3Message =
  vm_version :: int
  vm_global_data :: RasnHeaderData
  vm_security_parameters :: bytes
  vm_scoped_data :: RasnScopedPduData

text \<open>\<open>rasn::ber::encode\<close> at the two types it is used at.\<close>

record 'e rasn =
  rasn_encode_usm :: "USMSecurityParameters \<Rightarrow> 'e + bytes"
  rasn_encode_message :: "V3Message \<Rightarrow> 'e + bytes"

section \<open>The encoders\<close>

definition single_varbind_pdu :: "i32 \<Rightarrow> u32 list \<Rightarrow> RasnPdu" where
  "single_varbind_pdu request_id oid_arcs =
     \<lparr>rp_request_id = request_id, rp_error_status = 0, rp_error_index = 0,
      rp_variable_bindings = [\<lparr>rvb_name = oid_arcs, rvb_value = RasnUnspecified\<rparr>]\<rparr>"

definition frames_encode_v3_message_with_usm_params ::
  "'e rasn \<Rightarrow> bytes \<Rightarrow> bytes \<Rightarrow> bytes \<Rightarrow> i32 \<Rightarrow> Pdus \<Rightarrow> u8 \<Rightarrow> bytes \<Rightarrow> u32 \<Rightarrow> u32 \<Rightarrow> 'e + bytes" where
  "frames_encode_v3_message_with_usm_params r engine_id user_name context_name msg_id pdus msg_flags_byte
     auth_params auth_engine_boots auth_engine_time =
     (let scoped_pdu = \<lparr>rs_engine_id = engine_id, rs_name = context_name, rs_data = pdus\<rparr>;
          usm_params = \<lparr>up_authoritative_engine_id = engine_id,
            up_authoritative_engine_boots = uint auth_engine_boots,
            up_authoritative_engine_time = uint auth_engine_time, up_user_name = user_name,
            up_authentication_parameters = auth_params, up_privacy_parameters = []\<rparr>
      in rbind (rasn_encode_usm r usm_params) (\<lambda>security_parameters_bytes.
         rasn_encode_message r \<lparr>vm_version = 3,
           vm_global_data = \<lparr>rh_message_id = sint msg_id, rh_max_size = 0xFFFF, rh_flags = [msg_flags_byte],
             rh_security_model = 3\<rparr>,
           vm_security_parameters = security_parameters_bytes, vm_scoped_data = CleartextPdu scoped_pdu\<rparr>))"

definition frames_encode_v3_message_with_auth_params ::
  "'e rasn \<Rightarrow> bytes \<Rightarrow> bytes \<Rightarrow> bytes \<Rightarrow> i32 \<Rightarrow> Pdus \<Rightarrow> u8 \<Rightarrow> bytes \<Rightarrow> 'e + bytes" where
  "frames_encode_v3_message_with_auth_params r engine_id user_name context_name msg_id pdus msg_flags_byte auth_params =
     frames_encode_v3_message_with_usm_params r engine_id user_name context_name msg_id pdus msg_flags_byte
       auth_params 0 0"

definition frames_encode_v3_message_with_max_size ::
  "'e rasn \<Rightarrow> bytes \<Rightarrow> bytes \<Rightarrow> bytes \<Rightarrow> i32 \<Rightarrow> Pdus \<Rightarrow> u8 \<Rightarrow> i32 \<Rightarrow> 'e + bytes" where
  "frames_encode_v3_message_with_max_size r engine_id user_name context_name msg_id pdus msg_flags_byte msg_max_size =
     (let scoped_pdu = \<lparr>rs_engine_id = engine_id, rs_name = context_name, rs_data = pdus\<rparr>;
          usm_params = \<lparr>up_authoritative_engine_id = engine_id, up_authoritative_engine_boots = 0,
            up_authoritative_engine_time = 0, up_user_name = user_name,
            up_authentication_parameters = [], up_privacy_parameters = []\<rparr>
      in rbind (rasn_encode_usm r usm_params) (\<lambda>security_parameters_bytes.
         rasn_encode_message r \<lparr>vm_version = 3,
           vm_global_data = \<lparr>rh_message_id = sint msg_id, rh_max_size = sint msg_max_size,
             rh_flags = [msg_flags_byte], rh_security_model = 3\<rparr>,
           vm_security_parameters = security_parameters_bytes, vm_scoped_data = CleartextPdu scoped_pdu\<rparr>))"

definition frames_encode_v3_message ::
  "'e rasn \<Rightarrow> bytes \<Rightarrow> bytes \<Rightarrow> bytes \<Rightarrow> i32 \<Rightarrow> Pdus \<Rightarrow> u8 \<Rightarrow> 'e + bytes" where
  "frames_encode_v3_message r engine_id user_name context_name msg_id pdus msg_flags_byte =
     frames_encode_v3_message_with_auth_params r engine_id user_name context_name msg_id pdus msg_flags_byte []"

definition try_encode_get_request :: "'e rasn \<Rightarrow> bytes \<Rightarrow> bytes \<Rightarrow> i32 \<Rightarrow> i32 \<Rightarrow> u32 list \<Rightarrow> 'e + bytes" where
  "try_encode_get_request r engine_id context_name msg_id request_id oid_arcs =
     frames_encode_v3_message r engine_id [] context_name msg_id
       (PdusGetRequest (single_varbind_pdu request_id oid_arcs)) 0x04"

definition try_encode_get_next_request :: "'e rasn \<Rightarrow> bytes \<Rightarrow> bytes \<Rightarrow> i32 \<Rightarrow> i32 \<Rightarrow> u32 list \<Rightarrow> 'e + bytes" where
  "try_encode_get_next_request r engine_id context_name msg_id request_id oid_arcs =
     frames_encode_v3_message r engine_id [] context_name msg_id
       (PdusGetNextRequest (single_varbind_pdu request_id oid_arcs)) 0x04"

definition try_encode_set_request :: "'e rasn \<Rightarrow> bytes \<Rightarrow> bytes \<Rightarrow> i32 \<Rightarrow> i32 \<Rightarrow> u32 list \<Rightarrow> 'e + bytes" where
  "try_encode_set_request r engine_id context_name msg_id request_id oid_arcs =
     frames_encode_v3_message r engine_id [] context_name msg_id
       (PdusSetRequest (single_varbind_pdu request_id oid_arcs)) 0x04"

definition try_encode_get_bulk_request_with_max_size ::
  "'e rasn \<Rightarrow> bytes \<Rightarrow> bytes \<Rightarrow> i32 \<Rightarrow> i32 \<Rightarrow> u32 \<Rightarrow> u32 \<Rightarrow> u32 list \<Rightarrow> i32 \<Rightarrow> 'e + bytes" where
  "try_encode_get_bulk_request_with_max_size r engine_id context_name msg_id request_id non_repeaters
     max_repetitions oid_arcs msg_max_size =
     frames_encode_v3_message_with_max_size r engine_id [] context_name msg_id
       (PdusGetBulkRequest \<lparr>bp_request_id = request_id, bp_non_repeaters = non_repeaters,
          bp_max_repetitions = max_repetitions,
          bp_variable_bindings = [\<lparr>rvb_name = oid_arcs, rvb_value = RasnUnspecified\<rparr>]\<rparr>) 0x04 msg_max_size"

definition try_encode_get_bulk_request ::
  "'e rasn \<Rightarrow> bytes \<Rightarrow> bytes \<Rightarrow> i32 \<Rightarrow> i32 \<Rightarrow> u32 \<Rightarrow> u32 \<Rightarrow> u32 list \<Rightarrow> 'e + bytes" where
  "try_encode_get_bulk_request r engine_id context_name msg_id request_id non_repeaters max_repetitions oid_arcs =
     try_encode_get_bulk_request_with_max_size r engine_id context_name msg_id request_id non_repeaters
       max_repetitions oid_arcs 0xFFFF"

definition try_encode_get_request_with_auth_params_and_time ::
  "'e rasn \<Rightarrow> bytes \<Rightarrow> bytes \<Rightarrow> bytes \<Rightarrow> i32 \<Rightarrow> i32 \<Rightarrow> u32 list \<Rightarrow> u8 \<Rightarrow> bytes \<Rightarrow> u32 \<Rightarrow> u32 \<Rightarrow> 'e + bytes" where
  "try_encode_get_request_with_auth_params_and_time r engine_id user_name context_name msg_id request_id oid_arcs
     msg_flags_byte auth_params auth_engine_boots auth_engine_time =
     frames_encode_v3_message_with_usm_params r engine_id user_name context_name msg_id
       (PdusGetRequest (single_varbind_pdu request_id oid_arcs)) msg_flags_byte auth_params
       auth_engine_boots auth_engine_time"

text \<open>The variants that \<open>expect\<close> success: \<open>None\<close> is the panic.\<close>

definition encode_get_request :: "'e rasn \<Rightarrow> bytes \<Rightarrow> bytes \<Rightarrow> i32 \<Rightarrow> i32 \<Rightarrow> u32 list \<Rightarrow> bytes option" where
  "encode_get_request r engine_id context_name msg_id request_id oid_arcs =
     res_ok (try_encode_get_request r engine_id context_name msg_id request_id oid_arcs)"

definition encode_get_next_request :: "'e rasn \<Rightarrow> bytes \<Rightarrow> bytes \<Rightarrow> i32 \<Rightarrow> i32 \<Rightarrow> u32 list \<Rightarrow> bytes option" where
  "encode_get_next_request r engine_id context_name msg_id request_id oid_arcs =
     res_ok (try_encode_get_next_request r engine_id context_name msg_id request_id oid_arcs)"

definition encode_set_request :: "'e rasn \<Rightarrow> bytes \<Rightarrow> bytes \<Rightarrow> i32 \<Rightarrow> i32 \<Rightarrow> u32 list \<Rightarrow> bytes option" where
  "encode_set_request r engine_id context_name msg_id request_id oid_arcs =
     res_ok (try_encode_set_request r engine_id context_name msg_id request_id oid_arcs)"

definition encode_get_bulk_request_with_max_size ::
  "'e rasn \<Rightarrow> bytes \<Rightarrow> bytes \<Rightarrow> i32 \<Rightarrow> i32 \<Rightarrow> u32 \<Rightarrow> u32 \<Rightarrow> u32 list \<Rightarrow> i32 \<Rightarrow> bytes option" where
  "encode_get_bulk_request_with_max_size r engine_id context_name msg_id request_id non_repeaters max_repetitions
     oid_arcs msg_max_size =
     res_ok (try_encode_get_bulk_request_with_max_size r engine_id context_name msg_id request_id non_repeaters
       max_repetitions oid_arcs msg_max_size)"

definition encode_get_bulk_request ::
  "'e rasn \<Rightarrow> bytes \<Rightarrow> bytes \<Rightarrow> i32 \<Rightarrow> i32 \<Rightarrow> u32 \<Rightarrow> u32 \<Rightarrow> u32 list \<Rightarrow> bytes option" where
  "encode_get_bulk_request r engine_id context_name msg_id request_id non_repeaters max_repetitions oid_arcs =
     res_ok (try_encode_get_bulk_request r engine_id context_name msg_id request_id non_repeaters max_repetitions oid_arcs)"

definition encode_get_request_with_user_and_flags ::
  "'e rasn \<Rightarrow> bytes \<Rightarrow> bytes \<Rightarrow> bytes \<Rightarrow> i32 \<Rightarrow> i32 \<Rightarrow> u32 list \<Rightarrow> u8 \<Rightarrow> bytes option" where
  "encode_get_request_with_user_and_flags r engine_id user_name context_name msg_id request_id oid_arcs msg_flags_byte =
     res_ok (frames_encode_v3_message r engine_id user_name context_name msg_id
       (PdusGetRequest (single_varbind_pdu request_id oid_arcs)) msg_flags_byte)"

definition encode_get_request_with_user ::
  "'e rasn \<Rightarrow> bytes \<Rightarrow> bytes \<Rightarrow> bytes \<Rightarrow> i32 \<Rightarrow> i32 \<Rightarrow> u32 list \<Rightarrow> bytes option" where
  "encode_get_request_with_user r engine_id user_name context_name msg_id request_id oid_arcs =
     encode_get_request_with_user_and_flags r engine_id user_name context_name msg_id request_id oid_arcs 0x04"

definition encode_get_request_with_user_no_report ::
  "'e rasn \<Rightarrow> bytes \<Rightarrow> bytes \<Rightarrow> bytes \<Rightarrow> i32 \<Rightarrow> i32 \<Rightarrow> u32 list \<Rightarrow> bytes option" where
  "encode_get_request_with_user_no_report r engine_id user_name context_name msg_id request_id oid_arcs =
     encode_get_request_with_user_and_flags r engine_id user_name context_name msg_id request_id oid_arcs 0x00"

definition encode_get_request_with_auth_params ::
  "'e rasn \<Rightarrow> bytes \<Rightarrow> bytes \<Rightarrow> bytes \<Rightarrow> i32 \<Rightarrow> i32 \<Rightarrow> u32 list \<Rightarrow> u8 \<Rightarrow> bytes \<Rightarrow> bytes option" where
  "encode_get_request_with_auth_params r engine_id user_name context_name msg_id request_id oid_arcs msg_flags_byte
     auth_params =
     res_ok (frames_encode_v3_message_with_auth_params r engine_id user_name context_name msg_id
       (PdusGetRequest (single_varbind_pdu request_id oid_arcs)) msg_flags_byte auth_params)"

definition encode_get_request_with_auth_params_and_time ::
  "'e rasn \<Rightarrow> bytes \<Rightarrow> bytes \<Rightarrow> bytes \<Rightarrow> i32 \<Rightarrow> i32 \<Rightarrow> u32 list \<Rightarrow> u8 \<Rightarrow> bytes \<Rightarrow> u32 \<Rightarrow> u32 \<Rightarrow> bytes option" where
  "encode_get_request_with_auth_params_and_time r engine_id user_name context_name msg_id request_id oid_arcs
     msg_flags_byte auth_params auth_engine_boots auth_engine_time =
     res_ok (try_encode_get_request_with_auth_params_and_time r engine_id user_name context_name msg_id request_id
       oid_arcs msg_flags_byte auth_params auth_engine_boots auth_engine_time)"

definition encode_get_request_with_context_engine_id ::
  "'e rasn \<Rightarrow> bytes \<Rightarrow> bytes \<Rightarrow> bytes \<Rightarrow> i32 \<Rightarrow> i32 \<Rightarrow> u32 list \<Rightarrow> bytes option" where
  "encode_get_request_with_context_engine_id r usm_engine_id context_engine_id context_name msg_id request_id oid_arcs =
     (let scoped_pdu = \<lparr>rs_engine_id = context_engine_id, rs_name = context_name,
            rs_data = PdusGetRequest (single_varbind_pdu request_id oid_arcs)\<rparr>;
          usm_params = \<lparr>up_authoritative_engine_id = usm_engine_id, up_authoritative_engine_boots = 0,
            up_authoritative_engine_time = 0, up_user_name = [],
            up_authentication_parameters = [], up_privacy_parameters = []\<rparr>
      in Option.bind (res_ok (rasn_encode_usm r usm_params)) (\<lambda>security_parameters_bytes.
         res_ok (rasn_encode_message r \<lparr>vm_version = 3,
           vm_global_data = \<lparr>rh_message_id = sint msg_id, rh_max_size = 0xFFFF, rh_flags = [0x04],
             rh_security_model = 3\<rparr>,
           vm_security_parameters = security_parameters_bytes, vm_scoped_data = CleartextPdu scoped_pdu\<rparr>)))"

definition encode_discovery_probe_with_flags :: "'e rasn \<Rightarrow> bytes \<Rightarrow> bytes option" where
  "encode_discovery_probe_with_flags r flags =
     (let usm_params = \<lparr>up_authoritative_engine_id = [], up_authoritative_engine_boots = 0,
            up_authoritative_engine_time = 0, up_user_name = [],
            up_authentication_parameters = [], up_privacy_parameters = []\<rparr>
      in Option.bind (res_ok (rasn_encode_usm r usm_params)) (\<lambda>security_parameters_bytes.
         let get_request = \<lparr>rp_request_id = 1, rp_error_status = 0, rp_error_index = 0,
               rp_variable_bindings = [\<lparr>rvb_name = [1, 3, 6, 1, 2, 1, 1, 1, 0], rvb_value = RasnUnspecified\<rparr>]\<rparr>;
             scoped_pdu = \<lparr>rs_engine_id = [], rs_name = [], rs_data = PdusGetRequest get_request\<rparr>
         in res_ok (rasn_encode_message r \<lparr>vm_version = 3,
              vm_global_data = \<lparr>rh_message_id = 42, rh_max_size = 0xFFFF, rh_flags = flags, rh_security_model = 3\<rparr>,
              vm_security_parameters = security_parameters_bytes, vm_scoped_data = CleartextPdu scoped_pdu\<rparr>)))"

definition encode_discovery_probe :: "'e rasn \<Rightarrow> bytes option" where
  "encode_discovery_probe r = encode_discovery_probe_with_flags r [0x04]"

definition encode_discovery_probe_no_report :: "'e rasn \<Rightarrow> bytes option" where
  "encode_discovery_probe_no_report r = encode_discovery_probe_with_flags r [0x00]"

section \<open>The encoding library\<close>

text \<open>The structures by the distinguished encoding rules.\<close>

definition der_int :: "int \<Rightarrow> bytes" where "der_int v = der_tlv TAG_INTEGER (der_integer v)"
definition der_octets :: "bytes \<Rightarrow> bytes" where "der_octets bs = der_tlv TAG_OCTET_STRING bs"
definition der_sequence :: "bytes list \<Rightarrow> bytes" where "der_sequence parts = der_tlv TAG_SEQUENCE (concat parts)"

definition der_varbind :: "RasnVarBind \<Rightarrow> bytes" where
  "der_varbind vb = der_sequence [der_tlv TAG_OID (der_oid (map unat (rvb_name vb))),
     case rvb_value vb of RasnUnspecified \<Rightarrow> der_tlv TAG_NULL []]"

definition der_pdu :: "u8 \<Rightarrow> i32 \<Rightarrow> u32 \<Rightarrow> u32 \<Rightarrow> RasnVarBind list \<Rightarrow> bytes" where
  "der_pdu tag request_id a b vbs =
     der_tlv tag (der_int (sint request_id) @ der_int (uint a) @ der_int (uint b) @ der_sequence (map der_varbind vbs))"

fun der_pdus :: "Pdus \<Rightarrow> bytes" where
  "der_pdus (PdusGetRequest p) = der_pdu TAG_GET_REQUEST (rp_request_id p) (rp_error_status p) (rp_error_index p) (rp_variable_bindings p)"
| "der_pdus (PdusGetNextRequest p) = der_pdu TAG_GET_NEXT_REQUEST (rp_request_id p) (rp_error_status p) (rp_error_index p) (rp_variable_bindings p)"
| "der_pdus (PdusSetRequest p) = der_pdu TAG_SET_REQUEST (rp_request_id p) (rp_error_status p) (rp_error_index p) (rp_variable_bindings p)"
| "der_pdus (PdusGetBulkRequest p) = der_pdu TAG_GET_BULK_REQUEST (bp_request_id p) (bp_non_repeaters p) (bp_max_repetitions p) (bp_variable_bindings p)"

definition der_usm :: "USMSecurityParameters \<Rightarrow> bytes" where
  "der_usm p = der_sequence [der_octets (up_authoritative_engine_id p), der_int (up_authoritative_engine_boots p),
     der_int (up_authoritative_engine_time p), der_octets (up_user_name p),
     der_octets (up_authentication_parameters p), der_octets (up_privacy_parameters p)]"

fun der_scoped :: "RasnScopedPduData \<Rightarrow> bytes" where
  "der_scoped (CleartextPdu s) = der_sequence [der_octets (rs_engine_id s), der_octets (rs_name s), der_pdus (rs_data s)]"

definition der_header :: "RasnHeaderData \<Rightarrow> bytes" where
  "der_header h = der_sequence [der_int (rh_message_id h), der_int (rh_max_size h), der_octets (rh_flags h),
     der_int (rh_security_model h)]"

definition der_message :: "V3Message \<Rightarrow> bytes" where
  "der_message m = der_sequence [der_int (vm_version m), der_header (vm_global_data m),
     der_octets (vm_security_parameters m), der_scoped (vm_scoped_data m)]"

text \<open>The names of a message must be object identifiers; \<open>new_unchecked\<close> does not see to it.\<close>

fun pdus_varbinds :: "Pdus \<Rightarrow> RasnVarBind list" where
  "pdus_varbinds (PdusGetRequest p) = rp_variable_bindings p"
| "pdus_varbinds (PdusGetNextRequest p) = rp_variable_bindings p"
| "pdus_varbinds (PdusSetRequest p) = rp_variable_bindings p"
| "pdus_varbinds (PdusGetBulkRequest p) = bp_variable_bindings p"

fun names_ok :: "RasnScopedPduData \<Rightarrow> bool" where
  "names_ok (CleartextPdu s) \<longleftrightarrow> list_all (\<lambda>vb. valid_components (rvb_name vb)) (pdus_varbinds (rs_data s))"

definition rasn_ok :: "'e rasn \<Rightarrow> bool" where
  "rasn_ok r \<longleftrightarrow> (\<forall>p. rasn_encode_usm r p = Inr (der_usm p))
     \<and> (\<forall>m. names_ok (vm_scoped_data m) \<longrightarrow> rasn_encode_message r m = Inr (der_message m))"

text \<open>An instance.\<close>

definition der_rasn :: "unit rasn" where
  "der_rasn = \<lparr>rasn_encode_usm = \<lambda>p. Inr (der_usm p),
     rasn_encode_message = \<lambda>m. if names_ok (vm_scoped_data m) then Inr (der_message m) else Inl ()\<rparr>"

lemma der_rasn_ok: "rasn_ok der_rasn"
  by (simp add: rasn_ok_def der_rasn_def)

section \<open>Frames as the agent's layout\<close>

lemma der_int_sint: "der_int (sint (v::i32)) = i32_tlv v"
  using length_encode_signed_i32(2)[of v] by (simp add: der_int_def encode_signed_der[symmetric] tlv_der)

lemma uint_small: "unat (v::u32) < 2147483648 \<Longrightarrow> uint v = sint v"
  by (simp add: sint_unat)

lemma der_octets_tlv: "length bs < 4294967296 \<Longrightarrow> der_octets bs = oct_tlv bs"
  by (simp add: der_octets_def tlv_der)

lemma der_sequence_tlv: "length (concat parts) < 18446744073709551616 \<Longrightarrow> der_sequence parts = tlv TAG_SEQUENCE (concat parts)"
  by (simp add: der_sequence_def tlv_der)

definition rasn_varbind :: "RasnVarBind \<Rightarrow> Varbind" where
  "rasn_varbind vb = \<lparr>vb_oid = Oid_of (rvb_name vb), vb_value = Unspecified\<rparr>"

lemma der_varbind_wire:
  assumes "valid_components (rvb_name vb)"
  shows "der_varbind vb = wire_varbind (rasn_varbind vb)" "length (wire_varbind (rasn_varbind vb)) \<le> 680"
proof -
  let ?oid = "Oid_of (rvb_name vb)"
  have o: "der_oid (map unat (rvb_name vb)) = encode_oid ?oid" using assms by (simp add: encode_oid_der)
  have l: "length (encode_oid ?oid) \<le> 640" using length_encode_oid[of ?oid] oid_length_le[of ?oid] by linarith
  then have t: "der_tlv TAG_OID (encode_oid ?oid) = tlv TAG_OID (encode_oid ?oid)" "der_tlv TAG_NULL [] = tlv TAG_NULL []"
    by (simp_all add: tlv_der)
  have lt: "length (tlv TAG_OID (encode_oid ?oid) @ tlv TAG_NULL []) \<le> 660"
    using length_tlv_le[of TAG_OID "encode_oid ?oid"] length_tlv_le[of TAG_NULL "[]"] l by simp
  show "der_varbind vb = wire_varbind (rasn_varbind vb)"
    using lt by (cases "rvb_value vb") (simp add: der_varbind_def o t der_sequence_tlv wire_varbind_tlv rasn_varbind_def)
  show "length (wire_varbind (rasn_varbind vb)) \<le> 680"
    using lt length_tlv_le[of TAG_SEQUENCE "tlv TAG_OID (encode_oid ?oid) @ tlv TAG_NULL []"]
    by (simp add: wire_varbind_tlv rasn_varbind_def)
qed

definition wire_pdu :: "u8 \<Rightarrow> i32 \<Rightarrow> u32 \<Rightarrow> u32 \<Rightarrow> u32 list \<Rightarrow> bytes" where
  "wire_pdu tag rid a b arcs =
     tlv tag (pdu_body rid a b (encode_varbind_list [wire_varbind \<lparr>vb_oid = Oid_of arcs, vb_value = Unspecified\<rparr>]))"

lemma der_pdu_wire:
  assumes "valid_components arcs" "unat a < 2147483648" "unat b < 2147483648"
  shows "der_pdu tag rid a b [\<lparr>rvb_name = arcs, rvb_value = RasnUnspecified\<rparr>] = wire_pdu tag rid a b arcs"
    "length (wire_pdu tag rid a b arcs) \<le> 800"
proof -
  let ?vb = "\<lparr>rvb_name = arcs, rvb_value = RasnUnspecified\<rparr> :: RasnVarBind"
  note v = der_varbind_wire[of ?vb, simplified, OF assms(1)]
  have s: "der_sequence [der_varbind ?vb] = encode_varbind_list [wire_varbind (rasn_varbind ?vb)]"
    using v by (simp add: der_sequence_tlv encode_varbind_list_tlv)
  have ls: "length (encode_varbind_list [wire_varbind (rasn_varbind ?vb)]) \<le> 690"
    using v(2) length_tlv_le[of TAG_SEQUENCE "wire_varbind (rasn_varbind ?vb)"] by (simp add: encode_varbind_list_tlv)
  let ?b = "pdu_body rid a b (encode_varbind_list [wire_varbind (rasn_varbind ?vb)])"
  have lb: "length ?b \<le> 740"
    using ls length_i32_tlv_le[of rid] length_i32_tlv_le[of a] length_i32_tlv_le[of b] by (simp add: pdu_body_def)
  have "der_pdu tag rid a b [?vb] = der_tlv tag ?b"
    by (simp add: der_pdu_def s der_int_sint uint_small[OF assms(2)] uint_small[OF assms(3)] pdu_body_def)
  then show "der_pdu tag rid a b [?vb] = wire_pdu tag rid a b arcs"
    using lb by (simp add: wire_pdu_def rasn_varbind_def tlv_der)
  show "length (wire_pdu tag rid a b arcs) \<le> 800"
    using lb length_tlv_le[of tag ?b] by (simp add: wire_pdu_def rasn_varbind_def)
qed

text \<open>A whole message with short fields.\<close>

abbreviation frame_usm :: "bytes \<Rightarrow> i32 \<Rightarrow> i32 \<Rightarrow> bytes \<Rightarrow> bytes \<Rightarrow> UsmFields" where
  "frame_usm e b t u ap \<equiv> \<lparr>uf_engine_id = e, uf_engine_boots = b, uf_engine_time = t, uf_user_name = u,
     uf_auth_params = ap, uf_priv_params = []\<rparr>"

abbreviation frame_header :: "i32 \<Rightarrow> i32 \<Rightarrow> u8 \<Rightarrow> HeaderData" where
  "frame_header mid sz fl \<equiv> \<lparr>hd_msg_id = mid, hd_max_size = sz, hd_security_flags = fl, hd_security_model = 3\<rparr>"

lemma der_usm_wire:
  assumes "length e < 65536" "length u < 65536" "length ap < 65536"
  shows "der_usm \<lparr>up_authoritative_engine_id = e, up_authoritative_engine_boots = sint b,
      up_authoritative_engine_time = sint t, up_user_name = u, up_authentication_parameters = ap,
      up_privacy_parameters = []\<rparr> = tlv TAG_SEQUENCE (usm_body (frame_usm e b t u ap))"
    "length (usm_body (frame_usm e b t u ap)) < 4294967000"
proof -
  show l: "length (usm_body (frame_usm e b t u ap)) < 4294967000"
    using assms length_tlv_le[of TAG_OCTET_STRING e] length_tlv_le[of TAG_OCTET_STRING u] length_tlv_le[of TAG_OCTET_STRING ap]
      length_tlv_le[of TAG_OCTET_STRING "[]"] length_i32_tlv_le[of b] length_i32_tlv_le[of t] by (simp add: usm_body_def)
  show "der_usm \<lparr>up_authoritative_engine_id = e, up_authoritative_engine_boots = sint b,
      up_authoritative_engine_time = sint t, up_user_name = u, up_authentication_parameters = ap,
      up_privacy_parameters = []\<rparr> = tlv TAG_SEQUENCE (usm_body (frame_usm e b t u ap))"
    using l assms unfolding der_usm_def by (subst der_sequence_tlv) (simp_all add: der_octets_tlv der_int_sint usm_body_def)
qed

lemma der_message_wire:
  assumes "length e < 65536" "length u < 65536" "length ap < 65536" "length ce < 65536" "length c < 65536"
    and "der_pdus pdus = raw" "length raw \<le> 800"
  shows "der_message \<lparr>vm_version = 3,
      vm_global_data = \<lparr>rh_message_id = sint mid, rh_max_size = sint sz, rh_flags = [fl], rh_security_model = 3\<rparr>,
      vm_security_parameters = tlv TAG_SEQUENCE (usm_body (frame_usm e b t u ap)),
      vm_scoped_data = CleartextPdu \<lparr>rs_engine_id = ce, rs_name = c, rs_data = pdus\<rparr>\<rparr>
    = encoded_v3 (frame_header mid sz fl) (frame_usm e b t u ap) (scoped_body (ScopedPlaintext ce c raw))"
proof -
  let ?h = "frame_header mid sz fl" let ?u = "frame_usm e b t u ap"
  have i: "der_int 3 = i32_tlv 3" using der_int_sint[of 3] by simp
  have lh: "length (header_body ?h) \<le> 100"
    using length_i32_tlv_le[of mid] length_i32_tlv_le[of sz] length_i32_tlv_le[of 3] length_tlv_le[of TAG_OCTET_STRING "[fl]"]
    by (simp add: header_body_def)
  have h: "der_header \<lparr>rh_message_id = sint mid, rh_max_size = sint sz, rh_flags = [fl], rh_security_model = 3\<rparr>
      = tlv TAG_SEQUENCE (header_body ?h)"
    using lh unfolding der_header_def by (subst der_sequence_tlv) (simp_all add: der_octets_tlv der_int_sint i header_body_def)
  have ls: "length (oct_tlv ce @ oct_tlv c @ raw) \<le> 200000"
    using assms(4,5,7) length_tlv_le[of TAG_OCTET_STRING ce] length_tlv_le[of TAG_OCTET_STRING c] by simp
  have s: "der_scoped (CleartextPdu \<lparr>rs_engine_id = ce, rs_name = c, rs_data = pdus\<rparr>) = scoped_body (ScopedPlaintext ce c raw)"
    using ls assms(4-6) unfolding der_scoped.simps by (subst der_sequence_tlv) (simp_all add: der_octets_tlv)
  have lu: "length (tlv TAG_SEQUENCE (usm_body ?u)) < 4294967296"
    using der_usm_wire(2)[OF assms(1-3), of b t] length_tlv_le[of TAG_SEQUENCE "usm_body ?u"] by linarith
  have "length (message_body ?h ?u (scoped_body (ScopedPlaintext ce c raw))) < 18446744073709551616"
    using lh ls lu length_tlv_le[of TAG_SEQUENCE "header_body ?h"] length_tlv_le[of TAG_OCTET_STRING "tlv TAG_SEQUENCE (usm_body ?u)"]
      length_i32_tlv_le[of 3] length_tlv_le[of TAG_SEQUENCE "oct_tlv ce @ oct_tlv c @ raw"]
    by (simp add: message_body_def SNMPV3_VERSION_def)
  then show ?thesis unfolding der_message_def using lu
    by (subst der_sequence_tlv) (simp_all add: h s i der_octets_tlv encoded_v3_def message_body_def SNMPV3_VERSION_def del: der_scoped.simps)
qed

section \<open>What the agent reads\<close>

text \<open>The requests the encoders build, with one name, and the request the agent's decoder makes of them.\<close>

inductive one_name :: "Pdus \<Rightarrow> u32 list \<Rightarrow> bool" where
  "one_name (PdusGetRequest (single_varbind_pdu rid arcs)) arcs"
| "one_name (PdusGetNextRequest (single_varbind_pdu rid arcs)) arcs"
| "one_name (PdusSetRequest (single_varbind_pdu rid arcs)) arcs"
| "unat nr < 2147483648 \<Longrightarrow> unat mr < 2147483648 \<Longrightarrow>
    one_name (PdusGetBulkRequest \<lparr>bp_request_id = rid, bp_non_repeaters = nr, bp_max_repetitions = mr,
      bp_variable_bindings = [\<lparr>rvb_name = arcs, rvb_value = RasnUnspecified\<rparr>]\<rparr>) arcs"

fun pdus_request :: "Pdus \<Rightarrow> InboundPdu" where
  "pdus_request (PdusGetRequest p) =
     PduGetRequest \<lparr>get_request_id = RequestId (rp_request_id p), get_varbinds = map rasn_varbind (rp_variable_bindings p)\<rparr>"
| "pdus_request (PdusGetNextRequest p) =
     PduGetNextRequest \<lparr>getnext_request_id = RequestId (rp_request_id p), getnext_varbinds = map rasn_varbind (rp_variable_bindings p)\<rparr>"
| "pdus_request (PdusSetRequest p) =
     PduSetRequest \<lparr>set_request_id = RequestId (rp_request_id p), set_varbinds = map rasn_varbind (rp_variable_bindings p)\<rparr>"
| "pdus_request (PdusGetBulkRequest p) =
     PduGetBulkRequest \<lparr>bulk_request_id = RequestId (bp_request_id p), bulk_non_repeaters = bp_non_repeaters p,
       bulk_max_repetitions = bp_max_repetitions p, bulk_varbinds = map rasn_varbind (bp_variable_bindings p)\<rparr>"

lemma one_name_wire:
  assumes "one_name pdus arcs" "valid_components arcs"
  obtains raw where "der_pdus pdus = raw" "length raw \<le> 800" "decode_pdu raw = Inr (pdus_request pdus)"
    "list_all (\<lambda>vb. valid_components (rvb_name vb)) (pdus_varbinds pdus)"
proof -
  let ?vb = "\<lparr>vb_oid = Oid_of arcs, vb_value = Unspecified\<rparr> :: Varbind"
  let ?raw = "encode_varbind_list [wire_varbind ?vb]"
  have e: "encode_varbinds [?vb] = Inr ?raw" by (simp add: encode_varbinds_wire)
  have l: "length ?raw + 60 < 9223372036854775808" "length ?raw < 9223372036854775808"
    using der_varbind_wire(2)[of "\<lparr>rvb_name = arcs, rvb_value = RasnUnspecified\<rparr>"] assms(2) encode_varbinds_length[OF e]
    by (simp_all add: rasn_varbind_def)
  note d = decode_encoded_varbinds[OF e l(2)]
  note w = der_pdu_wire[OF assms(2)]
  note p = decode_pdu_encoded(1)[OF e l(1)] decode_pdu_encoded(2)[OF e l(1)]
  have b: "unwrap_or_u32 0 n = n" if "unat n < 2147483648" for n
    using that sint_of_small[of n] by (simp add: unwrap_or_u32_def u32_try_from_i32_def)
  have t: "TAG_GET_REQUEST \<in> set VALID_STANDARD_PDU_TAGS" "TAG_GET_NEXT_REQUEST \<in> set VALID_STANDARD_PDU_TAGS"
    "TAG_SET_REQUEST \<in> set VALID_STANDARD_PDU_TAGS" "TAG_GET_NEXT_REQUEST \<noteq> TAG_GET_REQUEST"
    "TAG_SET_REQUEST \<noteq> TAG_GET_REQUEST" "TAG_SET_REQUEST \<noteq> TAG_GET_NEXT_REQUEST"
    by (simp_all add: VALID_STANDARD_PDU_TAGS_def) (simp_all add: tag_defs)
  have r: "decode_pdu (wire_pdu TAG_GET_REQUEST rid 0 0 arcs) = Inr (PduGetRequest \<lparr>get_request_id = RequestId rid, get_varbinds = [?vb]\<rparr>)"
    "decode_pdu (wire_pdu TAG_GET_NEXT_REQUEST rid 0 0 arcs) = Inr (PduGetNextRequest \<lparr>getnext_request_id = RequestId rid, getnext_varbinds = [?vb]\<rparr>)"
    "decode_pdu (wire_pdu TAG_SET_REQUEST rid 0 0 arcs) = Inr (PduSetRequest \<lparr>set_request_id = RequestId rid, set_varbinds = [?vb]\<rparr>)"
    "unat nr < 2147483648 \<Longrightarrow> unat mr < 2147483648 \<Longrightarrow> decode_pdu (wire_pdu TAG_GET_BULK_REQUEST rid nr mr arcs) = Inr (PduGetBulkRequest
       \<lparr>bulk_request_id = RequestId rid, bulk_non_repeaters = nr, bulk_max_repetitions = mr, bulk_varbinds = [?vb]\<rparr>)"
    for rid nr mr
    by (simp_all add: wire_pdu_def p t d b)
  show thesis
    using assms(1)
    by (cases rule: one_name.cases)
      (rule that[OF refl]; use assms(2) in \<open>simp add: single_varbind_pdu_def w r rasn_varbind_def\<close>)+
qed

definition agent_frame :: "i32 \<Rightarrow> i32 \<Rightarrow> u8 \<Rightarrow> UsmFields \<Rightarrow> bytes \<Rightarrow> bytes \<Rightarrow> bytes \<Rightarrow> bytes" where
  "agent_frame mid sz fl usm ce c raw = encoded_v3 (frame_header mid sz fl) usm (scoped_body (ScopedPlaintext ce c raw))"

lemma rasn_frame:
  assumes "rasn_ok r" "one_name pdus arcs" "valid_components arcs"
    and "length e < 65536" "length u < 65536" "length ap < 65536" "length ce < 65536" "length c < 65536"
  shows "decode_pdu (der_pdus pdus) = Inr (pdus_request pdus)" "length (der_pdus pdus) \<le> 800"
    "rasn_encode_usm r \<lparr>up_authoritative_engine_id = e, up_authoritative_engine_boots = sint (b::i32),
       up_authoritative_engine_time = sint (t::i32), up_user_name = u, up_authentication_parameters = ap,
       up_privacy_parameters = []\<rparr> = Inr (tlv TAG_SEQUENCE (usm_body (frame_usm e b t u ap)))"
    "rasn_encode_message r \<lparr>vm_version = 3,
       vm_global_data = \<lparr>rh_message_id = sint (mid::i32), rh_max_size = sint (sz::i32), rh_flags = [fl], rh_security_model = 3\<rparr>,
       vm_security_parameters = tlv TAG_SEQUENCE (usm_body (frame_usm e b t u ap)),
       vm_scoped_data = CleartextPdu \<lparr>rs_engine_id = ce, rs_name = c, rs_data = pdus\<rparr>\<rparr>
       = Inr (agent_frame mid sz fl (frame_usm e b t u ap) ce c (der_pdus pdus))"
proof -
  obtain raw where raw: "der_pdus pdus = raw" "length raw \<le> 800" "decode_pdu raw = Inr (pdus_request pdus)"
    "list_all (\<lambda>vb. valid_components (rvb_name vb)) (pdus_varbinds pdus)"
    using assms(2,3) by (rule one_name_wire)
  show "decode_pdu (der_pdus pdus) = Inr (pdus_request pdus)" "length (der_pdus pdus) \<le> 800" using raw by simp_all
  show "rasn_encode_usm r \<lparr>up_authoritative_engine_id = e, up_authoritative_engine_boots = sint b,
       up_authoritative_engine_time = sint t, up_user_name = u, up_authentication_parameters = ap,
       up_privacy_parameters = []\<rparr> = Inr (tlv TAG_SEQUENCE (usm_body (frame_usm e b t u ap)))"
    using assms(1) der_usm_wire(1)[OF assms(4-6), of b t] by (simp add: rasn_ok_def)
  show "rasn_encode_message r \<lparr>vm_version = 3,
       vm_global_data = \<lparr>rh_message_id = sint mid, rh_max_size = sint sz, rh_flags = [fl], rh_security_model = 3\<rparr>,
       vm_security_parameters = tlv TAG_SEQUENCE (usm_body (frame_usm e b t u ap)),
       vm_scoped_data = CleartextPdu \<lparr>rs_engine_id = ce, rs_name = c, rs_data = pdus\<rparr>\<rparr>
       = Inr (agent_frame mid sz fl (frame_usm e b t u ap) ce c (der_pdus pdus))"
    using assms(1) raw(4) der_message_wire[OF assms(4-8) refl raw(2)[folded raw(1)], where b = b and t = t]
    by (simp add: rasn_ok_def agent_frame_def)
qed

text \<open>A frame with a user name of at most 32 octets and a message ID and size the agent accepts is decoded
  to its fields.\<close>

definition frame_message :: "i32 \<Rightarrow> i32 \<Rightarrow> u8 \<Rightarrow> UsmFields \<Rightarrow> bytes \<Rightarrow> bytes \<Rightarrow> InboundPdu \<Rightarrow> bytes \<Rightarrow> V3InboundMessage" where
  "frame_message mid sz fl usm ce c pdu raw =
     \<lparr>v3_msg_id = MessageId mid, v3_max_size = sz, v3_security_model = SecurityModel 3, v3_engine_id = ce,
      v3_context_name = c, v3_user_name = uf_user_name usm, v3_scoped_data = Plaintext pdu,
      v3_usm = \<lparr>usf_auth_engine_id = uf_engine_id usm, usf_auth_engine_boots = uf_engine_boots usm,
        usf_auth_engine_time = uf_engine_time usm, usf_security_flags = MsgFlags fl,
        usf_auth_params = res_ok (auth_params_try_from (uf_auth_params usm)),
        usf_priv_params = res_ok (privacy_salt_try_from (uf_priv_params usm))\<rparr>,
      v3_raw_message = agent_frame mid sz fl usm ce c raw,
      v3_auth_params_offset = (if uf_auth_params usm = [] then None
        else Some (length (auth_prefix (frame_header mid sz fl) usm (scoped_body (ScopedPlaintext ce c raw)))))\<rparr>"

lemma agent_frame_length:
  assumes "length (uf_engine_id usm) < 65536" "length (uf_user_name usm) < 65536" "length (uf_auth_params usm) < 65536"
    "uf_priv_params usm = []" "length ce < 65536" "length c < 65536" "length raw \<le> 800"
  shows "length (agent_frame mid sz fl usm ce c raw) < 9223372036854775808"
  using assms length_encoded_v3_le[of "frame_header mid sz fl" usm "scoped_body (ScopedPlaintext ce c raw)"]
    length_scoped_body_le[of ce c raw] by (simp add: agent_frame_def)

lemma agent_frame_decodes:
  assumes "length (agent_frame mid sz fl usm ce c raw) < 9223372036854775808"
    and "0 \<le> sint mid" "484 \<le> sint sz" "length (uf_user_name usm) \<le> 32"
    and "0 \<le> sint (uf_engine_boots usm)" "0 \<le> sint (uf_engine_time usm)" "decode_pdu raw = Inr pdu"
  shows "decode_v3_message (agent_frame mid sz fl usm ce c raw) = Inr (frame_message mid sz fl usm ce c pdu raw)"
proof -
  let ?h = "frame_header mid sz fl" let ?sd = "ScopedPlaintext ce c raw"
  obtain decoded where dp: "ber_decode_pdu raw = Inr decoded" "decoded_pdu_to_inbound decoded = Inr pdu"
    using assms(7) by (auto simp: decode_pdu_def result_Inr_iffs)
  have bt: "unwrap_or_u32 0xFFFFFFFF (uf_engine_boots usm) = uf_engine_boots usm"
    "unwrap_or_u32 0xFFFFFFFF (uf_engine_time usm) = uf_engine_time usm"
    using assms(5,6) by (simp_all add: unwrap_or_u32_def u32_try_from_i32_def)
  obtain off where "off = length (auth_prefix ?h usm (scoped_body ?sd))"
    "decode_v3_envelope (encoded_v3 ?h usm (scoped_body ?sd)) = Inr \<lparr>env_msg_id = hd_msg_id ?h,
       env_max_size = hd_max_size ?h, env_security_flags = hd_security_flags ?h,
       env_security_model = hd_security_model ?h, env_usm = usm, env_scoped_data = ?sd,
       env_raw_message = encoded_v3 ?h usm (scoped_body ?sd),
       env_auth_params_offset = (if uf_auth_params usm = [] then None else Some off)\<rparr>"
    by (rule decode_encoded_v3[of ?h usm ?sd]) (use assms in \<open>simp_all add: agent_frame_def\<close>)
  then show ?thesis using dp bt
    by (simp add: agent_frame_def decode_v3_message_def frame_message_def Let_def)
qed

lemma frame_message_fields [simp]:
  "v3_msg_id (frame_message mid sz fl usm ce c pdu raw) = MessageId mid"
  "v3_max_size (frame_message mid sz fl usm ce c pdu raw) = sz"
  "v3_security_model (frame_message mid sz fl usm ce c pdu raw) = SecurityModel 3"
  "v3_engine_id (frame_message mid sz fl usm ce c pdu raw) = ce"
  "v3_context_name (frame_message mid sz fl usm ce c pdu raw) = c"
  "v3_user_name (frame_message mid sz fl usm ce c pdu raw) = uf_user_name usm"
  "v3_scoped_data (frame_message mid sz fl usm ce c pdu raw) = Plaintext pdu"
  "usf_auth_engine_id (v3_usm (frame_message mid sz fl usm ce c pdu raw)) = uf_engine_id usm"
  "usf_auth_engine_boots (v3_usm (frame_message mid sz fl usm ce c pdu raw)) = uf_engine_boots usm"
  "usf_auth_engine_time (v3_usm (frame_message mid sz fl usm ce c pdu raw)) = uf_engine_time usm"
  "usf_security_flags (v3_usm (frame_message mid sz fl usm ce c pdu raw)) = MsgFlags fl"
  by (simp_all add: frame_message_def)

text \<open>The MAC field of a frame verifies if it holds the MAC of the frame with zeros in its place.\<close>

lemma frame_mac_verifies:
  assumes "crypto_ok cr" "length (agent_frame mid sz fl usm ce c raw) < 9223372036854775808"
    and "uf_auth_params usm \<noteq> []"
    and "compute_mac cr p k (agent_frame mid sz fl (usm\<lparr>uf_auth_params := replicate (length (uf_auth_params usm)) 0\<rparr>) ce c raw)
      = Inr (uf_auth_params usm)"
  shows "verify_hmac cr p k (received_mac (frame_message mid sz fl usm ce c pdu raw))"
proof -
  let ?h = "frame_header mid sz fl" let ?s = "scoped_body (ScopedPlaintext ce c raw)"
  let ?off = "length (auth_prefix ?h usm ?s)" let ?m = "encoded_v3 ?h usm ?s"
  have r: "received_mac (frame_message mid sz fl usm ce c pdu raw)
      = \<lparr>hi_raw_message = ?m, hi_auth_params = uf_auth_params usm, hi_auth_params_offset = Some ?off\<rparr>"
    using assms(3) by (simp add: received_mac_def frame_message_def agent_frame_def auth_params_try_from_def)
  have "?off + length (uf_auth_params usm) \<le> length ?m" by (subst encoded_v3_split) simp
  moreover have "slice_set ?m ?off (replicate (length (uf_auth_params usm)) 0)
      = encoded_v3 ?h (usm\<lparr>uf_auth_params := replicate (length (uf_auth_params usm)) 0\<rparr>) ?s"
    by (rule encoded_v3_exchange) simp
  ultimately show ?thesis using assms(2,4) verify_hmac_iff[OF assms(1), of ?off "uf_auth_params usm" ?m p k]
    unfolding r by (simp add: agent_frame_def)
qed

lemma negative_id_rejected:
  assumes "length (agent_frame mid sz fl usm ce c raw) < 9223372036854775808" "sint mid < 0"
  shows "\<exists>e. decode_v3_message (agent_frame mid sz fl usm ce c raw) = Inl e"
proof -
  let ?h = "frame_header mid sz fl" let ?s = "scoped_body (ScopedPlaintext ce c raw)"
  obtain mr ro mr1 where m: "read_sequence (reader_new (encoded_v3 ?h usm ?s)) = Inr (mr, ro)"
    "read_integer mr = Inr (SNMPV3_VERSION, mr1)" "reader_wf mr1"
    "reader_rest mr1 = tlv TAG_SEQUENCE (header_body ?h) @ oct_tlv (tlv TAG_SEQUENCE (usm_body usm)) @ ?s"
    using assms(1) unfolding agent_frame_def by (rule read_encoded_v3)
  obtain hr where h: "read_sequence mr1 = Inr (hr, advance (length (tlv TAG_SEQUENCE (header_body ?h))) mr1)"
    "reader_wf hr" "reader_rest hr = header_body ?h"
    using m(3,4) by (rule read_sequence_obtain)
  have r: "reader_rest hr = i32_tlv mid @ i32_tlv sz @ oct_tlv [fl] @ i32_tlv 3" using h(3) by (simp add: header_body_def)
  obtain hr1 where "read_integer hr = Inr (mid, hr1)"
    using h(2) r by (rule read_integer_obtain)
  then have "decode_header_data mr1 = Inl (BerMessage ''msgID must be non-negative'')"
    using h(1) assms(2) by (simp add: decode_header_data_def)
  then show ?thesis using m(1,2) by (simp add: decode_v3_message_def decode_v3_envelope_def agent_frame_def)
qed

end
