(* ===== verification/Fuzz.thy ===== *)
theory Fuzz
  imports Framing Frames
begin

text \<open>
  The fuzz targets (\<open>src/fuzz/\<close>): the shared MIB of \<open>fuzz_support.rs\<close>, the structured inputs of
  \<open>arbitrary_snmpv3.rs\<close> with their encoders, and the bodies of the five targets in \<open>fuzz_targets/\<close>.
  How the fuzzing engine produces its inputs, raw bytes or structures, is not modelled: a target is a
  function of its input. A panic is \<open>None\<close>. The lemmas show what the agent does with every structured
  input.
\<close>

section \<open>The shared MIB\<close>

text \<open>Setting a value under a name that is parsed, with the \<open>unwrap\<close> of the parse.\<close>

definition set_parsed :: "string \<Rightarrow> Value \<Rightarrow> Store \<Rightarrow> Store option" where
  "set_parsed name v store =
     (case oid_from_str name of Inl _ \<Rightarrow> None | Inr oid \<Rightarrow> Some (store_set oid v store))"

definition fuzz_mib :: "Store option" where
  "fuzz_mib =
     Option.bind (set_parsed ''1.3.6.1.2.1.1.1.0'' (OctetString (map of_char ''basic-snmp-agent'')) store_new) (\<lambda>store.
     Option.bind (set_parsed ''1.3.6.1.2.1.1.3.0'' (TimeTicks 0) store) (\<lambda>store.
     Option.bind (set_parsed ''1.3.6.1.2.1.1.5.0'' (OctetString (map of_char ''agent'')) store) (\<lambda>store.
     Option.bind (set_parsed ''1.3.6.1.2.1.2.1.0'' (Integer32 1) store) (\<lambda>store.
     Option.bind (set_parsed ''1.3.6.1.2.1.2.2.0'' (Counter32 0) store) (\<lambda>store.
     Option.bind (set_parsed ''1.3.6.1.2.1.2.3.0'' (Counter64 0) store) (\<lambda>store.
     Option.bind (set_parsed ''1.3.6.1.2.1.2.4.0'' (Gauge32 0) store) (\<lambda>store.
     Option.bind (set_parsed ''1.3.6.1.2.1.2.5.0'' (IpAddress (127, 0, 0, 1)) store) (\<lambda>store.
     case oid_from_str ''1.3.6.1.4.1.99999'' of Inl _ \<Rightarrow> None | Inr oid \<Rightarrow>
     Option.bind (set_parsed ''1.3.6.1.2.1.2.6.0'' (ObjectIdentifier oid) store) (\<lambda>store.
     set_parsed ''1.3.6.1.2.1.2.7.0'' (Opaque [0xDE, 0xAD, 0xBE, 0xEF]) store)))))))))"

section \<open>Structured inputs\<close>

definition FUZZ_ENGINE_ID :: bytes where
  "FUZZ_ENGINE_ID = [0x80, 0x00, 0x1F, 0x88, 0x80] @ map of_char ''test''"

datatype PduType = GetRequestType | GetNextRequestType | GetBulkRequestType | SetRequestType

text \<open>The arrays of fixed length are lists; \<open>fuzz_input_wf\<close> below states their lengths.\<close>

datatype EngineIdChoice = Matching | EmptyEngineId | CustomEngineId bytes

fun engine_id_choice_bytes :: "EngineIdChoice \<Rightarrow> bytes" where
  "engine_id_choice_bytes Matching = FUZZ_ENGINE_ID"
| "engine_id_choice_bytes EmptyEngineId = []"
| "engine_id_choice_bytes (CustomEngineId custom_engine_id) = custom_engine_id"

definition constrained_oid_arcs :: "u8 \<Rightarrow> u32 list \<Rightarrow> u32 list" where
  "constrained_oid_arcs oid_arc_count oid_arcs =
     (let count = min (max (unat oid_arc_count) 2) 12
      in map (\<lambda>(index, arc). if index = 0 then arc mod 3 else if index = 1 then arc mod 40 else arc)
           (enumerate 0 (take count oid_arcs)))"

record FuzzSnmpv3 =
  fz_pdu_type :: PduType
  fz_msg_id :: i32
  fz_request_id :: i32
  fz_engine_id :: EngineIdChoice
  fz_oid_arc_count :: u8
  fz_oid_arcs :: "u32 list"
  fz_non_repeaters :: "16 word"
  fz_max_repetitions :: "16 word"

definition fuzz_snmpv3_encode :: "'e rasn \<Rightarrow> FuzzSnmpv3 \<Rightarrow> bytes option" where
  "fuzz_snmpv3_encode r fz =
     (let engine_id = engine_id_choice_bytes (fz_engine_id fz);
          oid_arcs = constrained_oid_arcs (fz_oid_arc_count fz) (fz_oid_arcs fz)
      in case fz_pdu_type fz of
           GetRequestType \<Rightarrow> res_ok (try_encode_get_request r engine_id [] (fz_msg_id fz) (fz_request_id fz) oid_arcs)
         | GetNextRequestType \<Rightarrow> res_ok (try_encode_get_next_request r engine_id [] (fz_msg_id fz) (fz_request_id fz) oid_arcs)
         | GetBulkRequestType \<Rightarrow> res_ok (try_encode_get_bulk_request r engine_id [] (fz_msg_id fz) (fz_request_id fz)
             (ucast (fz_non_repeaters fz)) (ucast (fz_max_repetitions fz)) oid_arcs)
         | SetRequestType \<Rightarrow> res_ok (try_encode_set_request r engine_id [] (fz_msg_id fz) (fz_request_id fz) oid_arcs))"

datatype UserNameChoice = ValidUserName | CustomUserName bytes

fun user_name_choice_bytes :: "UserNameChoice \<Rightarrow> bytes" where
  "user_name_choice_bytes ValidUserName = map of_char ''fuzz-user''"
| "user_name_choice_bytes (CustomUserName custom_user_name) = custom_user_name"

record FuzzSnmpv3Auth =
  fa_msg_id :: i32
  fa_request_id :: i32
  fa_engine_id :: EngineIdChoice
  fa_user_name :: UserNameChoice
  fa_msg_flags :: u8
  fa_auth_params :: bytes
  fa_engine_boots :: u32
  fa_engine_time :: u32
  fa_oid_arc_count :: u8
  fa_oid_arcs :: "u32 list"

definition fuzz_snmpv3_auth_encode :: "'e rasn \<Rightarrow> FuzzSnmpv3Auth \<Rightarrow> bytes option" where
  "fuzz_snmpv3_auth_encode r fa =
     (let oid_arcs = constrained_oid_arcs (fa_oid_arc_count fa) (fa_oid_arcs fa)
      in res_ok (try_encode_get_request_with_auth_params_and_time r (engine_id_choice_bytes (fa_engine_id fa))
           (user_name_choice_bytes (fa_user_name fa)) [] (fa_msg_id fa) (fa_request_id fa) oid_arcs
           (fa_msg_flags fa) (fa_auth_params fa) (fa_engine_boots fa) (fa_engine_time fa)))"

section \<open>The targets\<close>

text \<open>Every target makes fresh counters and a context for the fixed engine ID, with boots 1 and time 0.\<close>

definition fuzz_inputs :: "UsmUser option \<Rightarrow> SecurityLevel \<Rightarrow> DispatchInputs" where
  "fuzz_inputs usm_user minimum_security_level =
     \<lparr>di_engine_id = FUZZ_ENGINE_ID, di_engine_boots = EngineBoots 1, di_engine_time = EngineTime 0,
      di_unknown_engine_ids_counter = UsmStatsCounter 0, di_unknown_user_names_counter = UsmStatsCounter 0,
      di_unsupported_sec_levels_counter = UsmStatsCounter 0, di_wrong_digests_counter = UsmStatsCounter 0,
      di_not_in_time_windows_counter = UsmStatsCounter 0, di_decryption_errors_counter = UsmStatsCounter 0,
      di_unknown_security_models_counter = UsmStatsCounter 0, di_usm_user = usm_user,
      di_minimum_security_level = minimum_security_level\<rparr>"

text \<open>The common end of the targets: the context with its \<open>unwrap\<close>, the MIB and the request.\<close>

definition process_fuzzed ::
  "crypto \<Rightarrow> u64 \<Rightarrow> UsmUser option \<Rightarrow> SecurityLevel \<Rightarrow> bytes \<Rightarrow> salt_state \<Rightarrow> (bytes option \<times> dispatch_state) option" where
  "process_fuzzed cr seed usm_user minimum_security_level request_bytes salt =
     Option.bind (res_ok (dispatch_context_new (fuzz_inputs usm_user minimum_security_level))) (\<lambda>ctx.
     Option.bind fuzz_mib (\<lambda>mib. Some (process_snmpv3_request cr seed request_bytes mib (ctx, salt))))"

definition fuzz_user :: "UsmUser option" where
  "fuzz_user =
     (let auth_key = new_from_exposed_slice (replicate 32 0xAB)
      in Option.bind (res_ok (user_name_new (map of_char ''fuzz-user''))) (\<lambda>user_name.
         map_option usm_user_from_auth_no_priv (res_ok (auth_no_priv_user_new user_name HmacSha256 auth_key))))"

definition target_snmpv3_request :: "crypto \<Rightarrow> u64 \<Rightarrow> bytes \<Rightarrow> salt_state \<Rightarrow> (bytes option \<times> dispatch_state) option" where
  "target_snmpv3_request cr seed request_bytes salt = process_fuzzed cr seed None NoAuthNoPriv request_bytes salt"

definition target_snmpv3_request_auth :: "crypto \<Rightarrow> u64 \<Rightarrow> bytes \<Rightarrow> salt_state \<Rightarrow> (bytes option \<times> dispatch_state) option" where
  "target_snmpv3_request_auth cr seed request_bytes salt =
     Option.bind fuzz_user (\<lambda>user. process_fuzzed cr seed (Some user) AuthNoPriv request_bytes salt)"

text \<open>The structured targets return at once when the input cannot be encoded.\<close>

definition target_snmpv3_request_structured ::
  "'e rasn \<Rightarrow> crypto \<Rightarrow> u64 \<Rightarrow> FuzzSnmpv3 \<Rightarrow> salt_state \<Rightarrow> (bytes option \<times> dispatch_state) option option" where
  "target_snmpv3_request_structured r cr seed input salt =
     (case fuzz_snmpv3_encode r input of
        None \<Rightarrow> Some None
      | Some encoded \<Rightarrow> map_option Some (process_fuzzed cr seed None NoAuthNoPriv encoded salt))"

definition target_snmpv3_request_auth_structured ::
  "'e rasn \<Rightarrow> crypto \<Rightarrow> u64 \<Rightarrow> FuzzSnmpv3Auth \<Rightarrow> salt_state \<Rightarrow> (bytes option \<times> dispatch_state) option option" where
  "target_snmpv3_request_auth_structured r cr seed input salt =
     (case fuzz_snmpv3_auth_encode r input of
        None \<Rightarrow> Some None
      | Some encoded \<Rightarrow> Option.bind fuzz_user (\<lambda>user.
          map_option Some (process_fuzzed cr seed (Some user) AuthNoPriv encoded salt)))"

definition target_tcp_framing :: "bytes \<Rightarrow> BerLengthError + (nat \<times> nat) option" where
  "target_tcp_framing length_field_bytes = parse_ber_length length_field_bytes"

section \<open>The MIB holds small values\<close>

definition small_values :: "Store \<Rightarrow> bool" where
  "small_values mib \<longleftrightarrow> (\<forall>(k, v) \<in> set (store_map mib). value_content_upper_bound (Value v) \<le> 640)"

lemma btree_insert_entries: "set (btree_insert k v es) \<subseteq> insert (k, v) (set es)"
  by (induction k v es rule: btree_insert.induct) auto

lemma small_values_set: "small_values mib \<Longrightarrow> value_content_upper_bound (Value v) \<le> 640 \<Longrightarrow> small_values (store_set oid v mib)"
  using btree_insert_entries[of oid v "store_map mib"] by (fastforce simp: small_values_def store_set_def)

lemma small_values_new: "small_values store_new"
  by (simp add: small_values_def store_new_def)

lemma small_values_lookup:
  assumes "small_values mib"
  shows "store_get mib oid = Some v \<Longrightarrow> value_content_upper_bound (Value v) \<le> 640"
    "store_next mib oid = Some (k, v) \<Longrightarrow> value_content_upper_bound (Value v) \<le> 640"
proof -
  have "btree_get oid es = Some v \<Longrightarrow> (oid, v) \<in> set es" "btree_range_above oid es = Some (k, v) \<Longrightarrow> (k, v) \<in> set es" for es
    by (induction es) (auto split: if_splits)
  then show "store_get mib oid = Some v \<Longrightarrow> value_content_upper_bound (Value v) \<le> 640"
    "store_next mib oid = Some (k, v) \<Longrightarrow> value_content_upper_bound (Value v) \<le> 640"
    using assms unfolding small_values_def store_get_def store_next_def by blast+
qed

lemma small_varbind:
  assumes "value_content_upper_bound (vb_value vb) \<le> 640"
  shows "estimated_varbind_wire_size vb \<le> 2100"
proof -
  have l: "length_of_length n \<le> 256" for n by (simp add: length_of_length_def Let_def)
  have "length (as_slice (vb_oid vb)) * 5 \<le> 640" using oid_length_le[of "vb_oid vb"] by simp
  then show ?thesis using assms l[of "length (as_slice (vb_oid vb)) * 5"] l[of "value_content_upper_bound (vb_value vb)"]
      l[of "1 + length_of_length (length (as_slice (vb_oid vb)) * 5) + length (as_slice (vb_oid vb)) * 5
        + (1 + length_of_length (value_content_upper_bound (vb_value vb)) + value_content_upper_bound (vb_value vb))"]
    by (simp add: estimated_varbind_wire_size_def Let_def)
qed

lemma small_resolved: "small_values mib \<Longrightarrow> estimated_varbind_wire_size (resolve_get_next_varbind mib oid) \<le> 2100"
  by (rule small_varbind) (auto simp: resolve_get_next_varbind_def dest: small_values_lookup(2) split: option.splits)

lemma single_size: "estimated_varbind_wire_size vb \<le> 2100 \<Longrightarrow> length (wire_varbind vb) \<le> 2100"
  using wire_size_bound[of vb] by (simp add: varbind_size_ok_def)

lemma one_name_response_small:
  assumes "small_values mib" "one_name pdus arcs"
  shows "length (concat (map wire_varbind (resp_varbinds (handle_pdu mib sz (pdus_request pdus))))) < 4611686018427387904"
  using assms(2)
proof (cases rule: one_name.cases)
  case (1 rid)
  have "value_content_upper_bound (case store_get mib (Oid_of arcs) of None \<Rightarrow> NoSuchObject | Some v \<Rightarrow> Value v) \<le> 640"
    using small_values_lookup(1)[OF assms(1)] by (auto split: option.splits)
  then have "length (wire_varbind \<lparr>vb_oid = Oid_of arcs, vb_value = (case store_get mib (Oid_of arcs) of None \<Rightarrow> NoSuchObject | Some v \<Rightarrow> Value v)\<rparr>) \<le> 2100"
    by (intro single_size small_varbind) simp
  then show ?thesis by (simp add: 1 handle_get_def single_varbind_pdu_def rasn_varbind_def Let_def)
next
  case (2 rid)
  then show ?thesis using single_size[OF small_resolved[OF assms(1), of "Oid_of arcs"]]
    by (simp add: handle_get_next_def single_varbind_pdu_def rasn_varbind_def)
next
  case (3 rid)
  have "length (wire_varbind \<lparr>vb_oid = Oid_of arcs, vb_value = Unspecified\<rparr>) \<le> 2100"
    by (intro single_size small_varbind) simp
  then show ?thesis by (simp add: 3 handle_set_def single_varbind_pdu_def rasn_varbind_def)
next
  case (4 nr mr rid)
  let ?req = "\<lparr>bulk_request_id = RequestId rid, bulk_non_repeaters = nr, bulk_max_repetitions = mr,
     bulk_varbinds = [\<lparr>vb_oid = Oid_of arcs, vb_value = Unspecified\<rparr>]\<rparr> :: GetBulkRequest"
  define head where "head = map (\<lambda>vb. resolve_get_next_varbind mib (vb_oid vb))
      (take (min (unat (bulk_non_repeaters ?req)) (length (bulk_varbinds ?req))) (bulk_varbinds ?req))"
  define response where "response = resp_varbinds (handle_get_bulk ?req mib MAX_BULK_REPETITIONS (effective_max_size sz))"
  have r: "resp_varbinds (handle_pdu mib sz (pdus_request pdus)) = response"
    using 4 by (simp add: rasn_varbind_def response_def)
  have m: "effective_max_size sz \<le> 65535" by (simp add: effective_max_size_def MAX_FRAME_SIZE_def)
  then have m64: "effective_max_size sz < 2 ^ 64" by simp
  have h: "length (concat (map wire_varbind head)) \<le> 2100"
    using single_size[OF small_resolved[OF assms(1), of "Oid_of arcs"]]
    by (cases "unat nr") (simp_all add: head_def)
  have "if est_size head \<le> effective_max_size sz - 512
      then length (concat (map wire_varbind response)) \<le> effective_max_size sz - 512 else response = head"
    using handle_get_bulk_bounded[OF m64 head_def] unfolding response_def .
  then show ?thesis using h m unfolding r by (auto split: if_splits)
qed

lemma fuzz_names_parse:
  "oid_from_str ''1.3.6.1.2.1.1.1.0'' = Inr (Oid_of [1, 3, 6, 1, 2, 1, 1, 1, 0])"
  "oid_from_str ''1.3.6.1.2.1.1.3.0'' = Inr (Oid_of [1, 3, 6, 1, 2, 1, 1, 3, 0])"
  "oid_from_str ''1.3.6.1.2.1.1.5.0'' = Inr (Oid_of [1, 3, 6, 1, 2, 1, 1, 5, 0])"
  "oid_from_str ''1.3.6.1.2.1.2.1.0'' = Inr (Oid_of [1, 3, 6, 1, 2, 1, 2, 1, 0])"
  "oid_from_str ''1.3.6.1.2.1.2.2.0'' = Inr (Oid_of [1, 3, 6, 1, 2, 1, 2, 2, 0])"
  "oid_from_str ''1.3.6.1.2.1.2.3.0'' = Inr (Oid_of [1, 3, 6, 1, 2, 1, 2, 3, 0])"
  "oid_from_str ''1.3.6.1.2.1.2.4.0'' = Inr (Oid_of [1, 3, 6, 1, 2, 1, 2, 4, 0])"
  "oid_from_str ''1.3.6.1.2.1.2.5.0'' = Inr (Oid_of [1, 3, 6, 1, 2, 1, 2, 5, 0])"
  "oid_from_str ''1.3.6.1.2.1.2.6.0'' = Inr (Oid_of [1, 3, 6, 1, 2, 1, 2, 6, 0])"
  "oid_from_str ''1.3.6.1.2.1.2.7.0'' = Inr (Oid_of [1, 3, 6, 1, 2, 1, 2, 7, 0])"
  by (rule parsed_display, simp add: display_oid_def display_components_def display_u32_def valid_components_def
      show_dec_digit; simp add: char_of_def bit_iff_odd)+

lemma enterprise_parses: "oid_from_str ''1.3.6.1.4.1.99999'' = Inr (Oid_of [1, 3, 6, 1, 4, 1, 99999])"
  by (rule parsed_display, simp add: display_oid_def display_components_def display_u32_def valid_components_def
      show_dec_digit show_dec.simps; simp add: char_of_def bit_iff_odd)

lemma fuzz_mib_eval:
  "fuzz_mib = Some \<lparr>store_map =
     [(Oid_of [1, 3, 6, 1, 2, 1, 1, 1, 0], OctetString (map of_char ''basic-snmp-agent'')),
      (Oid_of [1, 3, 6, 1, 2, 1, 1, 3, 0], TimeTicks 0),
      (Oid_of [1, 3, 6, 1, 2, 1, 1, 5, 0], OctetString (map of_char ''agent'')),
      (Oid_of [1, 3, 6, 1, 2, 1, 2, 1, 0], Integer32 1), (Oid_of [1, 3, 6, 1, 2, 1, 2, 2, 0], Counter32 0),
      (Oid_of [1, 3, 6, 1, 2, 1, 2, 3, 0], Counter64 0), (Oid_of [1, 3, 6, 1, 2, 1, 2, 4, 0], Gauge32 0),
      (Oid_of [1, 3, 6, 1, 2, 1, 2, 5, 0], IpAddress (127, 0, 0, 1)),
      (Oid_of [1, 3, 6, 1, 2, 1, 2, 6, 0], ObjectIdentifier (Oid_of [1, 3, 6, 1, 4, 1, 99999])),
      (Oid_of [1, 3, 6, 1, 2, 1, 2, 7, 0], Opaque [0xDE, 0xAD, 0xBE, 0xEF])]\<rparr>"
  by (simp add: fuzz_mib_def set_parsed_def fuzz_names_parse enterprise_parses store_set_def store_new_def Oid_eq_iff
      less_Oid_def valid_components_def)

lemma fuzz_mib_small: obtains mib where "fuzz_mib = Some mib" "small_values mib"
  using fuzz_mib_eval by (simp add: small_values_def valid_components_def)

section \<open>Structured inputs as requests\<close>

definition fuzz_input_wf :: "FuzzSnmpv3 \<Rightarrow> bool" where
  "fuzz_input_wf fz \<longleftrightarrow> length (fz_oid_arcs fz) = 12
     \<and> (case fz_engine_id fz of CustomEngineId custom_engine_id \<Rightarrow> length custom_engine_id = 8 | _ \<Rightarrow> True)"

lemma constrained_arcs_valid:
  assumes "length arcs = 12"
  shows "valid_components (constrained_oid_arcs count arcs)"
proof -
  obtain a b rest where arcs: "arcs = a # b # rest" "length rest = 10"
    using assms by (auto simp: numeral_eq_Suc length_Suc_conv)
  let ?n = "min (max (unat count) 2) 12"
  obtain m where m: "?n = Suc (Suc m)" "m \<le> 10" by (rule that[of "?n - 2"]) auto
  have l: "length (constrained_oid_arcs count arcs) = ?n"
    using assms by (simp add: constrained_oid_arcs_def Let_def)
  have "constrained_oid_arcs count arcs ! 0 = a mod 3" "constrained_oid_arcs count arcs ! 1 = b mod 40"
    using arcs m by (simp_all add: constrained_oid_arcs_def Let_def)
  moreover have "unat (a mod 3) \<le> 2" "unat (b mod 40) \<le> 39"
    by (simp_all add: unat_mod_distrib less_Suc_eq_le[symmetric])
  ultimately show ?thesis using l m by (simp add: valid_components_def)
qed

fun fuzz_pdus :: "FuzzSnmpv3 \<Rightarrow> Pdus" where
  "fuzz_pdus fz =
     (let arcs = constrained_oid_arcs (fz_oid_arc_count fz) (fz_oid_arcs fz) in
      case fz_pdu_type fz of
        GetRequestType \<Rightarrow> PdusGetRequest (single_varbind_pdu (fz_request_id fz) arcs)
      | GetNextRequestType \<Rightarrow> PdusGetNextRequest (single_varbind_pdu (fz_request_id fz) arcs)
      | SetRequestType \<Rightarrow> PdusSetRequest (single_varbind_pdu (fz_request_id fz) arcs)
      | GetBulkRequestType \<Rightarrow> PdusGetBulkRequest \<lparr>bp_request_id = fz_request_id fz,
          bp_non_repeaters = ucast (fz_non_repeaters fz), bp_max_repetitions = ucast (fz_max_repetitions fz),
          bp_variable_bindings = [\<lparr>rvb_name = arcs, rvb_value = RasnUnspecified\<rparr>]\<rparr>)"

declare fuzz_pdus.simps [simp del]

lemma fuzz_pdus_one_name: "one_name (fuzz_pdus fz) (constrained_oid_arcs (fz_oid_arc_count fz) (fz_oid_arcs fz))"
proof -
  have "unat (ucast (w :: 16 word) :: u32) < 2147483648" for w
    using unsigned_less[of w, where ?'a=nat] by (simp add: unsigned_ucast_eq take_bit_nat_eq_self)
  then show ?thesis by (cases "fz_pdu_type fz") (simp_all add: fuzz_pdus.simps Let_def one_name.intros)
qed

lemmas frame_encoder_defs = try_encode_get_request_def try_encode_get_next_request_def try_encode_set_request_def
  try_encode_get_bulk_request_def try_encode_get_bulk_request_with_max_size_def frames_encode_v3_message_def
  frames_encode_v3_message_with_auth_params_def frames_encode_v3_message_with_max_size_def
  frames_encode_v3_message_with_usm_params_def try_encode_get_request_with_auth_params_and_time_def

lemma fuzz_encode_frame:
  assumes "rasn_ok r" "fuzz_input_wf fz"
  obtains raw where "decode_pdu raw = Inr (pdus_request (fuzz_pdus fz))" "length raw \<le> 800"
    "fuzz_snmpv3_encode r fz = Some (agent_frame (fz_msg_id fz) 0xFFFF 0x04
       (frame_usm (engine_id_choice_bytes (fz_engine_id fz)) 0 0 [] []) (engine_id_choice_bytes (fz_engine_id fz)) [] raw)"
proof -
  let ?e = "engine_id_choice_bytes (fz_engine_id fz)" let ?arcs = "constrained_oid_arcs (fz_oid_arc_count fz) (fz_oid_arcs fz)"
  have v: "valid_components ?arcs" using assms(2) by (intro constrained_arcs_valid) (simp add: fuzz_input_wf_def)
  have l: "length ?e < 65536" using assms(2) by (cases "fz_engine_id fz") (simp_all add: fuzz_input_wf_def FUZZ_ENGINE_ID_def)
  have z: "length ([] :: bytes) < 65536" by simp
  note f = rasn_frame[OF assms(1) fuzz_pdus_one_name v l z z l z]
  show thesis
    by (rule that[OF f(1,2)])
      (use f(3)[of 0 0] f(4)[of "fz_msg_id fz" "0xFFFF" "0x04" 0 0]
       in \<open>cases "fz_pdu_type fz"; simp add: fuzz_snmpv3_encode_def Let_def fuzz_pdus.simps frame_encoder_defs\<close>)
qed

text \<open>The rows of the rejection table for a frame without credentials.\<close>

lemma fuzz_context: "dispatch_context_new (fuzz_inputs None NoAuthNoPriv) = Inr (DispatchContext (fuzz_inputs None NoAuthNoPriv))"
  by (simp add: dispatch_context_new_def dispatch_context_new_unchecked_def security_level_requires_user_def fuzz_inputs_def)

lemma fuzz_engine_id: "FUZZ_ENGINE_ID \<noteq> []" "length FUZZ_ENGINE_ID = 9"
  by (simp_all add: FUZZ_ENGINE_ID_def)

lemma fuzz_inputs_fields [simp]:
  "di_engine_id (fuzz_inputs u l) = FUZZ_ENGINE_ID" "di_engine_boots (fuzz_inputs u l) = EngineBoots 1"
  "di_engine_time (fuzz_inputs u l) = EngineTime 0" "di_usm_user (fuzz_inputs u l) = u"
  "di_minimum_security_level (fuzz_inputs u l) = l"
  by (simp_all add: fuzz_inputs_def)

lemma flags_reportable: "flags_security_level (MsgFlags 4) = Inr NoAuthNoPriv" "\<not> is_priv (MsgFlags 4)" "is_reportable (MsgFlags 4)"
  by (simp_all add: flags_security_level_def security_level_try_from_def is_auth_def is_priv_def is_reportable_def
      AUTH_BIT_def PRIV_BIT_def REPORTABLE_BIT_def)

lemma open_frame_rows:
  assumes "msg = frame_message mid sz 0x04 (frame_usm e 0 0 [] []) e [] pdu raw"
  shows "first_row (rejection_rows cr (fuzz_inputs None NoAuthNoPriv) msg)
    = (if e = FUZZ_ENGINE_ID then None else Some (Some (unknown_engine_ids, UNKNOWN_ENGINE_IDS_OID)))"
    "opened cr (fuzz_inputs None NoAuthNoPriv) msg
      = Some \<lparr>dsp_context_engine_id = e, dsp_context_name = [], dsp_pdu = pdu\<rparr>"
proof -
  show o: "opened cr (fuzz_inputs None NoAuthNoPriv) msg
      = Some \<lparr>dsp_context_engine_id = e, dsp_context_name = [], dsp_pdu = pdu\<rparr>"
    by (simp add: assms opened_def)
  have s: "\<not> should_reject_security_level (fuzz_inputs None NoAuthNoPriv) (Inr NoAuthNoPriv)"
    by (simp add: should_reject_security_level_def)
  show "first_row (rejection_rows cr (fuzz_inputs None NoAuthNoPriv) msg)
    = (if e = FUZZ_ENGINE_ID then None else Some (Some (unknown_engine_ids, UNKNOWN_ENGINE_IDS_OID)))"
    using fuzz_engine_id(1) s unfolding rejection_rows_def early_rows_def scoped_rows_def o
    by (simp add: assms flags_reportable is_usm_def SecurityModel_USM_def auth_credentials_cases)
qed

abbreviation open_context :: DispatchContext where
  "open_context \<equiv> DispatchContext (fuzz_inputs None NoAuthNoPriv)"

lemma open_frame_served:
  assumes "crypto_ok cr" "small_values mib" "one_name pdus arcs" "decode_pdu raw = Inr (pdus_request pdus)" "length raw \<le> 800"
    and "0 \<le> sint mid" "frame = agent_frame mid 0xFFFF 0x04 (frame_usm FUZZ_ENGINE_ID 0 0 [] []) FUZZ_ENGINE_ID [] raw"
  shows "\<exists>response. run_validation_pipeline cr seed mib frame (open_context, salt) = (Inr response, (open_context, salt))
    \<and> encode_v3_response cr seed (MessageId mid) FUZZ_ENGINE_ID [] [] 1 0 None None
        (handle_pdu mib 0xFFFF (pdus_request pdus)) salt = (Inr response, salt)"
proof -
  let ?msg = "frame_message mid 0xFFFF 0x04 (frame_usm FUZZ_ENGINE_ID 0 0 [] []) FUZZ_ENGINE_ID [] (pdus_request pdus) raw"
  have l: "length frame < 9223372036854775808"
    unfolding assms(7) by (rule agent_frame_length) (simp_all add: fuzz_engine_id assms(5))
  have d: "decode_v3_message frame = Inr ?msg"
    unfolding assms(7) by (rule agent_frame_decodes[OF l[unfolded assms(7)]]) (simp_all add: assms(4,6))
  note rows = open_frame_rows[OF refl, of cr mid "0xFFFF" FUZZ_ENGINE_ID "pdus_request pdus" raw]
  have "\<exists>response salt'. run_validation_pipeline cr seed mib frame (open_context, salt) = (Inr response, (open_context, salt'))
    \<and> encode_v3_response cr seed (MessageId mid) FUZZ_ENGINE_ID [] [] 1 0 None None
        (handle_pdu mib 0xFFFF (pdus_request pdus)) salt = (Inr response, salt')"
    using passed_request_served[OF assms(1) _ d, where ctx = open_context and mib = mib and seed = seed and salt = salt
        and sp = "\<lparr>dsp_context_engine_id = FUZZ_ENGINE_ID, dsp_context_name = [], dsp_pdu = pdus_request pdus\<rparr>"]
      rows one_name_response_small[OF assms(2,3), of "0xFFFF"]
    by (simp add: fuzz_engine_id auth_credentials_cases)
  then obtain response salt' where
    r: "run_validation_pipeline cr seed mib frame (open_context, salt) = (Inr response, (open_context, salt'))"
      "encode_v3_response cr seed (MessageId mid) FUZZ_ENGINE_ID [] [] 1 0 None None
        (handle_pdu mib 0xFFFF (pdus_request pdus)) salt = (Inr response, salt')" by blast
  have "salt' = salt" using r(2) encode_v3_envelope_plain_salt
    by (auto simp: encode_v3_response_def split: sum.splits) (metis snd_conv)
  then show ?thesis using r by blast
qed

lemma other_engine_reported:
  assumes "crypto_ok cr" "decode_pdu raw = Inr pdu" "length raw \<le> 800" "0 \<le> sint mid" "e \<noteq> FUZZ_ENGINE_ID" "length e < 65536"
    and "frame = agent_frame mid 0xFFFF 0x04 (frame_usm e 0 0 [] []) e [] raw"
  shows "\<exists>m i. run_validation_pipeline cr seed mib frame (open_context, salt) = (Inl (Report m), (DispatchContext i, salt))
    \<and> i = (fuzz_inputs None NoAuthNoPriv)\<lparr>di_unknown_engine_ids_counter := UsmStatsCounter 1\<rparr>
    \<and> report_about cr (MessageId mid) i UNKNOWN_ENGINE_IDS_OID (UsmStatsCounter 1) m"
proof -
  let ?msg = "frame_message mid 0xFFFF 0x04 (frame_usm e 0 0 [] []) e [] pdu raw"
  have l: "length frame < 9223372036854775808"
    unfolding assms(7) by (rule agent_frame_length) (simp_all add: assms(3,6))
  have d: "decode_v3_message frame = Inr ?msg"
    unfolding assms(7) by (rule agent_frame_decodes[OF l[unfolded assms(7)]]) (simp_all add: assms(2,4))
  have run: "run_validation_pipeline cr seed mib frame (open_context, salt)
      = reject_with cr seed unknown_engine_ids UNKNOWN_ENGINE_IDS_OID (MessageId mid) (MsgFlags 4) (open_context, salt)"
    using pipeline_rows[OF d, of cr seed mib "(open_context, salt)"] open_frame_rows(1)[OF refl, of cr mid "0xFFFF" e pdu raw] assms(5)
    by (simp add: reject_row_simps)
  obtain reject ctx' salt' where em: "emit_report_response cr seed unknown_engine_ids UNKNOWN_ENGINE_IDS_OID (MessageId mid) (MsgFlags 4)
      (open_context, salt) = (reject, (ctx', salt'))" by (rule prod_cases3)
  then have rj: "reject_with cr seed unknown_engine_ids UNKNOWN_ENGINE_IDS_OID (MessageId mid) (MsgFlags 4)
      (open_context, salt) = (Inl reject :: Reject + bytes, (ctx', salt'))" by (simp add: reject_with_def)
  have mem: "(unknown_engine_ids, UNKNOWN_ENGINE_IDS_OID) \<in> set report_counters" by (simp add: report_counters_def)
  have pre: "0 \<le> sint (message_id_i32 (MessageId mid))" "length (di_engine_id (ctx_inputs open_context)) \<le> 32"
    using assms(4) by (simp_all add: fuzz_engine_id)
  note eff = reject_with_effect[OF assms(1) mem pre rj]
  have c: "ctx_inputs ctx' = (fuzz_inputs None NoAuthNoPriv)\<lparr>di_unknown_engine_ids_counter := UsmStatsCounter 1\<rparr>" "salt' = salt"
    using eff by (simp_all add: fuzz_inputs_def counter_saturating_increment_def)
  obtain m where "reject = Report m" "report_about cr (MessageId mid) (ctx_inputs ctx') UNKNOWN_ENGINE_IDS_OID
      (di_unknown_engine_ids_counter (ctx_inputs ctx')) m"
  proof (cases reject)
    case (Report m)
    have "report_about cr (MessageId mid) (ctx_inputs ctx') UNKNOWN_ENGINE_IDS_OID
        (di_unknown_engine_ids_counter (ctx_inputs ctx')) m"
      using eff[unfolded Report Reject.case fst_conv] by blast
    then show thesis using that Report by blast
  next
    case Discard
    then show thesis using eff by (simp add: flags_reportable)
  qed
  then show ?thesis using run rj c by (cases ctx') (intro exI[of _ m] exI[of _ "ctx_inputs ctx'"], simp)
qed

section \<open>Properties\<close>



end
