(* ===== verification/Seeds.thy ===== *)
theory Seeds
  imports Fuzz "HOL-Library.AList"
begin

text \<open>
  The seed generator of the fuzz targets (\<open>src/fuzz/generate_seeds.rs\<close>). The file system is a map from
  the corpus directories to their entries; which of its operations fail is a parameter. Deserialising
  a structured seed is a parameter too, since the \<open>arbitrary\<close> library does it. A panic is \<open>None\<close>, and
  messages on the standard streams are left out. The lemmas show that a run without I/O faults
  completes with every seed in place, and what cross-pollination leaves behind.
\<close>

section \<open>The file system\<close>

datatype node = FileNode bytes | OtherNode

type_synonym corpus_dir = "(string \<times> node) list"
type_synonym corpus_fs = "string \<rightharpoonup> corpus_dir"

datatype fs_op =
    CreateDirAll string
  | WriteFile string string
  | ReadDir string
  | NextEntry string string
  | FileType string string
  | ReadFile string string
  | RemoveFile string string

type_synonym io_faults = "fs_op \<Rightarrow> bool"

text \<open>Creating and writing with the \<open>expect\<close> or \<open>unwrap_or_else\<close> that every caller has.\<close>

definition create_dir_all :: "io_faults \<Rightarrow> string \<Rightarrow> corpus_fs \<Rightarrow> corpus_fs option" where
  "create_dir_all faults d fs =
     (if faults (CreateDirAll d) then None else Some (if fs d = None then fs(d \<mapsto> []) else fs))"

definition fs_write :: "io_faults \<Rightarrow> string \<Rightarrow> string \<Rightarrow> bytes \<Rightarrow> corpus_fs \<Rightarrow> corpus_fs option" where
  "fs_write faults d name bytes fs =
     (if faults (WriteFile d name) then None
      else case fs d of
             None \<Rightarrow> None
           | Some files \<Rightarrow> if map_of files name = Some OtherNode then None
               else Some (fs(d \<mapsto> AList.update name (FileNode bytes) files)))"

definition fs_remove :: "string \<Rightarrow> string \<Rightarrow> corpus_fs \<Rightarrow> corpus_fs" where
  "fs_remove d name fs = fs(d := map_option (AList.delete name) (fs d))"

section \<open>Seeds\<close>

definition ENGINE_ID :: bytes where
  "ENGINE_ID = [0x80, 0x00, 0x1F, 0x88, 0x80] @ map of_char ''test''"

definition SNMPV3_REQUEST_CORPUS_DIR :: string where "SNMPV3_REQUEST_CORPUS_DIR = ''fuzz/corpus/snmpv3_request''"
definition CROSS_POLLINATED_PREFIX :: string where "CROSS_POLLINATED_PREFIX = ''structured_''"
definition TCP_FRAMING_CORPUS_DIR :: string where "TCP_FRAMING_CORPUS_DIR = ''fuzz/corpus/tcp_framing''"
definition AUTH_CORPUS_DIR :: string where "AUTH_CORPUS_DIR = ''fuzz/corpus/snmpv3_request_auth''"
definition STRUCTURED_CORPUS_DIR :: string where "STRUCTURED_CORPUS_DIR = ''fuzz/corpus/snmpv3_request_structured''"
definition AUTH_STRUCTURED_CORPUS_DIR :: string where
  "AUTH_STRUCTURED_CORPUS_DIR = ''fuzz/corpus/snmpv3_request_auth_structured''"

definition SYSDESCR_OID :: "u32 list" where "SYSDESCR_OID = [1, 3, 6, 1, 2, 1, 1, 1, 0]"

record DispatchCounters =
  dc_unknown_engine_ids :: UsmStatsCounter
  dc_unknown_user_names :: UsmStatsCounter
  dc_unsupported_sec_levels :: UsmStatsCounter
  dc_wrong_digests :: UsmStatsCounter
  dc_not_in_time_windows :: UsmStatsCounter
  dc_decryption_errors :: UsmStatsCounter
  dc_unknown_security_models :: UsmStatsCounter

definition dispatch_counters_new :: DispatchCounters where
  "dispatch_counters_new = \<lparr>dc_unknown_engine_ids = UsmStatsCounter 0, dc_unknown_user_names = UsmStatsCounter 0,
     dc_unsupported_sec_levels = UsmStatsCounter 0, dc_wrong_digests = UsmStatsCounter 0,
     dc_not_in_time_windows = UsmStatsCounter 0, dc_decryption_errors = UsmStatsCounter 0,
     dc_unknown_security_models = UsmStatsCounter 0\<rparr>"

definition counters_context :: "DispatchCounters \<Rightarrow> UsmUser option \<Rightarrow> SecurityLevel \<Rightarrow> DispatchContext option" where
  "counters_context counters usm_user minimum_security_level =
     res_ok (dispatch_context_new
       \<lparr>di_engine_id = ENGINE_ID, di_engine_boots = EngineBoots 1, di_engine_time = EngineTime 0,
        di_unknown_engine_ids_counter = dc_unknown_engine_ids counters,
        di_unknown_user_names_counter = dc_unknown_user_names counters,
        di_unsupported_sec_levels_counter = dc_unsupported_sec_levels counters,
        di_wrong_digests_counter = dc_wrong_digests counters,
        di_not_in_time_windows_counter = dc_not_in_time_windows counters,
        di_decryption_errors_counter = dc_decryption_errors counters,
        di_unknown_security_models_counter = dc_unknown_security_models counters, di_usm_user = usm_user,
        di_minimum_security_level = minimum_security_level\<rparr>)"

definition empty_mib :: Store where "empty_mib = store_new"

fun write_files :: "io_faults \<Rightarrow> string \<Rightarrow> (string \<times> bytes) list \<Rightarrow> corpus_fs \<Rightarrow> corpus_fs option" where
  "write_files faults d [] fs = Some fs"
| "write_files faults d ((name, bytes) # seeds) fs =
     Option.bind (fs_write faults d name bytes fs) (write_files faults d seeds)"

definition write_structured_seeds :: "io_faults \<Rightarrow> string \<Rightarrow> corpus_fs \<Rightarrow> corpus_fs option" where
  "write_structured_seeds faults corpus_dir =
     write_files faults corpus_dir
       [(''zeros'', replicate 128 0), (''ones'', replicate 128 0xFF), (''ascending'', map word_of_nat [0..<128])]"

definition write_tcp_framing_seeds :: "io_faults \<Rightarrow> string \<Rightarrow> corpus_fs \<Rightarrow> corpus_fs option" where
  "write_tcp_framing_seeds faults tcp_corpus =
     write_files faults tcp_corpus
       [(''short_form_zero'', [0x00]), (''short_form_max'', [0x7F]), (''long_form_1_octet'', [0x81, 0x80]),
        (''long_form_2_octets'', [0x82, 0x01, 0x00]), (''long_form_3_octets'', [0x83, 0x01, 0x00, 0x00]),
        (''long_form_4_octets'', [0x84, 0x00, 0x01, 0x00, 0x00]), (''indefinite_length'', [0x80]), (''empty'', [])]"

text \<open>Each request seed must get a response before it is written; the salt counter of the process is
  threaded through the calls.\<close>

fun check_request_seeds ::
  "io_faults \<Rightarrow> crypto \<Rightarrow> u64 \<Rightarrow> string \<Rightarrow> (string \<times> bytes) list \<Rightarrow> corpus_fs \<times> salt_state \<Rightarrow> (corpus_fs \<times> salt_state) option" where
  "check_request_seeds faults cr seed corpus [] s = Some s"
| "check_request_seeds faults cr seed corpus ((name, encoded) # seeds) (fs, salt) =
     Option.bind (counters_context dispatch_counters_new None NoAuthNoPriv) (\<lambda>ctx.
     case process_snmpv3_request cr seed encoded empty_mib (ctx, salt) of
       (None, _) \<Rightarrow> None
     | (Some response, (ctx, salt)) \<Rightarrow>
         Option.bind (fs_write faults corpus name encoded fs) (\<lambda>fs.
           check_request_seeds faults cr seed corpus seeds (fs, salt)))"

definition snmpv3_request_seeds :: "'e rasn \<Rightarrow> (string \<times> bytes) list option" where
  "snmpv3_request_seeds r =
     Option.bind (encode_get_request r ENGINE_ID [] 1 1 SYSDESCR_OID) (\<lambda>get_request.
     Option.bind (encode_get_next_request r ENGINE_ID [] 2 2 SYSDESCR_OID) (\<lambda>get_next_request.
     Option.bind (encode_get_bulk_request r ENGINE_ID [] 3 3 0 10 SYSDESCR_OID) (\<lambda>get_bulk_request.
     Option.bind (encode_set_request r ENGINE_ID [] 4 4 SYSDESCR_OID) (\<lambda>set_request.
     Some [(''get_request'', get_request), (''get_next_request'', get_next_request),
           (''get_bulk_request'', get_bulk_request), (''set_request'', set_request)]))))"

definition write_snmpv3_request_seeds ::
  "io_faults \<Rightarrow> 'e rasn \<Rightarrow> crypto \<Rightarrow> u64 \<Rightarrow> string \<Rightarrow> corpus_fs \<times> salt_state \<Rightarrow> (corpus_fs \<times> salt_state) option" where
  "write_snmpv3_request_seeds faults r cr seed corpus s =
     Option.bind (snmpv3_request_seeds r) (\<lambda>seeds. check_request_seeds faults cr seed corpus seeds s)"

definition build_authenticated_frame :: "'e rasn \<Rightarrow> crypto \<Rightarrow> bytes option" where
  "build_authenticated_frame r cr =
     (let auth_key_for_mac = new_from_exposed_slice (replicate 32 0xAB)
      in Option.bind (encode_get_request_with_auth_params_and_time r ENGINE_ID (map of_char ''fuzz-user'') [] 10 10
           SYSDESCR_OID 0x05 (replicate 24 0) 1 0) (\<lambda>zeroed_frame.
         Option.bind (res_ok (compute_mac cr HmacSha256 auth_key_for_mac zeroed_frame)) (\<lambda>mac.
         encode_get_request_with_auth_params_and_time r ENGINE_ID (map of_char ''fuzz-user'') [] 10 10
           SYSDESCR_OID 0x05 mac 1 0)))"

definition auth_user :: "UsmUser option" where
  "auth_user =
     (let auth_key_for_user = new_from_exposed_slice (replicate 32 0xAB)
      in Option.bind (res_ok (user_name_new (map of_char ''fuzz-user''))) (\<lambda>user_name.
         map_option usm_user_from_auth_no_priv (res_ok (auth_no_priv_user_new user_name HmacSha256 auth_key_for_user))))"

definition auth_seeds :: "'e rasn \<Rightarrow> crypto \<Rightarrow> (string \<times> bytes \<times> bool) list option" where
  "auth_seeds r cr =
     Option.bind (build_authenticated_frame r cr) (\<lambda>valid_hmac.
     Option.bind (encode_get_request_with_auth_params_and_time r ENGINE_ID (map of_char ''fuzz-user'') [] 10 10
       SYSDESCR_OID 0x05 (replicate 24 0) 1 0) (\<lambda>zero_hmac.
     Option.bind (encode_get_request_with_auth_params_and_time r ENGINE_ID (map of_char ''wrong-user'') [] 11 11
       SYSDESCR_OID 0x05 (replicate 24 0) 1 0) (\<lambda>wrong_user.
     Option.bind (encode_get_request_with_user_and_flags r ENGINE_ID (map of_char ''fuzz-user'') [] 12 12
       SYSDESCR_OID 0x04) (\<lambda>noauth.
     Some [(''auth_get_request_valid_hmac'', valid_hmac, True), (''auth_get_request'', zero_hmac, False),
           (''auth_get_request_wrong_user'', wrong_user, False), (''noauth_get_request'', noauth, False)]))))"

fun check_auth_seeds ::
  "io_faults \<Rightarrow> crypto \<Rightarrow> u64 \<Rightarrow> UsmUser \<Rightarrow> string \<Rightarrow> (string \<times> bytes \<times> bool) list \<Rightarrow> corpus_fs \<times> salt_state
    \<Rightarrow> (corpus_fs \<times> salt_state) option" where
  "check_auth_seeds faults cr seed user corpus [] s = Some s"
| "check_auth_seeds faults cr seed user corpus ((name, encoded, expect_response) # seeds) (fs, salt) =
     Option.bind (counters_context dispatch_counters_new (Some user) AuthNoPriv) (\<lambda>ctx.
     case process_snmpv3_request cr seed encoded empty_mib (ctx, salt) of
       (response, (ctx, salt)) \<Rightarrow>
         if expect_response \<and> response = None then None
         else Option.bind (fs_write faults corpus name encoded fs) (\<lambda>fs.
           check_auth_seeds faults cr seed user corpus seeds (fs, salt)))"

definition write_auth_seeds ::
  "io_faults \<Rightarrow> 'e rasn \<Rightarrow> crypto \<Rightarrow> u64 \<Rightarrow> string \<Rightarrow> corpus_fs \<times> salt_state \<Rightarrow> (corpus_fs \<times> salt_state) option" where
  "write_auth_seeds faults r cr seed auth_corpus s =
     Option.bind auth_user (\<lambda>user.
     Option.bind (auth_seeds r cr) (\<lambda>seeds. check_auth_seeds faults cr seed user auth_corpus seeds s))"

section \<open>Cross-pollination\<close>

definition is_cross_pollinated :: "string \<Rightarrow> bool" where
  "is_cross_pollinated name \<longleftrightarrow> take (length CROSS_POLLINATED_PREFIX) name = CROSS_POLLINATED_PREFIX"

fun remove_stale :: "io_faults \<Rightarrow> string \<Rightarrow> corpus_dir \<Rightarrow> corpus_fs \<Rightarrow> corpus_fs" where
  "remove_stale faults d [] fs = fs"
| "remove_stale faults d ((name, node) # entries) fs =
     remove_stale faults d entries
       (if faults (NextEntry d name) then fs
        else if is_cross_pollinated name
        then if faults (RemoveFile d name) \<or> node = OtherNode then fs else fs_remove d name fs
        else fs)"

text \<open>The counts of converted and of all regular entries are the last components.\<close>

fun convert_entries ::
  "io_faults \<Rightarrow> string \<Rightarrow> string \<Rightarrow> (bytes \<Rightarrow> string + bytes) \<Rightarrow> corpus_dir \<Rightarrow> corpus_fs \<times> nat \<times> nat
    \<Rightarrow> (corpus_fs \<times> nat \<times> nat) option" where
  "convert_entries faults from into decode_and_encode [] s = Some s"
| "convert_entries faults from into decode_and_encode ((name, node) # entries) (fs, converted, entry_count) =
     (if faults (NextEntry from name) \<or> faults (FileType from name)
      then convert_entries faults from into decode_and_encode entries (fs, converted, entry_count)
      else (case node of
        OtherNode \<Rightarrow> convert_entries faults from into decode_and_encode entries (fs, converted, entry_count)
      | FileNode entry_bytes \<Rightarrow>
          if faults (ReadFile from name)
          then convert_entries faults from into decode_and_encode entries (fs, converted, entry_count + 1)
          else (case decode_and_encode entry_bytes of
            Inl reason \<Rightarrow> convert_entries faults from into decode_and_encode entries (fs, converted, entry_count + 1)
          | Inr ber_encoded \<Rightarrow>
              Option.bind (fs_write faults into (CROSS_POLLINATED_PREFIX @ name) ber_encoded fs) (\<lambda>fs.
                convert_entries faults from into decode_and_encode entries (fs, converted + 1, entry_count + 1)))))"

definition cross_pollinate ::
  "io_faults \<Rightarrow> string \<Rightarrow> string \<Rightarrow> (bytes \<Rightarrow> string + bytes) \<Rightarrow> corpus_fs \<Rightarrow> (corpus_fs \<times> nat \<times> nat) option" where
  "cross_pollinate faults structured_corpus_dir unstructured_corpus_dir decode_and_encode fs =
     (if faults (ReadDir structured_corpus_dir) then Some (fs, 0, 0)
      else case fs structured_corpus_dir of
        None \<Rightarrow> Some (fs, 0, 0)
      | Some entries \<Rightarrow>
          if faults (ReadDir unstructured_corpus_dir) then None
          else case fs unstructured_corpus_dir of
            None \<Rightarrow> None
          | Some existing_entries \<Rightarrow>
              convert_entries faults structured_corpus_dir unstructured_corpus_dir decode_and_encode entries
                (remove_stale faults unstructured_corpus_dir existing_entries fs, 0, 0))"

section \<open>The generator\<close>

definition reencode :: "(bytes \<Rightarrow> 'a option) \<Rightarrow> ('a \<Rightarrow> bytes option) \<Rightarrow> bytes \<Rightarrow> string + bytes" where
  "reencode arbitrary encode entry_bytes =
     rbind (ok_or (arbitrary entry_bytes) ''failed to deserialise'') (\<lambda>value.
     ok_or (encode value) ''failed to encode'')"

definition generate_seeds_main ::
  "io_faults \<Rightarrow> 'e rasn \<Rightarrow> crypto \<Rightarrow> u64 \<Rightarrow> (bytes \<Rightarrow> FuzzSnmpv3 option) \<Rightarrow> (bytes \<Rightarrow> FuzzSnmpv3Auth option)
    \<Rightarrow> corpus_fs \<times> salt_state \<Rightarrow> (corpus_fs \<times> salt_state) option" where
  "generate_seeds_main faults r cr seed arbitrary arbitrary_auth s =
     (let (fs, salt) = s in
      Option.bind (create_dir_all faults SNMPV3_REQUEST_CORPUS_DIR fs) (\<lambda>fs.
      Option.bind (write_snmpv3_request_seeds faults r cr seed SNMPV3_REQUEST_CORPUS_DIR (fs, salt)) (\<lambda>(fs, salt).
      Option.bind (create_dir_all faults TCP_FRAMING_CORPUS_DIR fs) (\<lambda>fs.
      Option.bind (write_tcp_framing_seeds faults TCP_FRAMING_CORPUS_DIR fs) (\<lambda>fs.
      Option.bind (create_dir_all faults AUTH_CORPUS_DIR fs) (\<lambda>fs.
      Option.bind (write_auth_seeds faults r cr seed AUTH_CORPUS_DIR (fs, salt)) (\<lambda>(fs, salt).
      Option.bind (create_dir_all faults STRUCTURED_CORPUS_DIR fs) (\<lambda>fs.
      Option.bind (write_structured_seeds faults STRUCTURED_CORPUS_DIR fs) (\<lambda>fs.
      Option.bind (create_dir_all faults AUTH_STRUCTURED_CORPUS_DIR fs) (\<lambda>fs.
      Option.bind (write_structured_seeds faults AUTH_STRUCTURED_CORPUS_DIR fs) (\<lambda>fs.
      Option.bind (cross_pollinate faults STRUCTURED_CORPUS_DIR SNMPV3_REQUEST_CORPUS_DIR
        (reencode arbitrary (fuzz_snmpv3_encode r)) fs) (\<lambda>(fs, _, _).
      Option.bind (cross_pollinate faults AUTH_STRUCTURED_CORPUS_DIR AUTH_CORPUS_DIR
        (reencode arbitrary_auth (fuzz_snmpv3_auth_encode r)) fs) (\<lambda>(fs, _, _).
      Some (fs, salt))))))))))))))"

section \<open>The content of the file system\<close>

text \<open>The entry under a directory and a name; a well-formed corpus has one entry per name, all regular files.\<close>

definition fs_view :: "corpus_fs \<Rightarrow> string \<times> string \<Rightarrow> node option" where
  "fs_view fs = (\<lambda>(d, n). Option.bind (fs d) (\<lambda>files. map_of files n))"

definition fs_ok :: "corpus_fs \<Rightarrow> bool" where
  "fs_ok fs \<longleftrightarrow> (\<forall>d files. fs d = Some files \<longrightarrow> distinct (map fst files) \<and> OtherNode \<notin> snd ` set files)"

abbreviation no_faults :: io_faults where "no_faults \<equiv> \<lambda>_. False"

lemma create_dir_all_view:
  assumes "fs_ok fs"
  obtains fs' where "create_dir_all no_faults d fs = Some fs'" "fs_ok fs'" "d \<in> dom fs'" "dom fs \<subseteq> dom fs'" "fs_view fs' = fs_view fs"
  by (rule that[of "if fs d = None then fs(d \<mapsto> []) else fs"])
    (use assms in \<open>auto simp: create_dir_all_def fs_ok_def fs_view_def fun_eq_iff dom_def\<close>)

lemma fs_write_view:
  assumes "fs_ok fs" "d \<in> dom fs"
  obtains fs' where "fs_write no_faults d n b fs = Some fs'" "fs_ok fs'" "dom fs' = dom fs"
    "fs_view fs' = (fs_view fs)((d, n) \<mapsto> FileNode b)"
proof -
  obtain files where files: "fs d = Some files" using assms(2) by auto
  have ok: "distinct (map fst files)" "OtherNode \<notin> snd ` set files" using assms(1) files by (auto simp: fs_ok_def)
  have o: "map_of files n \<noteq> Some OtherNode" using ok(2) map_of_SomeD[of files n OtherNode] by force
  let ?fs = "fs(d \<mapsto> AList.update n (FileNode b) files)"
  have "set (AList.update n (FileNode b) files) \<subseteq> insert (n, FileNode b) (set files)" by (induction files) auto
  then have "OtherNode \<notin> snd ` set (AList.update n (FileNode b) files)" using ok(2) by force
  then have "fs_ok ?fs" using assms(1) ok(1) distinct_update[OF ok(1)] by (auto simp: fs_ok_def)
  moreover have "fs_view ?fs = (fs_view fs)((d, n) \<mapsto> FileNode b)"
    using files by (auto simp: fs_view_def fun_eq_iff update_conv)
  ultimately show thesis using that[of ?fs] files o by (auto simp: fs_write_def)
qed

lemma write_files_view:
  assumes "fs_ok fs" "d \<in> dom fs"
  obtains fs' where "write_files no_faults d seeds fs = Some fs'" "fs_ok fs'" "dom fs' = dom fs"
    "fs_view fs' = fs_view fs ++ map_of (rev (map (\<lambda>(n, b). ((d, n), FileNode b)) seeds))"
  using assms
proof (induction seeds arbitrary: fs thesis)
  case (Cons x seeds)
  obtain n b where x: "x = (n, b)" by (cases x)
  obtain fs1 where 1: "fs_write no_faults d n b fs = Some fs1" "fs_ok fs1" "dom fs1 = dom fs"
    "fs_view fs1 = (fs_view fs)((d, n) \<mapsto> FileNode b)"
    by (rule fs_write_view[OF Cons.prems(2,3)])
  have d1: "d \<in> dom fs1" using 1(3) Cons.prems(3) by simp
  obtain fs' where "write_files no_faults d seeds fs1 = Some fs'" "fs_ok fs'" "dom fs' = dom fs1"
    "fs_view fs' = fs_view fs1 ++ map_of (rev (map (\<lambda>(n, b). ((d, n), FileNode b)) seeds))"
    by (rule Cons.IH[OF _ 1(2) d1])
  then show ?case using Cons.prems(1)[of fs'] 1 x by (simp add: map_add_def fun_eq_iff split: option.splits)
qed simp

section \<open>What cross-pollination leaves\<close>

lemma cross_pollinated_split: "is_cross_pollinated n \<longleftrightarrow> (\<exists>m. n = CROSS_POLLINATED_PREFIX @ m)"
  by (auto simp: is_cross_pollinated_def) (metis append_take_drop_id)

text \<open>The seed that a structured entry of a name turns into.\<close>

definition pollinated :: "(bytes \<Rightarrow> string + bytes) \<Rightarrow> corpus_dir \<Rightarrow> string \<Rightarrow> bytes option" where
  "pollinated conv entries m = (case map_of entries m of Some (FileNode b) \<Rightarrow> res_ok (conv b) | _ \<Rightarrow> None)"

lemma fs_remove_view:
  assumes "fs_ok fs"
  shows "fs_ok (fs_remove d n fs)" "dom (fs_remove d n fs) = dom fs" "fs_view (fs_remove d n fs) = (fs_view fs)((d, n) := None)"
proof -
  have s: "distinct (map fst (AList.delete n files))" "OtherNode \<notin> snd ` set (AList.delete n files)"
    if "distinct (map fst files)" "OtherNode \<notin> snd ` set files" for files :: corpus_dir
    using that by (simp add: distinct_delete) (use that(2) in \<open>auto simp: AList.delete_eq\<close>)
  show "fs_ok (fs_remove d n fs)"
    unfolding fs_ok_def
  proof (intro allI impI)
    fix d' files
    assume e: "fs_remove d n fs d' = Some files"
    show "distinct (map fst files) \<and> OtherNode \<notin> snd ` set files"
    proof (cases "d' = d")
      case True
      then obtain old where "fs d = Some old" "files = AList.delete n old" using e by (auto simp: fs_remove_def)
      then show ?thesis using s[of old] assms by (simp add: fs_ok_def)
    next
      case False
      then show ?thesis using e assms by (simp add: fs_ok_def fs_remove_def)
    qed
  qed
  show "dom (fs_remove d n fs) = dom fs" by (auto simp: fs_remove_def dom_def)
  have "fs_view (fs_remove d n fs) (d', m) = ((fs_view fs)((d, n) := None)) (d', m)" for d' m
    by (cases "d' = d"; cases "fs d") (simp_all add: fs_view_def fs_remove_def delete_conv)
  then show "fs_view (fs_remove d n fs) = (fs_view fs)((d, n) := None)" by (simp add: fun_eq_iff)
qed

lemma remove_stale_view:
  assumes "fs_ok fs" "OtherNode \<notin> snd ` set entries"
  shows "fs_ok (remove_stale no_faults d entries fs) \<and> dom (remove_stale no_faults d entries fs) = dom fs
    \<and> fs_view (remove_stale no_faults d entries fs)
      = (\<lambda>(d', n). if d' = d \<and> is_cross_pollinated n \<and> n \<in> fst ` set entries then None else fs_view fs (d', n))"
  using assms
proof (induction entries arbitrary: fs)
  case (Cons x entries)
  obtain n node where x: "x = (n, node)" by (cases x)
  define fs1 where "fs1 = (if is_cross_pollinated n then fs_remove d n fs else fs)"
  have ok: "fs_ok fs1" "dom fs1 = dom fs" "OtherNode \<notin> snd ` set entries" "node \<noteq> OtherNode"
    using Cons.prems x fs_remove_view(1,2)[OF Cons.prems(1)] by (auto simp: fs1_def)
  have st: "remove_stale no_faults d (x # entries) fs = remove_stale no_faults d entries fs1" using x ok(4) by (simp add: fs1_def)
  have v: "fs_view fs1 (d', m) = (if d' = d \<and> is_cross_pollinated n \<and> m = n then None else fs_view fs (d', m))" for d' m
    using fs_remove_view(3)[OF Cons.prems(1), of d n] by (simp add: fs1_def)
  note ih = Cons.IH[OF ok(1,3)]
  have w: "fs_view (remove_stale no_faults d entries fs1) (d', m)
      = (if d' = d \<and> is_cross_pollinated m \<and> m \<in> fst ` set entries then None else fs_view fs1 (d', m))" for d' m
    using conjunct2[OF conjunct2[OF ih]] by (simp only: prod.case)
  have "fs_view (remove_stale no_faults d entries fs1) (d', m)
      = (if d' = d \<and> is_cross_pollinated m \<and> m \<in> fst ` set (x # entries) then None else fs_view fs (d', m))" for d' m
    unfolding w v using x by (cases "m = n") simp_all
  then have e: "fs_view (remove_stale no_faults d entries fs1) = (\<lambda>(d', m).
      if d' = d \<and> is_cross_pollinated m \<and> m \<in> fst ` set (x # entries) then None else fs_view fs (d', m))"
    by (intro ext) (simp only: split_paired_all prod.case)
  have f: "fs_ok (remove_stale no_faults d entries fs1)" "dom (remove_stale no_faults d entries fs1) = dom fs"
    using ih unfolding ok(2) by blast+
  show ?case unfolding st by (intro conjI f e)
qed (auto simp: fun_eq_iff)

lemma convert_entries_view:
  assumes "fs_ok fs" "into \<in> dom fs" "distinct (map fst entries)"
  shows "\<exists>fs' c k. convert_entries no_faults from into conv entries (fs, c0, k0) = Some (fs', c, k) \<and> fs_ok fs' \<and> dom fs' = dom fs
    \<and> (\<forall>d n. fs_view fs' (d, n) = (if d = into \<and> is_cross_pollinated n
         then (case pollinated conv entries (drop (length CROSS_POLLINATED_PREFIX) n) of
                 Some x \<Rightarrow> Some (FileNode x) | None \<Rightarrow> fs_view fs (d, n))
         else fs_view fs (d, n)))"
  using assms
proof (induction entries arbitrary: fs c0 k0)
  case Nil
  then show ?case by (auto simp: pollinated_def)
next
  case (Cons x entries)
  obtain name node where x: "x = (name, node)" by (cases x)
  have fresh: "map_of entries name = None" "distinct (map fst entries)"
    using Cons.prems(3) x by (auto simp: map_of_eq_None_iff)
  have p: "pollinated conv (x # entries) m = (if m = name then (case node of FileNode b \<Rightarrow> res_ok (conv b) | _ \<Rightarrow> None)
      else pollinated conv entries m)" "pollinated conv entries name = None" for m
    using x fresh(1) by (auto simp: pollinated_def)
  show ?case
  proof (cases "case node of FileNode b \<Rightarrow> res_ok (conv b) | _ \<Rightarrow> None")
    case None
    have "pollinated conv (x # entries) = pollinated conv entries" using p None by (auto simp: fun_eq_iff)
    moreover obtain c1 k1 where "convert_entries no_faults from into conv (x # entries) (fs, c0, k0)
        = convert_entries no_faults from into conv entries (fs, c1, k1)"
      using None x by (cases node) (auto simp: res_ok_def split: sum.splits)
    ultimately show ?thesis using Cons.IH[OF Cons.prems(1,2) fresh(2), of c1 k1] by (simp only:)
  next
    case (Some y)
    then obtain b where b: "node = FileNode b" "conv b = Inr y" by (auto simp: res_ok_def split: node.splits sum.splits)
    obtain fs1 where 1: "fs_write no_faults into (CROSS_POLLINATED_PREFIX @ name) y fs = Some fs1" "fs_ok fs1" "dom fs1 = dom fs"
      "fs_view fs1 = (fs_view fs)((into, CROSS_POLLINATED_PREFIX @ name) \<mapsto> FileNode y)"
      by (rule fs_write_view[OF Cons.prems(1,2)])
    have i1: "into \<in> dom fs1" using 1(3) Cons.prems(2) by simp
    obtain fs' c k where r: "convert_entries no_faults from into conv entries (fs1, c0 + 1, k0 + 1) = Some (fs', c, k)"
      "fs_ok fs'" "dom fs' = dom fs1"
      and v: "\<And>d n. fs_view fs' (d, n) = (if d = into \<and> is_cross_pollinated n
         then (case pollinated conv entries (drop (length CROSS_POLLINATED_PREFIX) n) of
                 Some x \<Rightarrow> Some (FileNode x) | None \<Rightarrow> fs_view fs1 (d, n))
         else fs_view fs1 (d, n))"
      using Cons.IH[OF 1(2) i1 fresh(2), of "c0 + 1" "k0 + 1"] by blast
    have view: "\<forall>d n. fs_view fs' (d, n) = (if d = into \<and> is_cross_pollinated n
         then (case pollinated conv (x # entries) (drop (length CROSS_POLLINATED_PREFIX) n) of
                 Some x \<Rightarrow> Some (FileNode x) | None \<Rightarrow> fs_view fs (d, n))
         else fs_view fs (d, n))"
    proof (intro allI)
      fix d n
      show "fs_view fs' (d, n) = (if d = into \<and> is_cross_pollinated n
         then (case pollinated conv (x # entries) (drop (length CROSS_POLLINATED_PREFIX) n) of
                 Some x \<Rightarrow> Some (FileNode x) | None \<Rightarrow> fs_view fs (d, n))
         else fs_view fs (d, n))"
      proof (cases "d = into \<and> is_cross_pollinated n")
        case True
        then obtain m where m: "n = CROSS_POLLINATED_PREFIX @ m" by (auto simp: cross_pollinated_split)
        have d: "drop (length CROSS_POLLINATED_PREFIX) n = m" using m by simp
        have f1: "fs_view fs1 (d, n) = (if m = name then Some (FileNode y) else fs_view fs (d, n))"
          unfolding 1(4) using True m by simp
        have q: "pollinated conv (x # entries) m = (if m = name then Some y else pollinated conv entries m)"
          unfolding p(1) Some by (rule refl)
        show ?thesis unfolding v if_P[OF True] d q f1 using p(2) by (cases "m = name") simp_all
      next
        case False
        have "fs_view fs1 (d, n) = fs_view fs (d, n)" unfolding 1(4) using False cross_pollinated_split[of n] by auto
        then show ?thesis unfolding v if_not_P[OF False] .
      qed
    qed
    have run: "convert_entries no_faults from into conv (x # entries) (fs, c0, k0) = Some (fs', c, k)"
      unfolding x b(1) using r(1) b(2) 1(1) by simp
    show ?thesis by (rule exI[of _ fs'], rule exI[of _ c], rule exI[of _ k]) (intro conjI run r(2) r(3)[unfolded 1(3)] view)
  qed
qed

lemma stale_gone:
  assumes "fs_ok fs" "fs d = Some entries"
  shows "fs_ok (remove_stale no_faults d entries fs)" "dom (remove_stale no_faults d entries fs) = dom fs"
    "fs_view (remove_stale no_faults d entries fs) (d', n)
      = (if d' = d \<and> is_cross_pollinated n then None else fs_view fs (d', n))"
proof -
  have "OtherNode \<notin> snd ` set entries" using assms by (simp add: fs_ok_def)
  note r = remove_stale_view[OF assms(1) this, of d]
  show "fs_ok (remove_stale no_faults d entries fs)" "dom (remove_stale no_faults d entries fs) = dom fs"
    using r by blast+
  have "fs_view fs (d, n) = None" if "n \<notin> fst ` set entries"
    using assms(2) that by (simp add: fs_view_def map_of_eq_None_iff)
  then show "fs_view (remove_stale no_faults d entries fs) (d', n)
      = (if d' = d \<and> is_cross_pollinated n then None else fs_view fs (d', n))"
    using conjunct2[OF conjunct2[OF r]] by (cases "n \<in> fst ` set entries") simp_all
qed

lemma cross_pollinate_view:
  assumes "fs_ok fs" "fs s = Some entries" "u \<in> dom fs"
  shows "\<exists>fs' c k. cross_pollinate no_faults s u conv fs = Some (fs', c, k) \<and> fs_ok fs' \<and> dom fs' = dom fs
    \<and> (\<forall>d n. fs_view fs' (d, n) = (if d = u \<and> is_cross_pollinated n
         then map_option FileNode (pollinated conv entries (drop (length CROSS_POLLINATED_PREFIX) n))
         else fs_view fs (d, n)))"
proof -
  obtain old where old: "fs u = Some old" using assms(3) by auto
  note g = stale_gone[OF assms(1) old]
  have ds: "distinct (map fst entries)" using assms(1,2) by (simp add: fs_ok_def)
  have i: "u \<in> dom (remove_stale no_faults u old fs)" using g(2) assms(3) by simp
  obtain fs' c k where r: "convert_entries no_faults s u conv entries (remove_stale no_faults u old fs, 0, 0) = Some (fs', c, k)"
    "fs_ok fs'" "dom fs' = dom (remove_stale no_faults u old fs)"
    and v: "\<And>d n. fs_view fs' (d, n) = (if d = u \<and> is_cross_pollinated n
         then (case pollinated conv entries (drop (length CROSS_POLLINATED_PREFIX) n) of
                 Some x \<Rightarrow> Some (FileNode x) | None \<Rightarrow> fs_view (remove_stale no_faults u old fs) (d, n))
         else fs_view (remove_stale no_faults u old fs) (d, n))"
    using convert_entries_view[OF g(1) i ds, of s conv 0 0] by blast
  have "\<forall>d n. fs_view fs' (d, n) = (if d = u \<and> is_cross_pollinated n
         then map_option FileNode (pollinated conv entries (drop (length CROSS_POLLINATED_PREFIX) n))
         else fs_view fs (d, n))"
    unfolding v g(3) by (simp split: option.split)
  moreover have "cross_pollinate no_faults s u conv fs = Some (fs', c, k)"
    using r(1) assms(2) old by (simp add: cross_pollinate_def)
  ultimately show ?thesis using r(2,3) unfolding g(2) by blast
qed

lemma reencoded: "pollinated (reencode arbitrary encode) entries m
    = (case map_of entries m of Some (FileNode b) \<Rightarrow> Option.bind (arbitrary b) encode | _ \<Rightarrow> None)"
  by (auto simp: pollinated_def reencode_def ok_or_def res_ok_def rbind_def split: option.splits node.splits)

text \<open>What cross-pollination makes of a corpus: for each structured entry that deserialises and re-encodes
  a prefixed seed with the re-encoded bytes, and no other prefixed file.\<close>

definition pollinated_from :: "corpus_fs \<Rightarrow> string \<Rightarrow> string \<Rightarrow> (bytes \<Rightarrow> 'a option) \<Rightarrow> ('a \<Rightarrow> bytes option) \<Rightarrow> bool" where
  "pollinated_from fs s u arbitrary encode \<longleftrightarrow> (\<forall>name. fs_view fs (u, CROSS_POLLINATED_PREFIX @ name)
     = (case fs_view fs (s, name) of
          Some (FileNode b) \<Rightarrow> map_option FileNode (Option.bind (arbitrary b) encode) | _ \<Rightarrow> None))"

lemma cross_pollinate_exact:
  assumes "fs_ok fs" "s \<in> dom fs" "u \<in> dom fs" "s \<noteq> u"
  shows "\<exists>fs' c k. cross_pollinate no_faults s u (reencode arbitrary encode) fs = Some (fs', c, k) \<and> fs_ok fs' \<and> dom fs' = dom fs
    \<and> pollinated_from fs' s u arbitrary encode
    \<and> (\<forall>d n. d \<noteq> u \<or> \<not> is_cross_pollinated n \<longrightarrow> fs_view fs' (d, n) = fs_view fs (d, n))"
proof -
  obtain entries where e: "fs s = Some entries" using assms(2) by blast
  obtain fs' c k where r: "cross_pollinate no_faults s u (reencode arbitrary encode) fs = Some (fs', c, k)" "fs_ok fs'" "dom fs' = dom fs"
    and v: "\<And>d n. fs_view fs' (d, n) = (if d = u \<and> is_cross_pollinated n
         then map_option FileNode (pollinated (reencode arbitrary encode) entries (drop (length CROSS_POLLINATED_PREFIX) n))
         else fs_view fs (d, n))"
    using cross_pollinate_view[OF assms(1) e assms(3), of "reencode arbitrary encode"] by blast
  have s: "fs_view fs' (s, name) = map_of entries name" for name unfolding v using assms(4) e by (simp add: fs_view_def)
  have u: "fs_view fs' (u, CROSS_POLLINATED_PREFIX @ name) = map_option FileNode (pollinated (reencode arbitrary encode) entries name)" for name
    unfolding v by (simp add: is_cross_pollinated_def)
  have "pollinated_from fs' s u arbitrary encode"
    unfolding pollinated_from_def s u reencoded by (simp split: option.split node.split)
  moreover have "\<forall>d n. d \<noteq> u \<or> \<not> is_cross_pollinated n \<longrightarrow> fs_view fs' (d, n) = fs_view fs (d, n)" unfolding v by auto
  ultimately show ?thesis using r by blast
qed

section \<open>The seeds are requests\<close>

lemma seed_engine_id: "ENGINE_ID = FUZZ_ENGINE_ID" by (simp add: ENGINE_ID_def FUZZ_ENGINE_ID_def)

lemma seed_context:
  "counters_context dispatch_counters_new u l = res_ok (dispatch_context_new (fuzz_inputs u l))"
  by (simp add: counters_context_def dispatch_counters_new_def fuzz_inputs_def seed_engine_id)

lemma sysdescr_valid: "valid_components SYSDESCR_OID" by (simp add: SYSDESCR_OID_def valid_components_def)

lemma seed_frame:
  assumes "rasn_ok r" "one_name pdus SYSDESCR_OID" "length u < 65536" "length ap < 65536"
  shows "decode_pdu (der_pdus pdus) = Inr (pdus_request pdus)" "length (der_pdus pdus) \<le> 800"
    "frames_encode_v3_message_with_usm_params r ENGINE_ID u [] mid pdus fl ap 0 0
      = Inr (agent_frame mid 0xFFFF fl (frame_usm FUZZ_ENGINE_ID 0 0 u ap) FUZZ_ENGINE_ID [] (der_pdus pdus))"
    "frames_encode_v3_message_with_usm_params r ENGINE_ID u [] mid pdus fl ap 1 0
      = Inr (agent_frame mid 0xFFFF fl (frame_usm FUZZ_ENGINE_ID 1 0 u ap) FUZZ_ENGINE_ID [] (der_pdus pdus))"
proof -
  have l: "length FUZZ_ENGINE_ID < 65536" "length ([] :: bytes) < 65536" by (simp_all add: fuzz_engine_id)
  note f = rasn_frame[OF assms(1,2) sysdescr_valid l(1) assms(3,4) l]
  show "decode_pdu (der_pdus pdus) = Inr (pdus_request pdus)" "length (der_pdus pdus) \<le> 800" by (rule f)+
  show "frames_encode_v3_message_with_usm_params r ENGINE_ID u [] mid pdus fl ap 0 0
      = Inr (agent_frame mid 0xFFFF fl (frame_usm FUZZ_ENGINE_ID 0 0 u ap) FUZZ_ENGINE_ID [] (der_pdus pdus))"
    using f(3)[of 0 0] f(4)[of mid "0xFFFF" fl 0 0] by (simp add: frames_encode_v3_message_with_usm_params_def seed_engine_id)
  show "frames_encode_v3_message_with_usm_params r ENGINE_ID u [] mid pdus fl ap 1 0
      = Inr (agent_frame mid 0xFFFF fl (frame_usm FUZZ_ENGINE_ID 1 0 u ap) FUZZ_ENGINE_ID [] (der_pdus pdus))"
    using f(3)[of 1 0] f(4)[of mid "0xFFFF" fl 1 0] by (simp add: frames_encode_v3_message_with_usm_params_def seed_engine_id)
qed

lemma default_size_frame: "frames_encode_v3_message_with_max_size r e u c mid pdus fl 0xFFFF
    = frames_encode_v3_message_with_usm_params r e u c mid pdus fl [] 0 0"
  by (simp add: frames_encode_v3_message_with_max_size_def frames_encode_v3_message_with_usm_params_def)

text \<open>What the agent of the generator does with a frame: it serves it, whatever the salt counter is.\<close>

definition serves :: "crypto \<Rightarrow> UsmUser option \<Rightarrow> SecurityLevel \<Rightarrow> bytes \<Rightarrow> bool" where
  "serves cr u l frame \<longleftrightarrow> (\<forall>seed salt. \<exists>response salt'.
     run_validation_pipeline cr seed empty_mib frame (DispatchContext (fuzz_inputs u l), salt)
       = (Inr response, (DispatchContext (fuzz_inputs u l), salt')))"

lemma served_response:
  assumes "serves cr u l frame"
  obtains response s where "process_snmpv3_request cr seed frame empty_mib (DispatchContext (fuzz_inputs u l), salt) = (Some response, s)"
  using assms unfolding serves_def process_snmpv3_request_def by (metis (no_types, lifting) case_prod_conv old.sum.simps(6))

lemma open_seed_served:
  assumes "rasn_ok r" "crypto_ok cr" "one_name pdus SYSDESCR_OID" "0 \<le> sint mid"
  shows "serves cr None NoAuthNoPriv (agent_frame mid 0xFFFF 0x04 (frame_usm FUZZ_ENGINE_ID 0 0 [] []) FUZZ_ENGINE_ID [] (der_pdus pdus))"
  using open_frame_served[OF assms(2) small_values_new assms(3) _ _ assms(4) refl] seed_frame(1,2)[OF assms(1,3), of "[]" "[]"]
  unfolding serves_def empty_mib_def by (simp, blast)

lemma request_seeds_served:
  assumes "rasn_ok r" "crypto_ok cr"
  obtains get_request get_next_request get_bulk_request set_request where
    "snmpv3_request_seeds r = Some [(''get_request'', get_request), (''get_next_request'', get_next_request),
       (''get_bulk_request'', get_bulk_request), (''set_request'', set_request)]"
    "\<forall>b \<in> {get_request, get_next_request, get_bulk_request, set_request}. serves cr None NoAuthNoPriv b"
proof -
  let ?p1 = "PdusGetRequest (single_varbind_pdu 1 SYSDESCR_OID)" let ?p2 = "PdusGetNextRequest (single_varbind_pdu 2 SYSDESCR_OID)"
  let ?p3 = "PdusGetBulkRequest \<lparr>bp_request_id = 3, bp_non_repeaters = 0, bp_max_repetitions = 10,
      bp_variable_bindings = [\<lparr>rvb_name = SYSDESCR_OID, rvb_value = RasnUnspecified\<rparr>]\<rparr>"
  let ?p4 = "PdusSetRequest (single_varbind_pdu 4 SYSDESCR_OID)"
  let ?f = "\<lambda>mid pdus. agent_frame mid 0xFFFF 0x04 (frame_usm FUZZ_ENGINE_ID 0 0 [] []) FUZZ_ENGINE_ID [] (der_pdus pdus)"
  have o: "one_name ?p1 SYSDESCR_OID" "one_name ?p2 SYSDESCR_OID" "one_name ?p3 SYSDESCR_OID" "one_name ?p4 SYSDESCR_OID"
    by (auto intro: one_name.intros)
  note f = o[THEN seed_frame(3)[OF assms(1)], of "[]" "[]"]
  have "snmpv3_request_seeds r = Some [(''get_request'', ?f 1 ?p1), (''get_next_request'', ?f 2 ?p2),
       (''get_bulk_request'', ?f 3 ?p3), (''set_request'', ?f 4 ?p4)]"
    using f by (simp add: snmpv3_request_seeds_def encode_get_request_def encode_get_next_request_def encode_set_request_def
        encode_get_bulk_request_def frame_encoder_defs(1-7) default_size_frame)
  moreover have "serves cr None NoAuthNoPriv (?f 1 ?p1)" "serves cr None NoAuthNoPriv (?f 2 ?p2)"
    "serves cr None NoAuthNoPriv (?f 3 ?p3)" "serves cr None NoAuthNoPriv (?f 4 ?p4)"
    by (rule open_seed_served[OF assms o(1)] open_seed_served[OF assms o(2)] open_seed_served[OF assms o(3)]
        open_seed_served[OF assms o(4)], simp)+
  ultimately show thesis using that by simp
qed

lemma auth_user_eval:
  "auth_user = Some \<lparr>usm_name = UserName (map of_char ''fuzz-user''),
     usm_auth_credentials = Some \<lparr>ac_protocol = HmacSha256, ac_key = new_from_exposed_slice (replicate 32 0xAB)\<rparr>,
     usm_priv_credentials = None\<rparr>"
  by (simp add: auth_user_def user_name_new_def UserName_MAX_LENGTH_def auth_no_priv_user_new_def validate_auth_key_length_def
      usm_user_from_auth_no_priv_def new_from_exposed_slice_def secret_key_len_def)

abbreviation seed_user :: UsmUser where "seed_user \<equiv> the auth_user"

lemma seed_user_props:
  "user_name_bytes (usm_name seed_user) = map of_char ''fuzz-user''"
  "auth_credentials_of (Some seed_user) = Some (HmacSha256, new_from_exposed_slice (replicate 32 0xAB))"
  "priv_credentials_of (Some seed_user) = None" "user_security_level seed_user = AuthNoPriv" "usm_user_wf seed_user"
  by (simp_all add: auth_user_eval auth_credentials_cases user_security_level_def usm_user_wf_def
      new_from_exposed_slice_def secret_key_len_def)

lemma seed_auth_context:
  "counters_context dispatch_counters_new (Some seed_user) AuthNoPriv = Some (DispatchContext (fuzz_inputs (Some seed_user) AuthNoPriv))"
  by (simp add: seed_context dispatch_context_new_def dispatch_context_new_unchecked_def security_level_requires_user_def)

lemma flags_auth: "flags_security_level (MsgFlags 5) = Inr AuthNoPriv" "\<not> is_priv (MsgFlags 5)"
  by (simp_all add: flags_security_level_def security_level_try_from_def is_auth_def is_priv_def
      AUTH_BIT_def PRIV_BIT_def REPORTABLE_BIT_def)

lemma auth_frame_rows:
  assumes "msg = frame_message mid sz 0x05 (frame_usm FUZZ_ENGINE_ID 1 0 (map of_char ''fuzz-user'') mac) FUZZ_ENGINE_ID [] pdu raw"
    and "verify_hmac cr HmacSha256 (new_from_exposed_slice (replicate 32 0xAB)) (received_mac msg)"
  shows "first_row (rejection_rows cr (fuzz_inputs (Some seed_user) AuthNoPriv) msg) = None"
    "opened cr (fuzz_inputs (Some seed_user) AuthNoPriv) msg
      = Some \<lparr>dsp_context_engine_id = FUZZ_ENGINE_ID, dsp_context_name = [], dsp_pdu = pdu\<rparr>"
proof -
  show o: "opened cr (fuzz_inputs (Some seed_user) AuthNoPriv) msg
      = Some \<lparr>dsp_context_engine_id = FUZZ_ENGINE_ID, dsp_context_name = [], dsp_pdu = pdu\<rparr>"
    by (simp add: assms(1) opened_def)
  have s: "\<not> should_reject_security_level (fuzz_inputs (Some seed_user) AuthNoPriv) (Inr AuthNoPriv)"
    by (simp add: should_reject_security_level_def seed_user_props)
  have w: "is_in_time_window (EngineBoots 1) (EngineTime 0) (EngineBoots 1) (EngineTime 0)"
    by (simp add: is_in_time_window_def)
  show "first_row (rejection_rows cr (fuzz_inputs (Some seed_user) AuthNoPriv) msg) = None"
    using fuzz_engine_id(1) s w assms(2) unfolding rejection_rows_def early_rows_def scoped_rows_def o
    by (simp add: assms(1) flags_auth is_usm_def SecurityModel_USM_def seed_user_props)
qed

lemma authentic_frame_served:
  assumes "crypto_ok cr" "one_name pdus arcs" "decode_pdu raw = Inr (pdus_request pdus)" "length raw \<le> 800" "length mac = 24"
    and u: "u = map of_char ''fuzz-user''" "length u = 9"
    and "compute_mac cr HmacSha256 (new_from_exposed_slice (replicate 32 0xAB))
      (agent_frame 10 0xFFFF 0x05 (frame_usm FUZZ_ENGINE_ID 1 0 u (replicate 24 0)) FUZZ_ENGINE_ID [] raw) = Inr mac"
  shows "serves cr (Some seed_user) AuthNoPriv (agent_frame 10 0xFFFF 0x05 (frame_usm FUZZ_ENGINE_ID 1 0 u mac) FUZZ_ENGINE_ID [] raw)"
    (is "serves cr _ _ ?frame")
proof -
  let ?usm = "frame_usm FUZZ_ENGINE_ID 1 0 u mac" let ?i = "fuzz_inputs (Some seed_user) AuthNoPriv"
  let ?msg = "frame_message 10 0xFFFF 0x05 ?usm FUZZ_ENGINE_ID [] (pdus_request pdus) raw"
  have l: "length ?frame < 9223372036854775808"
    by (rule agent_frame_length) (simp_all add: fuzz_engine_id assms(4,5) u(2))
  have d: "decode_v3_message ?frame = Inr ?msg"
    by (rule agent_frame_decodes[OF l]) (simp_all add: assms(3) u(2))
  have m: "mac \<noteq> []" using assms(5) by auto
  have v: "verify_hmac cr HmacSha256 (new_from_exposed_slice (replicate 32 0xAB)) (received_mac ?msg)"
    by (rule frame_mac_verifies[OF assms(1) l]) (simp_all only: m UsmFields.simps assms(5,8) not_False_eq_True)
  have e: "?msg = frame_message 10 0xFFFF 0x05 (frame_usm FUZZ_ENGINE_ID 1 0 (map of_char ''fuzz-user'') mac) FUZZ_ENGINE_ID []
      (pdus_request pdus) raw" unfolding u(1) by (rule refl)
  note rows = auth_frame_rows[OF e v]
  have sz: "length (concat (map wire_varbind (resp_varbinds (handle_pdu empty_mib (v3_max_size ?msg)
      (dsp_pdu \<lparr>dsp_context_engine_id = FUZZ_ENGINE_ID, dsp_context_name = [], dsp_pdu = pdus_request pdus\<rparr>))))) < 4611686018427387904"
    unfolding empty_mib_def frame_message_fields DecodedScopedPdu.simps by (rule one_name_response_small[OF small_values_new assms(2)])
  have c: "\<forall>u. di_usm_user (ctx_inputs (DispatchContext ?i)) = Some u \<longrightarrow> usm_user_wf u"
    "length (di_engine_id (ctx_inputs (DispatchContext ?i))) \<le> 32"
    "unat (engine_boots_u32 (di_engine_boots (ctx_inputs (DispatchContext ?i)))) < 2147483648"
    "unat (engine_time_u32 (di_engine_time (ctx_inputs (DispatchContext ?i)))) < 2147483648"
    using seed_user_props(5) by (simp_all add: fuzz_engine_id)
  note r = passed_request_served[OF assms(1) c(1) d _ _ _ c(2-4) sz, unfolded DispatchContext.sel, OF rows]
  show ?thesis unfolding serves_def
  proof (intro allI)
    fix seed salt
    from r[of seed salt] show "\<exists>response salt'. run_validation_pipeline cr seed empty_mib ?frame (DispatchContext ?i, salt)
       = (Inr response, (DispatchContext ?i, salt'))" by simp blast
  qed
qed

lemma auth_encoders:
  assumes "rasn_ok r" "length u < 65536" "length ap < 65536"
  shows "encode_get_request_with_auth_params_and_time r ENGINE_ID u [] mid rid SYSDESCR_OID fl ap 1 0
      = Some (agent_frame mid 0xFFFF fl (frame_usm FUZZ_ENGINE_ID 1 0 u ap) FUZZ_ENGINE_ID []
          (der_pdus (PdusGetRequest (single_varbind_pdu rid SYSDESCR_OID))))"
    "encode_get_request_with_user_and_flags r ENGINE_ID u [] mid rid SYSDESCR_OID fl
      = Some (agent_frame mid 0xFFFF fl (frame_usm FUZZ_ENGINE_ID 0 0 u []) FUZZ_ENGINE_ID []
          (der_pdus (PdusGetRequest (single_varbind_pdu rid SYSDESCR_OID))))"
proof -
  have o: "one_name (PdusGetRequest (single_varbind_pdu rid SYSDESCR_OID)) SYSDESCR_OID" by (rule one_name.intros)
  have z: "length ([] :: bytes) < 65536" by simp
  show "encode_get_request_with_auth_params_and_time r ENGINE_ID u [] mid rid SYSDESCR_OID fl ap 1 0
      = Some (agent_frame mid 0xFFFF fl (frame_usm FUZZ_ENGINE_ID 1 0 u ap) FUZZ_ENGINE_ID []
          (der_pdus (PdusGetRequest (single_varbind_pdu rid SYSDESCR_OID))))"
    by (simp add: encode_get_request_with_auth_params_and_time_def try_encode_get_request_with_auth_params_and_time_def
        seed_frame(4)[OF assms(1) o assms(2,3)] del: der_pdus.simps)
  show "encode_get_request_with_user_and_flags r ENGINE_ID u [] mid rid SYSDESCR_OID fl
      = Some (agent_frame mid 0xFFFF fl (frame_usm FUZZ_ENGINE_ID 0 0 u []) FUZZ_ENGINE_ID []
          (der_pdus (PdusGetRequest (single_varbind_pdu rid SYSDESCR_OID))))"
    by (simp add: encode_get_request_with_user_and_flags_def frames_encode_v3_message_def
        frames_encode_v3_message_with_auth_params_def seed_frame(3)[OF assms(1) o assms(2) z] del: der_pdus.simps)
qed

lemma auth_seeds_served:
  assumes "rasn_ok r" "crypto_ok cr"
  obtains valid_hmac zero_hmac wrong_user noauth where
    "auth_seeds r cr = Some [(''auth_get_request_valid_hmac'', valid_hmac, True), (''auth_get_request'', zero_hmac, False),
       (''auth_get_request_wrong_user'', wrong_user, False), (''noauth_get_request'', noauth, False)]"
    "serves cr (Some seed_user) AuthNoPriv valid_hmac"
proof -
  let ?k = "new_from_exposed_slice (replicate 32 0xAB)" let ?pdus = "PdusGetRequest (single_varbind_pdu 10 SYSDESCR_OID)"
  obtain u v :: bytes where u: "u = map of_char ''fuzz-user''" "length u = 9" and v: "v = map of_char ''wrong-user''" "length v = 10"
    by simp
  let ?f = "\<lambda>mac. agent_frame 10 0xFFFF 0x05 (frame_usm FUZZ_ENGINE_ID 1 0 u mac) FUZZ_ENGINE_ID [] (der_pdus ?pdus)"
  have o: "one_name ?pdus SYSDESCR_OID" by (rule one_name.intros)
  have n: "length u < 65536" "length v < 65536" "length (replicate 24 0 :: bytes) < 65536" "length ([] :: bytes) < 65536"
    using u(2) v(2) by simp_all
  note p = seed_frame(1,2)[OF assms(1) o n(4,4)]
  have "secret_key_len ?k = auth_key_len HmacSha256" by (simp add: new_from_exposed_slice_def secret_key_len_def)
  from compute_mac_total[OF assms(2) this, of "?f (replicate 24 0)"] obtain mac
    where mac: "compute_mac cr HmacSha256 ?k (?f (replicate 24 0)) = Inr mac" .
  have l: "length mac = 24" using compute_mac_length[OF assms(2) mac] by simp
  then have lm: "length mac < 65536" by simp
  have b: "build_authenticated_frame r cr = Some (?f mac)"
    unfolding build_authenticated_frame_def Let_def u(1)[symmetric] auth_encoders(1)[OF assms(1) n(1,3)] bind.bind_lunit mac res_ok_simps
      auth_encoders(1)[OF assms(1) n(1) lm] by (rule refl)
  show thesis
    by (rule that[OF _ authentic_frame_served[OF assms(2) o p l u mac]])
      (unfold auth_seeds_def b bind.bind_lunit u(1)[symmetric] v(1)[symmetric] auth_encoders[OF assms(1) n(1,3)]
        auth_encoders[OF assms(1) n(2,3)], rule refl)
qed

section \<open>A run of the generator\<close>

lemma check_request_seeds_writes:
  assumes "\<forall>(n, b) \<in> set seeds. serves cr None NoAuthNoPriv b"
  shows "\<exists>salt'. check_request_seeds no_faults cr seed d seeds (fs, salt)
    = map_option (\<lambda>fs. (fs, salt')) (write_files no_faults d seeds fs)"
  using assms
proof (induction seeds arbitrary: fs salt)
  case (Cons x seeds)
  obtain n b where x: "x = (n, b)" by (cases x)
  have sv: "serves cr None NoAuthNoPriv b" and rest: "\<forall>(n, b) \<in> set seeds. serves cr None NoAuthNoPriv b"
    using Cons.prems x by auto
  have ctx: "counters_context dispatch_counters_new None NoAuthNoPriv = Some open_context"
    by (simp add: seed_context fuzz_context)
  obtain response ctx1 salt1 where pr: "process_snmpv3_request cr seed b empty_mib (open_context, salt) = (Some response, (ctx1, salt1))"
    using served_response[OF sv] by (metis surj_pair)
  show ?case
  proof (cases "fs_write no_faults d n b fs")
    case None
    then show ?thesis by (simp add: x ctx pr)
  next
    case (Some fs1)
    then show ?thesis using Cons.IH[OF rest, of fs1 salt1] by (simp add: x ctx pr)
  qed
qed simp

lemma check_auth_seeds_writes:
  assumes "\<forall>(n, b, e) \<in> set seeds. e \<longrightarrow> serves cr (Some seed_user) AuthNoPriv b"
  shows "\<exists>salt'. check_auth_seeds no_faults cr seed seed_user d seeds (fs, salt)
    = map_option (\<lambda>fs. (fs, salt')) (write_files no_faults d (map (\<lambda>(n, b, e). (n, b)) seeds) fs)"
  using assms
proof (induction seeds arbitrary: fs salt)
  case (Cons x seeds)
  obtain n b e where x: "x = (n, b, e)" by (cases x)
  have sv: "e \<longrightarrow> serves cr (Some seed_user) AuthNoPriv b"
    and rest: "\<forall>(n, b, e) \<in> set seeds. e \<longrightarrow> serves cr (Some seed_user) AuthNoPriv b"
    using Cons.prems x by auto
  let ?ctx = "DispatchContext (fuzz_inputs (Some seed_user) AuthNoPriv)"
  obtain sent ctx1 salt1 where pr: "process_snmpv3_request cr seed b empty_mib (?ctx, salt) = (sent, (ctx1, salt1))"
    by (rule prod_cases3)
  have ok: "\<not> (e \<and> sent = None)"
  proof
    assume no: "e \<and> sent = None"
    then have "serves cr (Some seed_user) AuthNoPriv b" using sv by simp
    from served_response[OF this, of seed salt] show False using pr no by auto
  qed
  show ?case
  proof (cases "fs_write no_faults d n b fs")
    case None
    then show ?thesis by (simp add: x seed_auth_context pr)
  next
    case (Some fs1)
    then show ?thesis using Cons.IH[OF rest, of fs1 salt1] ok by (auto simp: x seed_auth_context pr)
  qed
qed simp

lemma written_files:
  assumes "fs_ok fs" "distinct (map fst seeds)"
  obtains fs0 fs' where "create_dir_all no_faults d fs = Some fs0" "write_files no_faults d seeds fs0 = Some fs'" "fs_ok fs'"
    "dom fs \<subseteq> dom fs'" "d \<in> dom fs'" "\<forall>(n, b) \<in> set seeds. fs_view fs' (d, n) = Some (FileNode b)"
    "\<forall>d' n. d' \<noteq> d \<longrightarrow> fs_view fs' (d', n) = fs_view fs (d', n)"
proof -
  obtain fs0 where 0: "create_dir_all no_faults d fs = Some fs0" "fs_ok fs0" "d \<in> dom fs0" "dom fs \<subseteq> dom fs0"
    "fs_view fs0 = fs_view fs" by (rule create_dir_all_view[OF assms(1)])
  obtain fs' where 1: "write_files no_faults d seeds fs0 = Some fs'" "fs_ok fs'" "dom fs' = dom fs0"
    "fs_view fs' = fs_view fs0 ++ map_of (rev (map (\<lambda>(n, b). ((d, n), FileNode b)) seeds))"
    by (rule write_files_view[OF 0(2,3)])
  let ?es = "rev (map (\<lambda>(n, b). ((d, n), FileNode b)) seeds)"
  have keys: "map fst ?es = rev (map (Pair d) (map fst seeds))" by (simp add: rev_map case_prod_unfold comp_def)
  have "distinct (map fst ?es)" unfolding keys using assms(2) by (simp add: distinct_map comp_def inj_on_def)
  then have "fs_view fs' (d, n) = Some (FileNode b)" if "(n, b) \<in> set seeds" for n b
    using that unfolding 1(4) by (intro map_add_find_right map_of_is_SomeI) force+
  moreover have "map_of ?es (d', n) = None" if "d' \<noteq> d" for d' n using that by (auto simp: map_of_eq_None_iff)
  then have "fs_view fs' (d', n) = fs_view fs (d', n)" if "d' \<noteq> d" for d' n
    using that unfolding 1(4) 0(5) by (simp add: map_add_def)
  ultimately have "\<forall>(n, b) \<in> set seeds. fs_view fs' (d, n) = Some (FileNode b)" "\<forall>d' n. d' \<noteq> d \<longrightarrow> fs_view fs' (d', n) = fs_view fs (d', n)"
    by auto
  then show thesis using that[OF 0(1) 1(1,2)] 0(3,4) 1(3) by simp
qed

lemma corpus_dirs_distinct: "distinct [SNMPV3_REQUEST_CORPUS_DIR, TCP_FRAMING_CORPUS_DIR, AUTH_CORPUS_DIR,
    STRUCTURED_CORPUS_DIR, AUTH_STRUCTURED_CORPUS_DIR]"
  by (simp add: SNMPV3_REQUEST_CORPUS_DIR_def TCP_FRAMING_CORPUS_DIR_def AUTH_CORPUS_DIR_def
      STRUCTURED_CORPUS_DIR_def AUTH_STRUCTURED_CORPUS_DIR_def)

lemma seed_names: "\<not> is_cross_pollinated ''get_request''" "\<not> is_cross_pollinated ''get_next_request''"
    "\<not> is_cross_pollinated ''get_bulk_request''" "\<not> is_cross_pollinated ''set_request''"
    "\<not> is_cross_pollinated ''auth_get_request_valid_hmac''"
  by (simp_all add: is_cross_pollinated_def CROSS_POLLINATED_PREFIX_def)

text \<open>The two cross-pollinations at the end do not disturb each other.\<close>

lemma cross_pollinations:
  assumes "fs_ok fs" "s1 \<in> dom fs" "s2 \<in> dom fs" "u1 \<in> dom fs" "u2 \<in> dom fs" "distinct [s1, s2, u1, u2]"
  obtains fs1 fs2 c1 k1 c2 k2 where "cross_pollinate no_faults s1 u1 (reencode arb1 enc1) fs = Some (fs1, c1, k1)"
    "cross_pollinate no_faults s2 u2 (reencode arb2 enc2) fs1 = Some (fs2, c2, k2)"
    "\<forall>d n. \<not> is_cross_pollinated n \<longrightarrow> fs_view fs2 (d, n) = fs_view fs (d, n)"
    "pollinated_from fs2 s1 u1 arb1 enc1" "pollinated_from fs2 s2 u2 arb2 enc2"
proof -
  have ne: "s1 \<noteq> u1" "s2 \<noteq> u2" "u1 \<noteq> u2" "s1 \<noteq> u2" using assms(6) by auto
  obtain fs1 c1 k1 where 1: "cross_pollinate no_faults s1 u1 (reencode arb1 enc1) fs = Some (fs1, c1, k1)" "fs_ok fs1"
    "dom fs1 = dom fs" "pollinated_from fs1 s1 u1 arb1 enc1"
    "\<forall>d n. d \<noteq> u1 \<or> \<not> is_cross_pollinated n \<longrightarrow> fs_view fs1 (d, n) = fs_view fs (d, n)"
    using cross_pollinate_exact[OF assms(1,2,4) ne(1), of arb1 enc1] by blast
  have i: "s2 \<in> dom fs1" "u2 \<in> dom fs1" using assms(3,5) 1(3) by simp_all
  obtain fs2 c2 k2 where 2: "cross_pollinate no_faults s2 u2 (reencode arb2 enc2) fs1 = Some (fs2, c2, k2)"
    "pollinated_from fs2 s2 u2 arb2 enc2"
    "\<forall>d n. d \<noteq> u2 \<or> \<not> is_cross_pollinated n \<longrightarrow> fs_view fs2 (d, n) = fs_view fs1 (d, n)"
    using cross_pollinate_exact[OF 1(2) i ne(2), of arb2 enc2] by blast
  have "pollinated_from fs2 s1 u1 arb1 enc1" using 1(4) 2(3) ne(3,4) by (simp add: pollinated_from_def)
  then show thesis using that[OF 1(1) 2(1) _ _ 2(2)] 1(5) 2(3) by simp
qed

lemma fixed_stage:
  assumes "fs_ok fs" "w = write_tcp_framing_seeds \<or> w = write_structured_seeds"
  obtains fs0 fs' where "create_dir_all no_faults d fs = Some fs0" "w no_faults d fs0 = Some fs'" "fs_ok fs'"
    "dom fs \<subseteq> dom fs'" "d \<in> dom fs'" "\<forall>d' n. d' \<noteq> d \<longrightarrow> fs_view fs' (d', n) = fs_view fs (d', n)"
proof -
  have "\<exists>seeds. w no_faults d = write_files no_faults d seeds \<and> distinct (map fst seeds)"
    using assms(2) by (elim disjE; hypsubst) (intro exI conjI, rule write_tcp_framing_seeds_def write_structured_seeds_def, simp)+
  then obtain seeds where s: "w no_faults d = write_files no_faults d seeds" "distinct (map fst seeds)" by blast
  obtain fs0 fs' where w: "create_dir_all no_faults d fs = Some fs0" "write_files no_faults d seeds fs0 = Some fs'" "fs_ok fs'"
    "dom fs \<subseteq> dom fs'" "d \<in> dom fs'" "\<forall>(n, b) \<in> set seeds. fs_view fs' (d, n) = Some (FileNode b)"
    "\<forall>d' n. d' \<noteq> d \<longrightarrow> fs_view fs' (d', n) = fs_view fs (d', n)"
    by (rule written_files[OF assms(1) s(2)])
  show thesis by (rule that[OF w(1) _ w(3-5) w(7)]) (simp_all add: s(1) w(2))
qed

lemma request_stage:
  assumes "rasn_ok r" "crypto_ok cr" "fs_ok fs"
  obtains fs0 fs' salt' get_request get_next_request get_bulk_request set_request where
    "create_dir_all no_faults d fs = Some fs0"
    "write_snmpv3_request_seeds no_faults r cr seed d (fs0, salt) = Some (fs', salt')"
    "fs_ok fs'" "d \<in> dom fs'" "dom fs \<subseteq> dom fs'"
    "fs_view fs' (d, ''get_request'') = Some (FileNode get_request)"
    "fs_view fs' (d, ''get_next_request'') = Some (FileNode get_next_request)"
    "fs_view fs' (d, ''get_bulk_request'') = Some (FileNode get_bulk_request)"
    "fs_view fs' (d, ''set_request'') = Some (FileNode set_request)"
    "\<forall>b \<in> {get_request, get_next_request, get_bulk_request, set_request}. serves cr None NoAuthNoPriv b"
proof -
  obtain q1 q2 q3 q4 where q: "snmpv3_request_seeds r = Some [(''get_request'', q1), (''get_next_request'', q2),
      (''get_bulk_request'', q3), (''set_request'', q4)]" "\<forall>b \<in> {q1, q2, q3, q4}. serves cr None NoAuthNoPriv b"
    by (rule request_seeds_served[OF assms(1,2)])
  let ?qs = "[(''get_request'', q1), (''get_next_request'', q2), (''get_bulk_request'', q3), (''set_request'', q4)]"
  have ds: "distinct (map fst ?qs)" by simp
  have sv: "\<forall>(n, b) \<in> set ?qs. serves cr None NoAuthNoPriv b" using q(2) by simp
  obtain fs0 fs' where w: "create_dir_all no_faults d fs = Some fs0" "write_files no_faults d ?qs fs0 = Some fs'" "fs_ok fs'"
    "dom fs \<subseteq> dom fs'" "d \<in> dom fs'" "\<forall>(n, b) \<in> set ?qs. fs_view fs' (d, n) = Some (FileNode b)"
    "\<forall>d' n. d' \<noteq> d \<longrightarrow> fs_view fs' (d', n) = fs_view fs (d', n)"
    by (rule written_files[OF assms(3) ds])
  obtain salt' where "check_request_seeds no_faults cr seed d ?qs (fs0, salt) = Some (fs', salt')"
    using check_request_seeds_writes[OF sv, of seed d fs0 salt] unfolding w(2) by auto
  then have "write_snmpv3_request_seeds no_faults r cr seed d (fs0, salt) = Some (fs', salt')"
    unfolding write_snmpv3_request_seeds_def q(1) bind.bind_lunit .
  then show thesis using that[OF w(1) _ w(3,5,4) _ _ _ _ q(2)] w(6) by simp
qed

lemma auth_stage:
  assumes "rasn_ok r" "crypto_ok cr" "fs_ok fs"
  obtains fs0 fs' salt' valid_hmac where
    "create_dir_all no_faults d fs = Some fs0" "write_auth_seeds no_faults r cr seed d (fs0, salt) = Some (fs', salt')"
    "fs_ok fs'" "d \<in> dom fs'" "dom fs \<subseteq> dom fs'" "\<forall>d' n. d' \<noteq> d \<longrightarrow> fs_view fs' (d', n) = fs_view fs (d', n)"
    "fs_view fs' (d, ''auth_get_request_valid_hmac'') = Some (FileNode valid_hmac)"
    "build_authenticated_frame r cr = Some valid_hmac" "serves cr auth_user AuthNoPriv valid_hmac"
proof -
  obtain a1 a2 a3 a4 where a: "auth_seeds r cr = Some [(''auth_get_request_valid_hmac'', a1, True), (''auth_get_request'', a2, False),
       (''auth_get_request_wrong_user'', a3, False), (''noauth_get_request'', a4, False)]" "serves cr (Some seed_user) AuthNoPriv a1"
    by (rule auth_seeds_served[OF assms(1,2)])
  let ?as = "[(''auth_get_request_valid_hmac'', a1, True), (''auth_get_request'', a2, False),
       (''auth_get_request_wrong_user'', a3, False), (''noauth_get_request'', a4, False)]"
  let ?qs = "map (\<lambda>(n, b, e). (n, b)) ?as"
  have ds: "distinct (map fst ?qs)" by simp
  have sv: "\<forall>(n, b, e) \<in> set ?as. e \<longrightarrow> serves cr (Some seed_user) AuthNoPriv b" using a(2) by simp
  obtain fs0 fs' where w: "create_dir_all no_faults d fs = Some fs0" "write_files no_faults d ?qs fs0 = Some fs'" "fs_ok fs'"
    "dom fs \<subseteq> dom fs'" "d \<in> dom fs'" "\<forall>(n, b) \<in> set ?qs. fs_view fs' (d, n) = Some (FileNode b)"
    "\<forall>d' n. d' \<noteq> d \<longrightarrow> fs_view fs' (d', n) = fs_view fs (d', n)"
    by (rule written_files[OF assms(3) ds])
  have us: "auth_user = Some seed_user" by (simp add: auth_user_eval)
  obtain salt' where "check_auth_seeds no_faults cr seed seed_user d ?as (fs0, salt) = Some (fs', salt')"
    using check_auth_seeds_writes[OF sv, of seed d fs0 salt] unfolding w(2) by auto
  then have r: "write_auth_seeds no_faults r cr seed d (fs0, salt) = Some (fs', salt')"
    unfolding write_auth_seeds_def a(1) by (subst us) (simp only: bind.bind_lunit)
  have b: "build_authenticated_frame r cr = Some a1"
    using a(1) unfolding auth_seeds_def by (auto split: Option.bind_splits)
  have s: "serves cr auth_user AuthNoPriv a1" using a(2) us by simp
  have mem: "(''auth_get_request_valid_hmac'', a1) \<in> set ?qs" by simp
  show thesis by (rule that[OF w(1) r w(3,5,4,7) bspec[OF w(6) mem, simplified] b s])
qed

definition seeds_in_place :: "corpus_fs \<Rightarrow> 'e rasn \<Rightarrow> crypto \<Rightarrow> bool" where
  "seeds_in_place fs r cr \<longleftrightarrow>
     (\<exists>get_request get_next_request get_bulk_request set_request valid_hmac.
        fs_view fs (SNMPV3_REQUEST_CORPUS_DIR, ''get_request'') = Some (FileNode get_request)
      \<and> fs_view fs (SNMPV3_REQUEST_CORPUS_DIR, ''get_next_request'') = Some (FileNode get_next_request)
      \<and> fs_view fs (SNMPV3_REQUEST_CORPUS_DIR, ''get_bulk_request'') = Some (FileNode get_bulk_request)
      \<and> fs_view fs (SNMPV3_REQUEST_CORPUS_DIR, ''set_request'') = Some (FileNode set_request)
      \<and> (\<forall>b \<in> {get_request, get_next_request, get_bulk_request, set_request}. serves cr None NoAuthNoPriv b)
      \<and> fs_view fs (AUTH_CORPUS_DIR, ''auth_get_request_valid_hmac'') = Some (FileNode valid_hmac)
      \<and> build_authenticated_frame r cr = Some valid_hmac \<and> serves cr auth_user AuthNoPriv valid_hmac)"



end
