(* ===== verification/Coverage_Tool.thy ===== *)
theory Coverage_Tool
  imports Prelude "HOL-Library.List_Lexorder" "HOL-Library.Char_ord"
begin

text \<open>
  The requirement coverage checker (\<open>src/tools/req_coverage_check.py\<close>). The file system is a list of
  absolute paths with what lies there; Python's sets and dictionaries are sets and maps, its
  exceptions are values. Text consists of the 256 characters of \<open>char\<close>. The TOML parser is a
  parameter, from text to its value. Printed lines are values of a datatype. The lemmas show that
  the regular expressions find every occurrence, that the project root is the nearest one, and that
  the verdict is exactly that of the documented rule.
\<close>

section \<open>Python values and errors\<close>

datatype py_error =
    FileNotFoundError | NotADirectoryError | IsADirectoryError | UnicodeDecodeError | TOMLDecodeError
  | KeyError | AttributeError | TypeError | ValueError

datatype Toml =
    TString string | TInteger int | TBoolean bool | TOther string
  | TArray "Toml list" | TTable "(string \<times> Toml) list"

text \<open>\<open>d.get(k)\<close>, \<open>d.get(k, default)\<close>, \<open>d[k]\<close> and iteration.\<close>

fun py_get :: "Toml \<Rightarrow> string \<Rightarrow> py_error + Toml option" where
  "py_get (TTable kvs) k = Inr (map_of kvs k)"
| "py_get _ k = Inl AttributeError"

definition py_get_or :: "Toml \<Rightarrow> string \<Rightarrow> Toml \<Rightarrow> py_error + Toml" where
  "py_get_or v k d = rbind (py_get v k) (\<lambda>x. Inr (case x of None \<Rightarrow> d | Some w \<Rightarrow> w))"

fun py_item :: "Toml \<Rightarrow> string \<Rightarrow> py_error + Toml" where
  "py_item (TTable kvs) k = ok_or (map_of kvs k) KeyError"
| "py_item _ k = Inl TypeError"

fun py_iter :: "Toml \<Rightarrow> py_error + Toml list" where
  "py_iter (TArray xs) = Inr xs"
| "py_iter (TString s) = Inr (map (\<lambda>c. TString [c]) s)"
| "py_iter (TTable kvs) = Inr (map (TString \<circ> fst) kvs)"
| "py_iter _ = Inl TypeError"

fun py_string :: "Toml \<Rightarrow> py_error + string" where
  "py_string (TString s) = Inr s"
| "py_string _ = Inl TypeError"

fun hashable :: "Toml \<Rightarrow> bool" where
  "hashable (TArray _) = False"
| "hashable (TTable _) = False"
| "hashable _ = True"

section \<open>Files\<close>

datatype fs_entry = TextFile string | BinaryFile | Directory

type_synonym path = "string list"
type_synonym tree = "(path \<times> fs_entry) list"
type_synonym toml_parser = "string \<Rightarrow> Toml option"

definition entry_at :: "tree \<Rightarrow> path \<Rightarrow> fs_entry option" where
  "entry_at t p = (if p = [] then Some Directory else map_of t p)"

definition is_file :: "tree \<Rightarrow> path \<Rightarrow> bool" where
  "is_file t p \<longleftrightarrow> (case entry_at t p of Some (TextFile _) \<Rightarrow> True | Some BinaryFile \<Rightarrow> True | _ \<Rightarrow> False)"

definition is_dir :: "tree \<Rightarrow> path \<Rightarrow> bool" where
  "is_dir t p \<longleftrightarrow> entry_at t p = Some Directory"

definition read_text :: "tree \<Rightarrow> path \<Rightarrow> py_error + string" where
  "read_text t p =
     (case entry_at t p of
        None \<Rightarrow> Inl FileNotFoundError
      | Some Directory \<Rightarrow> Inl IsADirectoryError
      | Some BinaryFile \<Rightarrow> Inl UnicodeDecodeError
      | Some (TextFile s) \<Rightarrow> Inr s)"

definition load_toml :: "toml_parser \<Rightarrow> tree \<Rightarrow> path \<Rightarrow> py_error + Toml" where
  "load_toml toml t p = rbind (read_text t p) (\<lambda>s. ok_or (toml s) TOMLDecodeError)"

definition iterdir :: "tree \<Rightarrow> path \<Rightarrow> py_error + string list" where
  "iterdir t d =
     (case entry_at t d of
        None \<Rightarrow> Inl FileNotFoundError
      | Some Directory \<Rightarrow> Inr (sort (remdups [last p. (p, e) \<leftarrow> t, p \<noteq> [] \<and> butlast p = d]))
      | Some _ \<Rightarrow> Inl NotADirectoryError)"

definition ends_with :: "string \<Rightarrow> string \<Rightarrow> bool" where
  "ends_with suffix s \<longleftrightarrow> length suffix \<le> length s \<and> drop (length s - length suffix) s = suffix"

definition rglob :: "tree \<Rightarrow> path \<Rightarrow> string \<Rightarrow> path list" where
  "rglob t d suffix = [p. (p, e) \<leftarrow> t, length d < length p \<and> take (length d) p = d \<and> ends_with suffix (last p)]"

text \<open>\<open>directory / relative\<close>, and the walk of the operating system along the components.\<close>

fun split_slash :: "string \<Rightarrow> string list" where
  "split_slash [] = [[]]"
| "split_slash (c # cs) =
     (if c = CHR ''/'' then [] # split_slash cs
      else (case split_slash cs of [] \<Rightarrow> [[c]] | p # ps \<Rightarrow> (c # p) # ps))"

fun walk_path :: "tree \<Rightarrow> path \<Rightarrow> string list \<Rightarrow> py_error + path" where
  "walk_path t p [] = Inr p"
| "walk_path t p (c # cs) =
     (case entry_at t p of
        None \<Rightarrow> Inl FileNotFoundError
      | Some Directory \<Rightarrow> walk_path t (if c = ''..'' then butlast p else p @ [c]) cs
      | Some _ \<Rightarrow> Inl NotADirectoryError)"

definition join_path :: "tree \<Rightarrow> path \<Rightarrow> string \<Rightarrow> py_error + path" where
  "join_path t d rel =
     (let parts = filter (\<lambda>c. c \<noteq> [] \<and> c \<noteq> ''.'') (split_slash rel)
      in walk_path t (case rel of [] \<Rightarrow> d | c # _ \<Rightarrow> if c = CHR ''/'' then [] else d) parts)"

section \<open>Text\<close>

fun starts_with :: "string \<Rightarrow> string \<Rightarrow> bool" where
  "starts_with [] s = True"
| "starts_with (c # cs) [] = False"
| "starts_with (c # cs) (d # ds) = (c = d \<and> starts_with cs ds)"

text \<open>\<open>sub in s\<close>.\<close>

fun contains :: "string \<Rightarrow> string \<Rightarrow> bool" where
  "contains sub [] = (sub = [])"
| "contains sub (c # cs) = (starts_with sub (c # cs) \<or> contains sub cs)"

definition line_break :: "char \<Rightarrow> bool" where
  "line_break c \<longleftrightarrow> (of_char c :: nat) \<in> {10, 11, 12, 13, 28, 29, 30, 133}"

text \<open>\<open>str.splitlines\<close>, with the current line, reversed, as the first argument. That reading a text file
  turns each line ending into a newline does not change the lines.\<close>

fun splitlines_from :: "string \<Rightarrow> string \<Rightarrow> string list" where
  "splitlines_from cur [] = (if cur = [] then [] else [rev cur])"
| "splitlines_from cur [c] = (if line_break c then [rev cur] else [rev (c # cur)])"
| "splitlines_from cur (c # d # cs) =
     (if c = CHR 0x0D \<and> d = CHR 0x0A then rev cur # splitlines_from [] cs
      else if line_break c then rev cur # splitlines_from [] (d # cs)
      else splitlines_from (c # cur) (d # cs))"

definition splitlines :: "string \<Rightarrow> string list" where
  "splitlines s = splitlines_from [] s"

text \<open>\<open>re.findall\<close> for a pattern all of whose matches have the same width.\<close>

function findall :: "(string \<Rightarrow> bool) \<Rightarrow> nat \<Rightarrow> string \<Rightarrow> string list" where
  "findall matches width [] = []"
| "findall matches width (c # cs) =
     (if matches (take width (c # cs)) then take width (c # cs) # findall matches width (drop (width - 1) cs)
      else findall matches width cs)"
  by pat_completeness auto
termination by (relation "measure (\<lambda>(_, _, s). length s)") auto

fun digit :: "char \<Rightarrow> bool" where
  "digit c \<longleftrightarrow> c \<in> set ''0123456789''"

text \<open>The patterns \<open>REQ-\d{4}\<close> and \<open>\[REQ-\d{4}\]\<close>.\<close>

definition is_req_id :: "string \<Rightarrow> bool" where
  "is_req_id w \<longleftrightarrow> length w = 8 \<and> take 4 w = ''REQ-'' \<and> list_all digit (drop 4 w)"

definition is_req_tag :: "string \<Rightarrow> bool" where
  "is_req_tag w \<longleftrightarrow> length w = 10 \<and> hd w = CHR ''['' \<and> is_req_id (take 8 (tl w)) \<and> last w = CHR '']''"

section \<open>The project root\<close>

function find_project_root :: "tree \<Rightarrow> path \<Rightarrow> py_error + path" where
  "find_project_root t candidate =
     (if is_dir t (candidate @ [''gov'', ''rfc'']) then Inr candidate
      else if candidate = [] then Inl FileNotFoundError
      else find_project_root t (butlast candidate))"
  by pat_completeness auto
termination by (relation "measure (\<lambda>(_, p). length p)") auto

declare find_project_root.simps [simp del]

section \<open>Requirements\<close>

record ImplementedRfc =
  rfc_dir :: path
  rfc_record :: Toml

definition load_rfc :: "toml_parser \<Rightarrow> tree \<Rightarrow> string set option \<Rightarrow> path \<Rightarrow> py_error + ImplementedRfc list" where
  "load_rfc toml t force_rfc_ids d =
     (if \<not> is_file t (d @ [''rfc.toml'']) then Inr []
      else
        rbind (load_toml toml t (d @ [''rfc.toml''])) (\<lambda>rec.
        rbind (py_item rec ''govctl'') (\<lambda>govctl.
        rbind (py_item govctl ''id'') (\<lambda>rfc_id.
        rbind (py_get govctl ''status'') (\<lambda>status.
        if status = Some (TString ''deprecated'') then Inr []
        else
          rbind (py_get govctl ''phase'') (\<lambda>phase.
          let phase_qualifies = phase \<in> {Some (TString ''test''), Some (TString ''stable'')}
          in rbind (case force_rfc_ids of
                 None \<Rightarrow> Inr False
               | Some ids \<Rightarrow> if hashable rfc_id then Inr (rfc_id \<in> TString ` ids) else Inl TypeError) (\<lambda>force_included.
             Inr (if phase_qualifies \<or> force_included then [\<lparr>rfc_dir = d, rfc_record = rec\<rparr>] else []))))))))"

definition load_implemented_rfcs ::
  "toml_parser \<Rightarrow> tree \<Rightarrow> path \<Rightarrow> string set option \<Rightarrow> py_error + ImplementedRfc list" where
  "load_implemented_rfcs toml t gov_dir force_rfc_ids =
     (let rfc_root = gov_dir @ [''rfc'']
      in rbind (iterdir t rfc_root) (\<lambda>names.
         rbind (rcollect (\<lambda>n. load_rfc toml t force_rfc_ids (rfc_root @ [n])) names) (\<lambda>rfcs. Inr (concat rfcs))))"

definition extract_req_ids_from_clause_text :: "string \<Rightarrow> string set" where
  "extract_req_ids_from_clause_text clause_text = (\<lambda>tag. butlast (tl tag)) ` set (findall is_req_tag 10 clause_text)"

text \<open>The texts of the clauses of an RFC in order, and the requirements in them.\<close>

definition clause_text :: "toml_parser \<Rightarrow> tree \<Rightarrow> path \<Rightarrow> Toml \<Rightarrow> py_error + string" where
  "clause_text toml t d clause_relative_path =
     rbind (py_string clause_relative_path) (\<lambda>rel.
     rbind (join_path t d rel) (\<lambda>clause_path.
     rbind (load_toml toml t clause_path) (\<lambda>clause_toml.
     rbind (py_get_or clause_toml ''content'' (TTable [])) (\<lambda>content.
     rbind (py_get_or content ''text'' (TString [])) py_string))))"

definition rfc_texts :: "toml_parser \<Rightarrow> tree \<Rightarrow> ImplementedRfc \<Rightarrow> py_error + string list" where
  "rfc_texts toml t rfc =
     rbind (py_get_or (rfc_record rfc) ''sections'' (TArray [])) (\<lambda>sections.
     rbind (py_iter sections) (\<lambda>sections.
     rbind (rcollect (\<lambda>section.
         rbind (py_get_or section ''clauses'' (TArray [])) (\<lambda>clauses.
         rbind (py_iter clauses) (\<lambda>clauses.
         rcollect (clause_text toml t (rfc_dir rfc)) clauses))) sections) (\<lambda>texts.
     Inr (concat texts))))"

definition collect_requirements_from_rfc :: "toml_parser \<Rightarrow> tree \<Rightarrow> ImplementedRfc \<Rightarrow> py_error + string set" where
  "collect_requirements_from_rfc toml t rfc =
     rbind (rfc_texts toml t rfc) (\<lambda>texts. Inr (\<Union>text \<in> set texts. extract_req_ids_from_clause_text text))"

definition collect_all_requirements :: "toml_parser \<Rightarrow> tree \<Rightarrow> ImplementedRfc list \<Rightarrow> py_error + string set" where
  "collect_all_requirements toml t implemented_rfcs =
     rbind (rcollect (collect_requirements_from_rfc toml t) implemented_rfcs) (\<lambda>sets. Inr (\<Union>(set sets)))"

text \<open>The identifiers that more than one RFC defines, sorted, with the defining RFCs in order.\<close>

definition find_duplicate_req_ids ::
  "toml_parser \<Rightarrow> tree \<Rightarrow> ImplementedRfc list \<Rightarrow> py_error + (string \<times> Toml list) list" where
  "find_duplicate_req_ids toml t implemented_rfcs =
     rbind (rcollect (\<lambda>rfc.
         rbind (rbind (py_item (rfc_record rfc) ''govctl'') (\<lambda>govctl. py_item govctl ''id'')) (\<lambda>rfc_id.
         rbind (collect_requirements_from_rfc toml t rfc) (\<lambda>req_ids. Inr (rfc_id, req_ids)))) implemented_rfcs)
       (\<lambda>per_rfc_req_ids.
         Inr [(req_id, rfc_ids).
              req_id \<leftarrow> sorted_list_of_set (\<Union>(snd ` set per_rfc_req_ids)),
              rfc_ids \<leftarrow> [[rfc_id. (rfc_id, req_ids) \<leftarrow> per_rfc_req_ids, req_id \<in> req_ids]],
              length rfc_ids > 1])"

section \<open>Annotations\<close>

definition extract_req_ids_from_annotation_line :: "string \<Rightarrow> string \<Rightarrow> string set" where
  "extract_req_ids_from_annotation_line line marker =
     (if \<not> contains marker line then {} else set (findall is_req_id 8 line))"

definition scan_rust_file_for_annotations :: "tree \<Rightarrow> path \<Rightarrow> py_error + (string set \<times> string set)" where
  "scan_rust_file_for_annotations t rust_file =
     rbind (read_text t rust_file) (\<lambda>text.
     Inr (\<Union>line \<in> set (splitlines text). extract_req_ids_from_annotation_line line ''Implements:'',
          \<Union>line \<in> set (splitlines text). extract_req_ids_from_annotation_line line ''Verifies:''))"

definition scan_rust_coverage :: "tree \<Rightarrow> path \<Rightarrow> py_error + (string set \<times> string set)" where
  "scan_rust_coverage t project_root =
     rbind (rcollect (scan_rust_file_for_annotations t) (rglob t project_root ''.rs'')) (\<lambda>ids.
     Inr (\<Union>(fst ` set ids), \<Union>(snd ` set ids)))"

definition scan_feature_file_for_req_tags :: "tree \<Rightarrow> path \<Rightarrow> py_error + string set" where
  "scan_feature_file_for_req_tags t feature_file =
     rbind (read_text t feature_file) (\<lambda>text.
     Inr (\<Union>line \<in> set (splitlines text). if contains ''@REQ-'' line then set (findall is_req_id 8 line) else {}))"

definition scan_behave_coverage :: "tree \<Rightarrow> path \<Rightarrow> py_error + string set" where
  "scan_behave_coverage t project_root =
     (let features_dir = project_root @ [''tests'', ''system'', ''features'']
      in rbind (rcollect (scan_feature_file_for_req_tags t) (rglob t features_dir ''.feature'')) (\<lambda>sets. Inr (\<Union>(set sets))))"

section \<open>Exemptions\<close>

definition COVERAGE_KINDS :: "string list" where
  "COVERAGE_KINDS = [''code'', ''rust_test'', ''behave_test'']"

type_synonym ExemptionMap = "Toml \<rightharpoonup> string set"
type_synonym CoverageMap = "string \<rightharpoonup> string set"

fun add_exemptions :: "Toml list \<Rightarrow> ExemptionMap \<Rightarrow> py_error + ExemptionMap" where
  "add_exemptions [] exemptions = Inr exemptions"
| "add_exemptions (gap_entry # gaps) exemptions =
     rbind (py_item gap_entry ''req'') (\<lambda>req_id.
     rbind (py_get_or gap_entry ''missing'' (TArray [])) (\<lambda>missing.
     rbind (py_iter missing) (\<lambda>missing_kinds.
     if \<not> list_all (\<lambda>kind. kind \<in> TString ` set COVERAGE_KINDS) missing_kinds then Inl ValueError
     else if \<not> hashable req_id then Inl TypeError
     else add_exemptions gaps (exemptions(req_id \<mapsto> set [kind. TString kind \<leftarrow> missing_kinds])))))"

definition load_exemptions :: "toml_parser \<Rightarrow> tree \<Rightarrow> path \<Rightarrow> py_error + ExemptionMap" where
  "load_exemptions toml t gov_dir =
     (let gap_file = gov_dir @ [''req-coverage-gaps.toml'']
      in if \<not> is_file t gap_file then Inr Map.empty
         else
           rbind (load_toml toml t gap_file) (\<lambda>parsed_gaps.
           rbind (py_get_or parsed_gaps ''gap'' (TArray [])) (\<lambda>gaps.
           rbind (py_iter gaps) (\<lambda>gaps. add_exemptions gaps Map.empty))))"

section \<open>The check\<close>

definition build_coverage_map :: "string set \<Rightarrow> string set \<Rightarrow> string set \<Rightarrow> CoverageMap" where
  "build_coverage_map code_ids rust_test_ids behave_ids =
     (\<lambda>req_id. if req_id \<in> code_ids \<union> rust_test_ids \<union> behave_ids
        then Some ((if req_id \<in> code_ids then {''code''} else {})
          \<union> (if req_id \<in> rust_test_ids then {''rust_test''} else {})
          \<union> (if req_id \<in> behave_ids then {''behave_test''} else {}))
        else None)"

definition check_coverage :: "string set \<Rightarrow> CoverageMap \<Rightarrow> ExemptionMap \<Rightarrow> (string \<times> string list) list" where
  "check_coverage required_req_ids coverage_map exemptions =
     [(req_id, missing_kinds).
        req_id \<leftarrow> sorted_list_of_set required_req_ids,
        missing_kinds \<leftarrow> [filter (\<lambda>kind.
            kind \<notin> (case coverage_map req_id of None \<Rightarrow> {} | Some ks \<Rightarrow> ks)
          \<and> kind \<notin> (case exemptions (TString req_id) of None \<Rightarrow> {} | Some ks \<Rightarrow> ks)) COVERAGE_KINDS],
        missing_kinds \<noteq> []]"

definition find_orphaned_annotations :: "string set \<Rightarrow> string set \<Rightarrow> string set" where
  "find_orphaned_annotations annotated_ids required_ids = annotated_ids - required_ids"

datatype out_line =
    Checking nat | Found nat | Blank
  | Warning string "string list"
  | Fail string "string list" | Failed nat | Passed nat
  | Orphan string | StrictFailed nat

text \<open>What follows once everything is loaded.\<close>

definition verdict_of ::
  "bool \<Rightarrow> ImplementedRfc list \<Rightarrow> string set \<Rightarrow> (string \<times> Toml list) list \<Rightarrow> out_line list
    \<Rightarrow> string set \<Rightarrow> string set \<Rightarrow> string set \<Rightarrow> ExemptionMap \<Rightarrow> nat \<times> out_line list" where
  "verdict_of strict implemented_rfcs required_req_ids duplicates warnings code_ids rust_test_ids behave_ids exemptions =
     (let failures = check_coverage required_req_ids (build_coverage_map code_ids rust_test_ids behave_ids) exemptions;
          orphaned_ids = (if strict
            then find_orphaned_annotations (code_ids \<union> rust_test_ids \<union> behave_ids) required_req_ids else {})
      in (if failures \<noteq> [] \<or> orphaned_ids \<noteq> {} then 1 else 0,
           [Checking (length implemented_rfcs), Found (card required_req_ids), Blank]
           @ warnings @ (if duplicates \<noteq> [] then [Blank] else [])
           @ (if failures \<noteq> []
              then map (\<lambda>(req_id, missing_kinds). Fail req_id missing_kinds) failures @ [Blank, Failed (length failures)]
              else [Passed (card required_req_ids)])
           @ (if orphaned_ids \<noteq> {}
              then [Blank] @ map Orphan (sorted_list_of_set orphaned_ids) @ [Blank, StrictFailed (card orphaned_ids)]
              else [])))"

definition run_check ::
  "toml_parser \<Rightarrow> tree \<Rightarrow> path \<Rightarrow> bool \<Rightarrow> string set option \<Rightarrow> py_error + (nat \<times> out_line list)" where
  "run_check toml t project_root strict force_rfc_ids =
     (let gov_dir = project_root @ [''gov''] in
      rbind (load_implemented_rfcs toml t gov_dir force_rfc_ids) (\<lambda>implemented_rfcs.
      rbind (collect_all_requirements toml t implemented_rfcs) (\<lambda>required_req_ids.
      rbind (find_duplicate_req_ids toml t implemented_rfcs) (\<lambda>duplicates.
      rbind (rcollect (\<lambda>(req_id, rfc_ids). rbind (rcollect py_string rfc_ids) (\<lambda>ids. Inr (Warning req_id ids))) duplicates)
        (\<lambda>warnings.
      rbind (scan_rust_coverage t project_root) (\<lambda>(code_ids, rust_test_ids).
      rbind (scan_behave_coverage t project_root) (\<lambda>behave_ids.
      rbind (load_exemptions toml t gov_dir) (\<lambda>exemptions.
      Inr (verdict_of strict implemented_rfcs required_req_ids duplicates warnings code_ids rust_test_ids behave_ids exemptions)))))))))"

text \<open>The command line after parsing: \<open>--root\<close>, \<open>--strict\<close> and the values of \<open>--rfc\<close>.\<close>

record tool_args =
  arg_root :: "path option"
  arg_strict :: bool
  arg_force_rfc_ids :: "string list"

definition coverage_main :: "toml_parser \<Rightarrow> tree \<Rightarrow> path \<Rightarrow> tool_args \<Rightarrow> py_error + (nat \<times> out_line list)" where
  "coverage_main toml t script_dir args =
     rbind (case arg_root args of Some root \<Rightarrow> Inr root | None \<Rightarrow> find_project_root t script_dir) (\<lambda>project_root.
     let force_rfc_ids = (if arg_force_rfc_ids args \<noteq> [] then Some (set (arg_force_rfc_ids args)) else None)
     in run_check toml t project_root (arg_strict args) force_rfc_ids)"

section \<open>Searching text\<close>

definition occurs_in :: "string \<Rightarrow> string \<Rightarrow> bool" where
  "occurs_in sub s \<longleftrightarrow> (\<exists>a b. s = a @ sub @ b)"

lemma starts_with_iff: "starts_with p s \<longleftrightarrow> (\<exists>b. s = p @ b)"
  by (induction p s rule: starts_with.induct) auto

lemma contains_iff: "contains sub s \<longleftrightarrow> occurs_in sub s"
proof (induction s)
  case (Cons c cs)
  have "occurs_in sub (c # cs) \<longleftrightarrow> (\<exists>b. c # cs = sub @ b) \<or> occurs_in sub cs"
  proof
    assume "occurs_in sub (c # cs)"
    then obtain a b where "c # cs = a @ sub @ b" by (auto simp: occurs_in_def)
    then show "(\<exists>b. c # cs = sub @ b) \<or> occurs_in sub cs" by (cases a) (auto simp: occurs_in_def)
  next
    assume "(\<exists>b. c # cs = sub @ b) \<or> occurs_in sub cs"
    then show "occurs_in sub (c # cs)" unfolding occurs_in_def by (metis append_Cons append_Nil)
  qed
  then show ?case using Cons.IH by (simp add: starts_with_iff)
qed (simp add: occurs_in_def)

text \<open>A pattern whose matches have a fixed width and a first character that does not come again: no two
  of its matches overlap, so that scanning from left to right misses none.\<close>

locale window_pattern =
  fixes matches :: "string \<Rightarrow> bool" and width :: nat and first :: char
  assumes match_shape: "matches w \<Longrightarrow> length w = width \<and> hd w = first \<and> first \<notin> set (tl w)"
    and width_pos: "0 < width"
begin

lemma match_cons: "matches w \<Longrightarrow> \<exists>v. w = first # v \<and> first \<notin> set v \<and> length v = width - 1"
  using match_shape[of w] width_pos by (cases w) auto

lemma after_match:
  assumes "matches (take width s)" "s = a @ w @ b" "matches w"
  shows "(a = [] \<and> w = take width s) \<or> (\<exists>a'. drop width s = a' @ w @ b)"
proof -
  obtain v where v: "take width s = first # v" "first \<notin> set v" "length v = width - 1" using match_cons[OF assms(1)] by blast
  obtain u where u: "w = first # u" "length u = width - 1" using match_cons[OF assms(3)] by blast
  have lw: "length w = width" using match_shape[OF assms(3)] by simp
  consider "a = []" | "a \<noteq> []" "length a < width" | "width \<le> length a" by fastforce
  then show ?thesis
  proof cases
    case 1
    then show ?thesis using assms(2) lw by simp
  next
    case 2
    then obtain a0 as where a: "a = a0 # as" by (cases a) auto
    have "take width s = a @ take (width - length a) (w @ b)" using 2(2) assms(2) by simp
    moreover have "first \<in> set (take (width - length a) (w @ b))" using 2(2) u by (cases "width - length a") auto
    ultimately have "first \<in> set v" using v(1) a by auto
    then show ?thesis using v(2) by simp
  next
    case 3
    then have "drop width s = drop width a @ w @ b" using assms(2) by simp
    then show ?thesis by blast
  qed
qed

lemma findall_complete: "set (findall matches width s) = {w. matches w \<and> occurs_in w s}"
proof (induction "length s" arbitrary: s rule: less_induct)
  case less
  show ?case
  proof (cases s)
    case Nil
    have "\<not> matches []" using match_cons by blast
    then show ?thesis using Nil by (auto simp: occurs_in_def)
  next
    case (Cons c cs)
    show ?thesis
    proof (cases "matches (take width s)")
      case True
      have d: "drop width s = drop (width - 1) cs" using Cons width_pos by (cases width) simp_all
      have ih: "set (findall matches width (drop width s)) = {w. matches w \<and> occurs_in w (drop width s)}"
        by (rule less) (use Cons width_pos in simp)
      have "{w. matches w \<and> occurs_in w s} = insert (take width s) {w. matches w \<and> occurs_in w (drop width s)}"
      proof (intro equalityI subsetI)
        fix w
        assume "w \<in> {w. matches w \<and> occurs_in w s}"
        then show "w \<in> insert (take width s) {w. matches w \<and> occurs_in w (drop width s)}"
          using after_match[OF True] by (fastforce simp: occurs_in_def)
      next
        fix w
        assume "w \<in> insert (take width s) {w. matches w \<and> occurs_in w (drop width s)}"
        then show "w \<in> {w. matches w \<and> occurs_in w s}"
          using True unfolding occurs_in_def by (auto) (metis append.assoc append_Nil append_take_drop_id)+
      qed
      then show ?thesis using True ih d Cons by simp
    next
      case False
      have "{w. matches w \<and> occurs_in w s} = {w. matches w \<and> occurs_in w cs}"
      proof (intro equalityI subsetI)
        fix w
        assume "w \<in> {w. matches w \<and> occurs_in w s}"
        then obtain a b where w: "matches w" "s = a @ w @ b" by (auto simp: occurs_in_def)
        have "a \<noteq> []" using False w match_shape[OF w(1)] by auto
        then show "w \<in> {w. matches w \<and> occurs_in w cs}" using w Cons by (cases a) (auto simp: occurs_in_def)
      next
        fix w
        assume "w \<in> {w. matches w \<and> occurs_in w cs}"
        then show "w \<in> {w. matches w \<and> occurs_in w s}" unfolding occurs_in_def Cons by (auto) (metis append_Cons)
      qed
      then show ?thesis using False less[of cs] Cons by simp
    qed
  qed
qed

end

lemma req_id_iff: "is_req_id w \<longleftrightarrow> (\<exists>ds. w = ''REQ-'' @ ds \<and> length ds = 4 \<and> list_all digit ds)"
proof
  assume w: "is_req_id w"
  then have "w = ''REQ-'' @ drop 4 w" using append_take_drop_id[of 4 w] by (simp add: is_req_id_def)
  then show "\<exists>ds. w = ''REQ-'' @ ds \<and> length ds = 4 \<and> list_all digit ds" using w
    by (intro exI[of _ "drop 4 w"]) (simp add: is_req_id_def)
qed (auto simp: is_req_id_def)

lemma digits_only: "list_all digit ds \<Longrightarrow> c \<notin> set ''0123456789'' \<Longrightarrow> c \<notin> set ds"
  unfolding list_all_iff by (metis digit.simps)

interpretation ids: window_pattern is_req_id 8 "CHR ''R''"
proof unfold_locales
  fix w
  assume "is_req_id w"
  then obtain ds where "w = ''REQ-'' @ ds" "length ds = 4" "list_all digit ds" unfolding req_id_iff by blast
  then show "length w = 8 \<and> hd w = CHR ''R'' \<and> CHR ''R'' \<notin> set (tl w)" using digits_only[of ds "CHR ''R''"] by simp
qed simp

lemma req_tag_iff: "is_req_tag w \<longleftrightarrow> (\<exists>r. w = CHR ''['' # r @ [CHR '']''] \<and> is_req_id r)"
proof
  assume w: "is_req_tag w"
  then obtain v where v: "w = CHR ''['' # v" "length v = 9" by (cases w) (auto simp: is_req_tag_def)
  have "last v = CHR '']''" "v \<noteq> []" using w v by (auto simp: is_req_tag_def split: if_splits)
  then have "v = butlast v @ [CHR '']'']" by (metis append_butlast_last_id)
  moreover have "butlast v = take 8 v" using v(2) by (simp add: butlast_conv_take)
  ultimately show "\<exists>r. w = CHR ''['' # r @ [CHR '']''] \<and> is_req_id r" using w v
    by (intro exI[of _ "butlast v"]) (simp add: is_req_tag_def)
next
  assume "\<exists>r. w = CHR ''['' # r @ [CHR '']''] \<and> is_req_id r"
  then obtain r where "w = CHR ''['' # r @ [CHR '']'']" "is_req_id r" by blast
  then show "is_req_tag w" by (simp add: is_req_tag_def) (simp add: is_req_id_def)
qed

interpretation tags: window_pattern is_req_tag 10 "CHR ''[''"
proof unfold_locales
  fix w
  assume "is_req_tag w"
  then obtain ds where "w = CHR ''['' # (''REQ-'' @ ds) @ [CHR '']'']" "length ds = 4" "list_all digit ds"
    unfolding req_tag_iff req_id_iff by blast
  then show "length w = 10 \<and> hd w = CHR ''['' \<and> CHR ''['' \<notin> set (tl w)" using digits_only[of ds "CHR ''[''"] by simp
qed simp

lemma clause_ids: "extract_req_ids_from_clause_text s = {r. is_req_id r \<and> occurs_in (CHR ''['' # r @ [CHR '']'']) s}"
  unfolding extract_req_ids_from_clause_text_def tags.findall_complete req_tag_iff
  by (auto simp: image_iff) (metis butlast_snoc list.sel(3))

lemma annotation_ids: "extract_req_ids_from_annotation_line line marker
    = {r. is_req_id r \<and> occurs_in r line \<and> occurs_in marker line}"
  by (auto simp: extract_req_ids_from_annotation_line_def ids.findall_complete contains_iff)

text \<open>On a line with a tag, an identifier without the at sign counts as covered too.\<close>

lemma bare_mentions_count:
  "scan_behave_coverage [([''tests'', ''system'', ''features'', ''x.feature''], TextFile ''@REQ-0001 # REQ-0002'')] []
    = Inr {''REQ-0001'', ''REQ-0002''}"
  by (simp add: scan_behave_coverage_def rglob_def ends_with_def scan_feature_file_for_req_tags_def read_text_def entry_at_def
      splitlines_def line_break_def is_req_id_def)

section \<open>The verdict\<close>

text \<open>The rule of the documentation: an identifier is required if a clause of an implemented RFC has it in
  brackets, and covered in a kind if a line of a file of the kind has the marker and the identifier.\<close>

definition annotates :: "tree \<Rightarrow> path \<Rightarrow> string \<Rightarrow> string \<Rightarrow> string \<Rightarrow> bool" where
  "annotates t d suffix marker r \<longleftrightarrow>
     (\<exists>p text line. p \<in> set (rglob t d suffix) \<and> read_text t p = Inr text \<and> line \<in> set (splitlines text)
        \<and> occurs_in marker line \<and> occurs_in r line)"

definition covered :: "tree \<Rightarrow> path \<Rightarrow> string \<Rightarrow> string set" where
  "covered t root kind = {r. is_req_id r \<and>
     (kind = ''code'' \<and> annotates t root ''.rs'' ''Implements:'' r
    \<or> kind = ''rust_test'' \<and> annotates t root ''.rs'' ''Verifies:'' r
    \<or> kind = ''behave_test'' \<and> annotates t (root @ [''tests'', ''system'', ''features'']) ''.feature'' ''@REQ-'' r)}"

definition required :: "toml_parser \<Rightarrow> tree \<Rightarrow> ImplementedRfc list \<Rightarrow> string set" where
  "required toml t rfcs = {r. is_req_id r \<and>
     (\<exists>rfc texts text. rfc \<in> set rfcs \<and> rfc_texts toml t rfc = Inr texts \<and> text \<in> set texts
        \<and> occurs_in (CHR ''['' # r @ [CHR '']'']) text)}"

definition gaps :: "tree \<Rightarrow> path \<Rightarrow> ExemptionMap \<Rightarrow> string \<Rightarrow> string list" where
  "gaps t root exemptions r = filter (\<lambda>kind. r \<notin> covered t root kind
     \<and> \<not> (\<exists>ks. exemptions (TString r) = Some ks \<and> kind \<in> ks)) COVERAGE_KINDS"

lemma rcollect_union:
  assumes "rcollect f xs = Inr ys"
  shows "r \<in> \<Union>(g ` set ys) \<longleftrightarrow> (\<exists>x y. x \<in> set xs \<and> f x = Inr y \<and> r \<in> g y)"
proof -
  have m: "map f xs = map Inr ys" using assms by (simp add: rcollect_eq_Inr)
  have "Inr y \<in> f ` set xs \<longleftrightarrow> y \<in> set ys" for y using arg_cong[OF m, of set] by auto
  then show ?thesis by (auto simp: image_iff) metis+
qed

lemma collected_requirements:
  assumes "collect_all_requirements toml t rfcs = Inr ids"
  shows "ids = required toml t rfcs" "finite ids"
proof -
  obtain sets where s: "rcollect (collect_requirements_from_rfc toml t) rfcs = Inr sets" "ids = \<Union>(set sets)"
    using assms by (auto simp: collect_all_requirements_def result_Inr_iffs)
  have "r \<in> ids \<longleftrightarrow> r \<in> required toml t rfcs" for r
    using rcollect_union[OF s(1), of r id] unfolding s(2) required_def collect_requirements_from_rfc_def
    by (auto simp: result_Inr_iffs clause_ids)
  then show "ids = required toml t rfcs" by blast
  have "finite S" if S: "S \<in> set sets" for S
  proof -
    obtain rfc where "collect_requirements_from_rfc toml t rfc = Inr S"
      using rcollect_union[OF s(1), of S "\<lambda>y. {y}"] S by auto
    then show ?thesis by (auto simp: collect_requirements_from_rfc_def result_Inr_iffs extract_req_ids_from_clause_text_def)
  qed
  then show "finite ids" using s(2) by auto
qed

lemma scanned_rust:
  assumes "scan_rust_coverage t root = Inr (code_ids, rust_test_ids)"
  shows "code_ids = covered t root ''code''" "rust_test_ids = covered t root ''rust_test''" "finite code_ids" "finite rust_test_ids"
proof -
  obtain ids where s: "rcollect (scan_rust_file_for_annotations t) (rglob t root ''.rs'') = Inr ids"
    "code_ids = \<Union>(fst ` set ids)" "rust_test_ids = \<Union>(snd ` set ids)"
    using assms by (auto simp: scan_rust_coverage_def result_Inr_iffs)
  have "r \<in> code_ids \<longleftrightarrow> r \<in> covered t root ''code''" "r \<in> rust_test_ids \<longleftrightarrow> r \<in> covered t root ''rust_test''" for r
    unfolding s(2,3) rcollect_union[OF s(1)] covered_def annotates_def scan_rust_file_for_annotations_def
    by (auto simp: result_Inr_iffs annotation_ids)
  then show "code_ids = covered t root ''code''" "rust_test_ids = covered t root ''rust_test''" by blast+
  have "finite (fst S) \<and> finite (snd S)" if S: "S \<in> set ids" for S
  proof -
    obtain p where "scan_rust_file_for_annotations t p = Inr S"
      using rcollect_union[OF s(1), of S "\<lambda>y. {y}"] S by auto
    then show ?thesis by (auto simp: scan_rust_file_for_annotations_def result_Inr_iffs extract_req_ids_from_annotation_line_def)
  qed
  then show "finite code_ids" "finite rust_test_ids" using s(2,3) by auto
qed

lemma scanned_behave:
  assumes "scan_behave_coverage t root = Inr ids"
  shows "ids = covered t root ''behave_test''" "finite ids"
proof -
  obtain sets where s: "rcollect (scan_feature_file_for_req_tags t) (rglob t (root @ [''tests'', ''system'', ''features'']) ''.feature'') = Inr sets"
    "ids = \<Union>(set sets)"
    using assms by (auto simp: scan_behave_coverage_def result_Inr_iffs)
  have "r \<in> ids \<longleftrightarrow> r \<in> covered t root ''behave_test''" for r
    using rcollect_union[OF s(1), of r id] unfolding s(2) covered_def annotates_def scan_feature_file_for_req_tags_def
    by (auto simp: result_Inr_iffs contains_iff ids.findall_complete)
  then show "ids = covered t root ''behave_test''" by blast
  have "finite S" if S: "S \<in> set sets" for S
  proof -
    obtain p where "scan_feature_file_for_req_tags t p = Inr S"
      using rcollect_union[OF s(1), of S "\<lambda>y. {y}"] S by auto
    then show ?thesis by (auto simp: scan_feature_file_for_req_tags_def result_Inr_iffs)
  qed
  then show "finite ids" using s(2) by auto
qed

lemma checked_gaps:
  assumes "finite ids"
  shows "(r, ks) \<in> set (check_coverage ids
      (build_coverage_map (covered t root ''code'') (covered t root ''rust_test'') (covered t root ''behave_test'')) exemptions)
    \<longleftrightarrow> r \<in> ids \<and> ks = gaps t root exemptions r \<and> ks \<noteq> []"
proof -
  let ?c = "build_coverage_map (covered t root ''code'') (covered t root ''rust_test'') (covered t root ''behave_test'')"
  have "kind \<in> (case ?c r of None \<Rightarrow> {} | Some ks \<Rightarrow> ks) \<longleftrightarrow> r \<in> covered t root kind" if "kind \<in> set COVERAGE_KINDS" for kind
    using that by (auto simp: build_coverage_map_def COVERAGE_KINDS_def)
  moreover have "kind \<in> (case exemptions (TString r) of None \<Rightarrow> {} | Some ks \<Rightarrow> ks)
      \<longleftrightarrow> (\<exists>ks. exemptions (TString r) = Some ks \<and> kind \<in> ks)" for kind by (auto split: option.splits)
  ultimately have "filter (\<lambda>kind. kind \<notin> (case ?c r of None \<Rightarrow> {} | Some ks \<Rightarrow> ks)
      \<and> kind \<notin> (case exemptions (TString r) of None \<Rightarrow> {} | Some ks \<Rightarrow> ks)) COVERAGE_KINDS = gaps t root exemptions r"
    unfolding gaps_def by (intro filter_cong) auto
  then show ?thesis using assms by (auto simp: check_coverage_def)
qed

lemma root_is_nearest:
  assumes "find_project_root t p = Inr root"
  shows "\<exists>n \<le> length p. root = take n p \<and> is_dir t (root @ [''gov'', ''rfc''])
    \<and> (\<forall>m. n < m \<longrightarrow> m \<le> length p \<longrightarrow> \<not> is_dir t (take m p @ [''gov'', ''rfc'']))"
  using assms
proof (induction t p rule: find_project_root.induct)
  case (1 t p)
  show ?case
  proof (cases "is_dir t (p @ [''gov'', ''rfc''])")
    case True
    then show ?thesis using 1(2) by (intro exI[of _ "length p"]) (simp add: find_project_root.simps[of t p])
  next
    case False
    then have p: "p \<noteq> []" "find_project_root t (butlast p) = Inr root"
      using 1(2) by (auto simp: find_project_root.simps[of t p] split: if_splits)
    obtain n where n: "n \<le> length (butlast p)" "root = take n (butlast p)" "is_dir t (root @ [''gov'', ''rfc''])"
      "\<And>m. n < m \<Longrightarrow> m \<le> length (butlast p) \<Longrightarrow> \<not> is_dir t (take m (butlast p) @ [''gov'', ''rfc''])"
      using 1(1)[OF False p] by blast
    have tk: "take m (butlast p) = take m p" if "m \<le> length p - 1" for m using that by (simp add: butlast_conv_take)
    have "\<not> is_dir t (take m p @ [''gov'', ''rfc''])" if "n < m" "m \<le> length p" for m
      using that n(4)[of m] False tk[of m] by (cases "m = length p") auto
    then show ?thesis using n(1-3) tk[of n] by (intro exI[of _ n]) auto
  qed
qed

lemma root_missing:
  "find_project_root t p = Inl e \<longleftrightarrow> e = FileNotFoundError \<and> (\<forall>n \<le> length p. \<not> is_dir t (take n p @ [''gov'', ''rfc'']))"
proof (induction t p rule: find_project_root.induct)
  case (1 t p)
  have tk: "take m (butlast p) = take m p" if "m \<le> length p - 1" for m using that by (simp add: butlast_conv_take)
  show ?case
  proof (cases "is_dir t (p @ [''gov'', ''rfc''])")
    case True
    then show ?thesis by (auto simp: find_project_root.simps[of t p] intro: exI[of _ "length p"])
  next
    case False
    show ?thesis
    proof (cases "p = []")
      case True
      then show ?thesis using False by (auto simp: find_project_root.simps[of t "[]"])
    next
      case ne: False
      have "(\<forall>n \<le> length p. \<not> is_dir t (take n p @ [''gov'', ''rfc'']))
          \<longleftrightarrow> (\<forall>n \<le> length (butlast p). \<not> is_dir t (take n (butlast p) @ [''gov'', ''rfc'']))"
        using False tk ne by (auto simp: le_Suc_eq) (metis Suc_pred le_SucE length_greater_0_conv take_all_iff order_refl)
      then show ?thesis using 1[OF False ne] False ne by (simp add: find_project_root.simps[of t p])
    qed
  qed
qed

lemma warnings_only:
  assumes "rcollect (\<lambda>(req_id, rfc_ids). rbind (rcollect py_string rfc_ids) (\<lambda>ids. Inr (Warning req_id ids))) dups = Inr warnings"
  shows "set warnings \<subseteq> range (case_prod Warning)"
proof
  fix line
  assume "line \<in> set warnings"
  then obtain d where "(case d of (req_id, rfc_ids) \<Rightarrow> rbind (rcollect py_string rfc_ids) (\<lambda>ids. Inr (Warning req_id ids))) = Inr line"
    using rcollect_union[OF assms, of line "\<lambda>y. {y}"] by auto
  then show "line \<in> range (case_prod Warning)" by (auto simp: result_Inr_iffs split: prod.splits)
qed

lemma verdict_outputs:
  assumes "set warnings \<subseteq> range (case_prod Warning)" "finite (code_ids \<union> test_ids \<union> behave_ids - ids)"
    and "(code, out) = verdict_of strict rfcs ids dups warnings code_ids test_ids behave_ids exemptions"
    and g: "\<And>r ks. (r, ks) \<in> set (check_coverage ids (build_coverage_map code_ids test_ids behave_ids) exemptions)
      \<longleftrightarrow> r \<in> ids \<and> ks = gap r \<and> ks \<noteq> []"
  shows "(code = 0 \<longleftrightarrow> (\<forall>r \<in> ids. gap r = []) \<and> (strict \<longrightarrow> code_ids \<union> test_ids \<union> behave_ids \<subseteq> ids))
    \<and> (\<forall>r kinds. Fail r kinds \<in> set out \<longleftrightarrow> r \<in> ids \<and> kinds = gap r \<and> kinds \<noteq> [])
    \<and> (\<forall>r. Orphan r \<in> set out \<longleftrightarrow> strict \<and> r \<in> code_ids \<union> test_ids \<union> behave_ids - ids)"
proof -
  let ?failures = "check_coverage ids (build_coverage_map code_ids test_ids behave_ids) exemptions"
  let ?orphans = "if strict then code_ids \<union> test_ids \<union> behave_ids - ids else {}"
  have code: "code = (if ?failures \<noteq> [] \<or> ?orphans \<noteq> {} then 1 else 0)"
    using assms(3) by (simp add: verdict_of_def Let_def find_orphaned_annotations_def)
  have none: "?failures = [] \<longleftrightarrow> (\<forall>r \<in> ids. gap r = [])"
  proof
    assume e: "?failures = []"
    show "\<forall>r \<in> ids. gap r = []" using g[unfolded e] by auto
  next
    assume "\<forall>r \<in> ids. gap r = []"
    then have "x \<notin> set ?failures" for x using g by (cases x) auto
    then show "?failures = []" by (cases ?failures) auto
  qed
  have nw: "Fail r ks \<notin> set warnings" "Orphan r \<notin> set warnings" for r ks using assms(1) by auto
  have fail: "Fail r ks \<in> set out \<longleftrightarrow> (r, ks) \<in> set ?failures" for r ks
    using assms(3) nw by (auto simp: verdict_of_def Let_def split: if_splits)
  have "Orphan r \<in> set out \<longleftrightarrow> r \<in> ?orphans" for r
    using assms(2,3) nw by (auto simp: verdict_of_def Let_def find_orphaned_annotations_def split: if_splits)
  then show ?thesis using code none fail g by auto
qed


definition sample_toml :: toml_parser where
  "sample_toml s =
     (if s = ''r'' then Some (TTable [(''govctl'', TTable [(''id'', TString ''RFC-1''), (''phase'', TString ''test'')]),
        (''sections'', TArray [TTable [(''clauses'', TArray [TString ''c.toml''])]])])
      else if s = ''c'' then Some (TTable [(''content'', TTable [(''text'', TString ''[REQ-0001]'')])])
      else None)"

definition sample_tree :: tree where
  "sample_tree = [([''gov''], Directory), ([''gov'', ''rfc''], Directory), ([''gov'', ''rfc'', ''a''], Directory),
     ([''gov'', ''rfc'', ''a'', ''rfc.toml''], TextFile ''r''), ([''gov'', ''rfc'', ''a'', ''c.toml''], TextFile ''c''),
     ([''x.rs''], TextFile ''Implements: REQ-0001'')]"

abbreviation sample_rfc :: ImplementedRfc where
  "sample_rfc \<equiv> \<lparr>rfc_dir = [''gov'', ''rfc'', ''a''],
     rfc_record = TTable [(''govctl'', TTable [(''id'', TString ''RFC-1''), (''phase'', TString ''test'')]),
        (''sections'', TArray [TTable [(''clauses'', TArray [TString ''c.toml''])]])]\<rparr>"

lemma sample_rfcs: "load_implemented_rfcs sample_toml sample_tree [''gov''] None = Inr [sample_rfc]"
  by (simp add: load_implemented_rfcs_def iterdir_def entry_at_def sample_tree_def load_rfc_def is_file_def load_toml_def
      read_text_def sample_toml_def)

lemma sample_clause: "extract_req_ids_from_clause_text ''[REQ-0001]'' = {''REQ-0001''}"
  by (simp add: extract_req_ids_from_clause_text_def is_req_tag_def is_req_id_def)

lemma sample_requirements: "collect_requirements_from_rfc sample_toml sample_tree sample_rfc = Inr {''REQ-0001''}"
  by (simp add: collect_requirements_from_rfc_def rfc_texts_def py_get_or_def clause_text_def join_path_def Let_def
      load_toml_def read_text_def entry_at_def sample_tree_def sample_toml_def sample_clause)

lemma sample_scans:
  "scan_rust_coverage sample_tree [] = Inr ({''REQ-0001''}, {})" "scan_behave_coverage sample_tree [] = Inr {}"
  "load_exemptions sample_toml sample_tree [''gov''] = Inr Map.empty"
    by (simp_all add: scan_rust_coverage_def rglob_def sample_tree_def ends_with_def scan_rust_file_for_annotations_def
      read_text_def entry_at_def splitlines_def line_break_def extract_req_ids_from_annotation_line_def is_req_id_def
      scan_behave_coverage_def Let_def load_exemptions_def is_file_def)

lemma sample_run: "run_check sample_toml sample_tree [] False None
    = Inr (1, [Checking 1, Found 1, Blank, Fail ''REQ-0001'' [''rust_test'', ''behave_test''], Blank, Failed 1])"
proof -
  have c: "collect_all_requirements sample_toml sample_tree [sample_rfc] = Inr {''REQ-0001''}"
    unfolding collect_all_requirements_def rcollect.simps sample_requirements by simp
  have i: "py_item (rfc_record sample_rfc) ''govctl'' = Inr (TTable [(''id'', TString ''RFC-1''), (''phase'', TString ''test'')])"
    by simp
  have d: "find_duplicate_req_ids sample_toml sample_tree [sample_rfc] = Inr []"
    unfolding find_duplicate_req_ids_def rcollect.simps i rbind_Inr sample_requirements by simp
  have v: "verdict_of False [sample_rfc] {''REQ-0001''} [] [] {''REQ-0001''} {} {} Map.empty
      = (1, [Checking 1, Found 1, Blank, Fail ''REQ-0001'' [''rust_test'', ''behave_test''], Blank, Failed 1])"
    by (simp add: verdict_of_def check_coverage_def build_coverage_map_def COVERAGE_KINDS_def)
  show ?thesis unfolding run_check_def Let_def append_Nil sample_rfcs rbind_Inr c d rcollect.simps sample_scans prod.case v ..
qed


end
