(* ===== verification/Test_Agents.thy ===== *)
theory Test_Agents
  imports Agent Fuzz
begin

text \<open>
  The agents of the system tests: the three agents with a seeded MIB (\<open>src/tests/test-agent-mib\<close>,
  \<open>-auth\<close> and \<open>-auth-priv\<close> with what they share) and the agent that sends the traps of a definition
  file (\<open>src/tests/test-agent\<close>). A program that ends early stops with a panic or an exit code; the
  seeded agents otherwise park with their agent. A Rust string is the list of its UTF-8 bytes as
  characters. The JSON library, name resolution and the environment are parameters; the messages on
  the standard error stream are left out. The lemmas show that the seeded agents come up
  with exactly the documented MIB and level, and that the trap agent reports exactly what it sent.
\<close>

section \<open>Ending a program\<close>

datatype stop = Panicked | ExitWith nat

definition or_panic :: "'a option \<Rightarrow> stop + 'a" where
  "or_panic x = ok_or x Panicked"

definition or_exit :: "'e + 'a \<Rightarrow> stop + 'a" where
  "or_exit x = map_err (\<lambda>_. ExitWith 1) x"

definition build_or_exit :: "build_calls \<Rightarrow> unit AgentBuilder \<Rightarrow> stop + Agent" where
  "build_or_exit calls b = rbind (or_panic (build calls b ())) (\<lambda>(r, _). or_exit r)"

section \<open>The shared parts\<close>

definition null_store_load :: "unit boots_load" where
  "null_store_load st = (Inr None, st)"

definition null_store_save :: "unit boots_save" where
  "null_store_save engine_id boots st = (Inr (), st)"

text \<open>Logging: level filters are numbers in the order of the \<open>log\<close> crate, with \<open>Off\<close> as 0 and record levels from
  1 on; parsing a level name is a parameter. Only one logger can be installed in a process.\<close>

type_synonym environment = "string \<Rightarrow> string option"

record StderrLogger =
  level_filter :: nat

record log_record =
  rec_level :: nat
  rec_target :: string
  rec_args :: string

definition logger_enabled :: "StderrLogger \<Rightarrow> nat \<Rightarrow> bool" where
  "logger_enabled logger level \<longleftrightarrow> level \<le> level_filter logger"

definition logger_log :: "StderrLogger \<Rightarrow> log_record \<Rightarrow> log_record list \<Rightarrow> log_record list" where
  "logger_log logger r printed = (if logger_enabled logger (rec_level r) then printed @ [r] else printed)"

record log_state =
  log_logger :: "StderrLogger option"
  log_max_level :: nat

definition init_logging :: "(string \<Rightarrow> nat option) \<Rightarrow> environment \<Rightarrow> log_state \<Rightarrow> stop + log_state" where
  "init_logging parse_level env log =
     (let filter = (case Option.bind (env ''RUST_LOG'') parse_level of None \<Rightarrow> 0 | Some l \<Rightarrow> l)
      in case log_logger log of
           Some _ \<Rightarrow> Inl Panicked
         | None \<Rightarrow> Inr (log\<lparr>log_logger := Some \<lparr>level_filter = filter\<rparr>, log_max_level := filter\<rparr>))"

text \<open>One entry, with the \<open>expect\<close> of the parse and of the call; \<open>woken\<close> is the result of waking the loop.\<close>

definition seed_one :: "string \<Rightarrow> Value \<Rightarrow> io_error + unit \<Rightarrow> Agent \<Rightarrow> stop + Agent" where
  "seed_one name v woken agent =
     rbind (or_panic (res_ok (oid_from_str name))) (\<lambda>oid.
     case agent_set oid v woken agent of (r, agent) \<Rightarrow> rbind (or_panic (res_ok r)) (\<lambda>_. Inr agent))"

definition seed_test_mib :: "(nat \<Rightarrow> io_error + unit) \<Rightarrow> string \<Rightarrow> Agent \<Rightarrow> stop + Agent" where
  "seed_test_mib woken sys_name agent =
     rbind (seed_one ''1.3.6.1.2.1.1.1.0'' (OctetString (map of_char ''basic-snmp-agent test instance'')) (woken 0) agent) (\<lambda>agent.
     rbind (seed_one ''1.3.6.1.2.1.1.3.0'' (TimeTicks 0) (woken 1) agent) (\<lambda>agent.
     rbind (seed_one ''1.3.6.1.2.1.1.5.0'' (OctetString (map of_char sys_name)) (woken 2) agent) (\<lambda>agent.
     rbind (seed_one ''1.3.6.1.4.1.99999.1.0'' (Integer32 42) (woken 3) agent) (\<lambda>agent.
     rbind (seed_one ''1.3.6.1.4.1.99999.2.0'' (Counter32 12345) (woken 4) agent) (\<lambda>agent.
     rbind (seed_one ''1.3.6.1.4.1.99999.3.0'' (Counter64 9876543210) (woken 5) agent) (\<lambda>agent.
     rbind (seed_one ''1.3.6.1.4.1.99999.4.0'' (Gauge32 500) (woken 6) agent) (\<lambda>agent.
     rbind (seed_one ''1.3.6.1.4.1.99999.5.0'' (IpAddress (10, 0, 0, 1)) (woken 7) agent) (\<lambda>agent.
     rbind (or_panic (res_ok (oid_from_str ''1.3.6.1.4.1.99999''))) (\<lambda>oid.
     rbind (seed_one ''1.3.6.1.4.1.99999.6.0'' (ObjectIdentifier oid) (woken 8) agent) (\<lambda>agent.
     rbind (seed_one ''1.3.6.1.4.1.99999.7.0'' (Opaque [0xDE, 0xAD]) (woken 9) agent) (\<lambda>agent.
     seed_one ''1.3.6.1.4.1.99999.999.0'' (Integer32 0) (woken 10) agent)))))))))))"

section \<open>The agents with a seeded MIB\<close>

text \<open>What the programs have in common after setting up logging and their user. The log is not read again.\<close>

definition start_seeded ::
  "build_calls \<Rightarrow> (nat \<Rightarrow> io_error + unit) \<Rightarrow> unit SecurityConfig \<Rightarrow> bytes \<Rightarrow> string \<Rightarrow> stop + Agent" where
  "start_seeded calls woken security engine_id sys_name =
     rbind (or_panic (agent_builder_new security)) (\<lambda>b.
     rbind (or_panic (res_ok (engine_id_try_from engine_id))) (\<lambda>engine_id.
     rbind (build_or_exit calls (builder_engine_id engine_id (builder_listen_addr (SocketAddrV4 0 10161) b))) (\<lambda>agent.
     seed_test_mib woken sys_name agent)))"

definition test_agent_mib_main ::
  "(string \<Rightarrow> nat option) \<Rightarrow> environment \<Rightarrow> log_state \<Rightarrow> build_calls \<Rightarrow> (nat \<Rightarrow> io_error + unit) \<Rightarrow> stop + Agent" where
  "test_agent_mib_main parse_level env log calls woken =
     rbind (init_logging parse_level env log) (\<lambda>_.
     start_seeded calls woken ConfigNoAuthNoPriv ([0x80, 0x00, 0x1F, 0x88, 0x04] @ map of_char ''test-agent-mib'') ''test-agent-mib'')"

definition AUTH_AGENT_ENGINE_ID :: bytes where
  "AUTH_AGENT_ENGINE_ID = [0x80, 0x00, 0x1F, 0x88, 0x04] @ map of_char ''test-agent-auth''"

definition test_agent_mib_auth_main ::
  "(string \<Rightarrow> nat option) \<Rightarrow> environment \<Rightarrow> log_state \<Rightarrow> crypto \<Rightarrow> build_calls \<Rightarrow> (nat \<Rightarrow> io_error + unit) \<Rightarrow> stop + Agent" where
  "test_agent_mib_auth_main parse_level env log cr calls woken =
     rbind (init_logging parse_level env log) (\<lambda>_.
     rbind (or_panic (password_to_localised_key cr (map of_char ''authpassword'') AUTH_AGENT_ENGINE_ID HmacSha256)) (\<lambda>key.
     rbind (or_exit key) (\<lambda>localised_key.
     rbind (or_panic (res_ok (user_name_new (map of_char ''authuser'')))) (\<lambda>user_name.
     rbind (or_exit (auth_no_priv_user_new user_name HmacSha256 localised_key)) (\<lambda>user.
     start_seeded calls woken (ConfigAuthNoPriv user null_store_load null_store_save) AUTH_AGENT_ENGINE_ID ''test-agent-mib-auth'')))))"

definition PRIV_AGENT_ENGINE_ID :: bytes where
  "PRIV_AGENT_ENGINE_ID = [0x80, 0x00, 0x1F, 0x88, 0x04] @ map of_char ''test-agent-priv''"

definition test_agent_mib_auth_priv_main ::
  "(string \<Rightarrow> nat option) \<Rightarrow> environment \<Rightarrow> log_state \<Rightarrow> crypto \<Rightarrow> build_calls \<Rightarrow> (nat \<Rightarrow> io_error + unit) \<Rightarrow> stop + Agent" where
  "test_agent_mib_auth_priv_main parse_level env log cr calls woken =
     rbind (init_logging parse_level env log) (\<lambda>_.
     rbind (or_panic (password_to_localised_key cr (map of_char ''authpassword'') PRIV_AGENT_ENGINE_ID HmacSha256)) (\<lambda>key.
     rbind (or_exit key) (\<lambda>localised_key.
     rbind (or_panic (res_ok (user_name_new (map of_char ''privuser'')))) (\<lambda>user_name.
     rbind (or_exit (auth_priv_user_new user_name HmacSha256 localised_key Aes128)) (\<lambda>user.
     start_seeded calls woken (ConfigAuthPriv user null_store_load null_store_save) PRIV_AGENT_ENGINE_ID
       ''test-agent-mib-auth-priv'')))))"

section \<open>Trap definitions\<close>

datatype Json = JNull | JBool bool | JInt int | JFloat string | JString string | JArray "Json list" | JObject "(string \<times> Json) list"

record VarbindDef =
  vd_oid :: string
  vd_type :: string
  vd_data :: Json

record TrapDefinition =
  td_request_id :: i32
  td_trap_oid :: string
  td_destinations :: "string list"
  td_varbinds :: "VarbindDef list"

fun as_i64 :: "Json \<Rightarrow> int option" where
  "as_i64 (JInt n) = (if - (2 ^ 63) \<le> n \<and> n < 2 ^ 63 then Some n else None)"
| "as_i64 _ = None"

fun as_u64 :: "Json \<Rightarrow> int option" where
  "as_u64 (JInt n) = (if 0 \<le> n \<and> n < 2 ^ 64 then Some n else None)"
| "as_u64 _ = None"

fun as_str :: "Json \<Rightarrow> string option" where
  "as_str (JString s) = Some s"
| "as_str _ = None"

fun as_array :: "Json \<Rightarrow> Json list option" where
  "as_array (JArray xs) = Some xs"
| "as_array _ = None"

datatype value_error =
    Expected string | OutOfRange string int | InvalidOid ParseOidError
  | WrongLength nat | ElementNotInteger nat | ElementOutOfRange nat int | UnknownType string

definition u32_of_int :: "string \<Rightarrow> (u32 \<Rightarrow> Value) \<Rightarrow> Json \<Rightarrow> value_error + Value" where
  "u32_of_int name f data =
     rbind (ok_or (as_u64 data) (Expected name)) (\<lambda>raw.
     if raw < 2 ^ 32 then Inr (f (word_of_int raw)) else Inl (OutOfRange name raw))"

fun octets_from :: "nat \<Rightarrow> Json list \<Rightarrow> value_error + u8 list" where
  "octets_from i [] = Inr []"
| "octets_from i (x # xs) =
     rbind (ok_or (as_u64 x) (ElementNotInteger i)) (\<lambda>raw.
     if raw < 256 then rbind (octets_from (i + 1) xs) (\<lambda>os. Inr (word_of_int raw # os)) else Inl (ElementOutOfRange i raw))"

definition to_value :: "VarbindDef \<Rightarrow> value_error + Value" where
  "to_value def =
     (let t = vd_type def; data = vd_data def in
      if t = ''Integer32'' then
        rbind (ok_or (as_i64 data) (Expected t)) (\<lambda>raw.
        if - (2 ^ 31) \<le> raw \<and> raw < 2 ^ 31 then Inr (Integer32 (word_of_int raw)) else Inl (OutOfRange t raw))
      else if t = ''OctetString'' then
        ok_or (map_option (\<lambda>s. OctetString (map of_char s)) (as_str data)) (Expected t)
      else if t = ''ObjectIdentifier'' then
        rbind (ok_or (as_str data) (Expected t)) (\<lambda>s.
        rbind (map_err InvalidOid (oid_from_str s)) (\<lambda>oid. Inr (ObjectIdentifier oid)))
      else if t = ''Counter32'' then u32_of_int t Counter32 data
      else if t = ''Counter64'' then
        ok_or (map_option (\<lambda>raw. Counter64 (word_of_int raw)) (as_u64 data)) (Expected t)
      else if t = ''Gauge32'' then u32_of_int t Gauge32 data
      else if t = ''TimeTicks'' then u32_of_int t TimeTicks data
      else if t = ''IpAddress'' then
        rbind (ok_or (as_array data) (Expected t)) (\<lambda>arr.
        if length arr \<noteq> 4 then Inl (WrongLength (length arr))
        else rbind (octets_from 0 arr) (\<lambda>octets.
          Inr (IpAddress (octets ! 0, octets ! 1, octets ! 2, octets ! 3))))
      else if t = ''Opaque'' then
        ok_or (map_option (\<lambda>s. Opaque (map of_char s)) (as_str data)) (Expected t)
      else Inl (UnknownType t))"

section \<open>The configuration from the environment\<close>

definition env_or_exit :: "environment \<Rightarrow> string \<Rightarrow> stop + string" where
  "env_or_exit env name = ok_or (env name) (ExitWith 1)"

definition hex_value :: "char \<Rightarrow> nat option" where
  "hex_value c =
     (let n = of_char c in
      if 48 \<le> n \<and> n \<le> 57 then Some (n - 48)
      else if 97 \<le> n \<and> n \<le> 102 then Some (n - 87)
      else if 65 \<le> n \<and> n \<le> 70 then Some (n - 55)
      else None)"

text \<open>\<open>str::from_utf8\<close> and \<open>u8::from_str_radix\<close> on two bytes; a leading plus sign is part of the syntax.\<close>

definition valid_utf8_pair :: "char \<Rightarrow> char \<Rightarrow> bool" where
  "valid_utf8_pair c d \<longleftrightarrow> ((of_char c :: nat) < 128 \<and> (of_char d :: nat) < 128)
     \<or> (194 \<le> (of_char c :: nat) \<and> (of_char c :: nat) \<le> 223 \<and> 128 \<le> (of_char d :: nat) \<and> (of_char d :: nat) \<le> 191)"

definition u8_from_hex_pair :: "char \<Rightarrow> char \<Rightarrow> u8 option" where
  "u8_from_hex_pair c d =
     (if c = CHR ''+'' then map_option word_of_nat (hex_value d)
      else Option.bind (hex_value c) (\<lambda>hi. Option.bind (hex_value d) (\<lambda>lo. Some (word_of_nat (16 * hi + lo)))))"

fun decode_hex_pairs :: "string \<Rightarrow> stop + bytes" where
  "decode_hex_pairs (c # d # rest) =
     (if \<not> valid_utf8_pair c d then Inl Panicked
      else rbind (ok_or (u8_from_hex_pair c d) (ExitWith 1)) (\<lambda>octet.
        rbind (decode_hex_pairs rest) (\<lambda>octets. Inr (octet # octets))))"
| "decode_hex_pairs _ = Inr []"

definition decode_hex_engine_id :: "string \<Rightarrow> stop + bytes" where
  "decode_hex_engine_id hex_str =
     (let hex_str = (if take 2 hex_str = ''0x'' then drop 2 hex_str else hex_str)
      in if odd (length hex_str) then Inl (ExitWith 1) else decode_hex_pairs hex_str)"

definition parse_user_name_env :: "environment \<Rightarrow> stop + UserName" where
  "parse_user_name_env env =
     rbind (env_or_exit env ''USM_USER'') (\<lambda>user_name. or_exit (user_name_new (map of_char user_name)))"

definition parse_auth_env :: "crypto \<Rightarrow> environment \<Rightarrow> bytes \<Rightarrow> stop + AuthProtocol \<times> SecretKey" where
  "parse_auth_env cr env engine_id =
     rbind (env_or_exit env ''USM_AUTH_PROTO'') (\<lambda>auth_proto_name.
     rbind (env_or_exit env ''USM_AUTH_PASS'') (\<lambda>auth_password.
     rbind (if auth_proto_name = ''SHA-256'' then Inr HmacSha256
            else if auth_proto_name = ''SHA-512'' then Inr HmacSha512 else Inl (ExitWith 1)) (\<lambda>auth_protocol.
     rbind (or_panic (password_to_localised_key cr (map of_char auth_password) engine_id auth_protocol)) (\<lambda>key.
     rbind (or_exit key) (\<lambda>localised_key. Inr (auth_protocol, localised_key))))))"

definition parse_usm_env :: "crypto \<Rightarrow> environment \<Rightarrow> stop + (EngineId \<times> unit SecurityConfig) option" where
  "parse_usm_env cr env =
     (case env ''USM_ENGINE_ID'' of
        None \<Rightarrow> Inr None
      | Some engine_id_hex \<Rightarrow>
          rbind (env_or_exit env ''USM_SECURITY_LEVEL'') (\<lambda>security_level.
          rbind (decode_hex_engine_id engine_id_hex) (\<lambda>engine_id_bytes'.
          rbind (or_exit (engine_id_try_from engine_id_bytes')) (\<lambda>engine_id.
          rbind (if security_level = ''noAuthNoPriv'' then Inr ConfigNoAuthNoPriv
             else if security_level = ''authNoPriv'' then
               rbind (parse_user_name_env env) (\<lambda>user_name.
               rbind (parse_auth_env cr env (engine_id_bytes engine_id)) (\<lambda>(auth_protocol, localised_key).
               rbind (or_exit (auth_no_priv_user_new user_name auth_protocol localised_key)) (\<lambda>user.
               Inr (ConfigAuthNoPriv user null_store_load null_store_save))))
             else if security_level = ''authPriv'' then
               rbind (parse_user_name_env env) (\<lambda>user_name.
               rbind (parse_auth_env cr env (engine_id_bytes engine_id)) (\<lambda>(auth_protocol, localised_key).
               rbind (env_or_exit env ''USM_PRIV_PROTO'') (\<lambda>priv_proto_name.
               rbind (if priv_proto_name = ''AES-128'' then Inr Aes128
                      else if priv_proto_name = ''AES-256'' then Inr Aes256 else Inl (ExitWith 1)) (\<lambda>priv_protocol.
               rbind (or_exit (auth_priv_user_new user_name auth_protocol localised_key priv_protocol)) (\<lambda>user.
               Inr (ConfigAuthPriv user null_store_load null_store_save))))))
             else Inl (ExitWith 1)) (\<lambda>config.
          Inr (Some (engine_id, config)))))))"

section \<open>The agent that sends traps\<close>

type_synonym resolver = "string \<Rightarrow> io_error + SocketAddr list"

datatype result_line = OkLine SocketAddr | ErrLine SocketAddr io_error

record trap_run =
  run_agent :: Agent
  run_globals :: trap_globals
  run_lines :: "result_line list"
  run_all_ok :: bool

definition definition_varbind :: "VarbindDef \<Rightarrow> stop + Varbind" where
  "definition_varbind v =
     rbind (or_exit (oid_from_str (vd_oid v))) (\<lambda>oid.
     rbind (or_exit (to_value v)) (\<lambda>value. Inr \<lparr>vb_oid = oid, vb_value = Value value\<rparr>))"

definition resolve_destination :: "resolver \<Rightarrow> string \<Rightarrow> stop + SocketAddr" where
  "resolve_destination resolve d =
     rbind (or_exit (resolve d)) (\<lambda>addrs. case addrs of [] \<Rightarrow> Inl (ExitWith 1) | a # _ \<Rightarrow> Inr a)"

definition definition_trap :: "resolver \<Rightarrow> TrapDefinition \<Rightarrow> stop + TrapPdu \<times> SocketAddr list" where
  "definition_trap resolve def =
     rbind (or_exit (oid_from_str (td_trap_oid def))) (\<lambda>trap_oid.
     rbind (rcollect definition_varbind (td_varbinds def)) (\<lambda>varbinds.
     rbind (rcollect (resolve_destination resolve) (td_destinations def)) (\<lambda>destinations.
     Inr (\<lparr>tp_request_id = RequestId (td_request_id def), tp_trap_oid = trap_oid, tp_varbinds = varbinds\<rparr>, destinations))))"

definition print_result :: "TrapResult \<Rightarrow> result_line" where
  "print_result r = (case tr_outcome r of Inr _ \<Rightarrow> OkLine (tr_destination r) | Inl e \<Rightarrow> ErrLine (tr_destination r) e)"

text \<open>One definition; the clock readings of the call are an argument.\<close>

definition send_definition ::
  "crypto \<Rightarrow> u64 \<Rightarrow> resolver \<Rightarrow> Instant \<times> Instant \<Rightarrow> TrapDefinition \<Rightarrow> trap_run \<Rightarrow> stop + trap_run" where
  "send_definition cr seed resolve now def s =
     rbind (definition_trap resolve def) (\<lambda>(pdu, destinations).
     case agent_send_trap cr seed (fst now) (snd now) pdu destinations (run_agent s) (run_globals s) of
       (Inr results, agent, globals) \<Rightarrow>
         Inr (s\<lparr>run_agent := agent, run_globals := globals, run_lines := run_lines s @ map print_result results,
                run_all_ok := run_all_ok s \<and> list_all (\<lambda>r. tr_outcome r = Inr ()) results\<rparr>)
     | (Inl e, agent, globals) \<Rightarrow> Inr (s\<lparr>run_agent := agent, run_globals := globals, run_all_ok := False\<rparr>))"

text \<open>The loop over the definitions; the second component is the state in which the program ended.\<close>

fun send_definitions ::
  "crypto \<Rightarrow> u64 \<Rightarrow> resolver \<Rightarrow> (Instant \<times> Instant) list \<Rightarrow> TrapDefinition list \<Rightarrow> trap_run \<Rightarrow> stop \<times> trap_run" where
  "send_definitions cr seed resolve nows [] s = (ExitWith (if run_all_ok s then 0 else 1), s)"
| "send_definitions cr seed resolve nows (def # defs) s =
     (case send_definition cr seed resolve (case nows of now # _ \<Rightarrow> now | [] \<Rightarrow> (0, 0)) def s of
        Inl stop \<Rightarrow> (stop, s)
      | Inr s \<Rightarrow> send_definitions cr seed resolve (tl nows) defs s)"

definition test_agent_start ::
  "crypto \<Rightarrow> build_calls \<Rightarrow> string list \<Rightarrow> (string \<Rightarrow> io_error + string) \<Rightarrow> (string \<Rightarrow> TrapDefinition list option)
    \<Rightarrow> environment \<Rightarrow> stop + TrapDefinition list \<times> Agent" where
  "test_agent_start cr calls args read_to_string from_str env =
     rbind (ok_or (list_get args 1) (ExitWith 1)) (\<lambda>path.
     rbind (or_exit (read_to_string path)) (\<lambda>json.
     rbind (ok_or (from_str json) (ExitWith 1)) (\<lambda>defs.
     rbind (parse_usm_env cr env) (\<lambda>usm.
     rbind (or_panic (agent_builder_new (case usm of Some (engine_id, config) \<Rightarrow> config | None \<Rightarrow> ConfigNoAuthNoPriv))) (\<lambda>b.
     let b = builder_listen_addr (SocketAddrV4 0 0) b;
         b = (case usm of Some (engine_id, config) \<Rightarrow> builder_engine_id engine_id b | None \<Rightarrow> b)
     in rbind (build_or_exit calls b) (\<lambda>agent. Inr (defs, agent)))))))"

definition test_agent_main ::
  "crypto \<Rightarrow> u64 \<Rightarrow> build_calls \<Rightarrow> string list \<Rightarrow> (string \<Rightarrow> io_error + string) \<Rightarrow> (string \<Rightarrow> TrapDefinition list option)
    \<Rightarrow> environment \<Rightarrow> resolver \<Rightarrow> (Instant \<times> Instant) list \<Rightarrow> trap_globals \<Rightarrow> stop \<times> trap_run option" where
  "test_agent_main cr seed calls args read_to_string from_str env resolve nows globals =
     (case test_agent_start cr calls args read_to_string from_str env of
        Inl stop \<Rightarrow> (stop, None)
      | Inr (defs, agent) \<Rightarrow>
          map_prod id Some (send_definitions cr seed resolve nows defs
            \<lparr>run_agent = agent, run_globals = globals, run_lines = [], run_all_ok = True\<rparr>))"

section \<open>Logging\<close>

lemma logging_starts:
  assumes "log_logger log = None"
  shows "init_logging parse_level env log = Inr (log\<lparr>
    log_logger := Some \<lparr>level_filter = (case Option.bind (env ''RUST_LOG'') parse_level of None \<Rightarrow> 0 | Some l \<Rightarrow> l)\<rparr>,
    log_max_level := (case Option.bind (env ''RUST_LOG'') parse_level of None \<Rightarrow> 0 | Some l \<Rightarrow> l)\<rparr>)"
  using assms by (simp add: init_logging_def Let_def)

text \<open>Once it is set up, a record is printed exactly if the environment names a level that includes it; a
  second set-up panics.\<close>

lemma logging_documented:
  assumes "init_logging parse_level env log = Inr log'" and "0 < rec_level r"
  shows "log_logger log' = Some \<lparr>level_filter = log_max_level log'\<rparr>"
    and "logger_log \<lparr>level_filter = log_max_level log'\<rparr> r printed = printed @
        (case env ''RUST_LOG'' of None \<Rightarrow> []
         | Some name \<Rightarrow> (case parse_level name of None \<Rightarrow> [] | Some l \<Rightarrow> if rec_level r \<le> l then [r] else []))"
    and "init_logging parse_level env log' = Inl Panicked"
  using assms by (auto simp: init_logging_def logger_log_def logger_enabled_def Let_def split: option.splits)

section \<open>The seeded MIB\<close>

lemma seed_names_parse:
  "oid_from_str ''1.3.6.1.4.1.99999.1.0'' = Inr (Oid_of [1, 3, 6, 1, 4, 1, 99999, 1, 0])"
  "oid_from_str ''1.3.6.1.4.1.99999.2.0'' = Inr (Oid_of [1, 3, 6, 1, 4, 1, 99999, 2, 0])"
  "oid_from_str ''1.3.6.1.4.1.99999.3.0'' = Inr (Oid_of [1, 3, 6, 1, 4, 1, 99999, 3, 0])"
  "oid_from_str ''1.3.6.1.4.1.99999.4.0'' = Inr (Oid_of [1, 3, 6, 1, 4, 1, 99999, 4, 0])"
  "oid_from_str ''1.3.6.1.4.1.99999.5.0'' = Inr (Oid_of [1, 3, 6, 1, 4, 1, 99999, 5, 0])"
  "oid_from_str ''1.3.6.1.4.1.99999.6.0'' = Inr (Oid_of [1, 3, 6, 1, 4, 1, 99999, 6, 0])"
  "oid_from_str ''1.3.6.1.4.1.99999.7.0'' = Inr (Oid_of [1, 3, 6, 1, 4, 1, 99999, 7, 0])"
  "oid_from_str ''1.3.6.1.4.1.99999.999.0'' = Inr (Oid_of [1, 3, 6, 1, 4, 1, 99999, 999, 0])"
  by (rule parsed_display, simp add: display_oid_def display_components_def display_u32_def valid_components_def
      show_dec_digit show_dec.simps; simp add: char_of_def bit_iff_odd)+

definition seeded_entries :: "string \<Rightarrow> (Oid \<times> Value) list" where
  "seeded_entries sys_name =
     [(Oid_of [1, 3, 6, 1, 2, 1, 1, 1, 0], OctetString (map of_char ''basic-snmp-agent test instance'')),
      (Oid_of [1, 3, 6, 1, 2, 1, 1, 3, 0], TimeTicks 0),
      (Oid_of [1, 3, 6, 1, 2, 1, 1, 5, 0], OctetString (map of_char sys_name)),
      (Oid_of [1, 3, 6, 1, 4, 1, 99999, 1, 0], Integer32 42),
      (Oid_of [1, 3, 6, 1, 4, 1, 99999, 2, 0], Counter32 12345),
      (Oid_of [1, 3, 6, 1, 4, 1, 99999, 3, 0], Counter64 9876543210),
      (Oid_of [1, 3, 6, 1, 4, 1, 99999, 4, 0], Gauge32 500),
      (Oid_of [1, 3, 6, 1, 4, 1, 99999, 5, 0], IpAddress (10, 0, 0, 1)),
      (Oid_of [1, 3, 6, 1, 4, 1, 99999, 6, 0], ObjectIdentifier (Oid_of [1, 3, 6, 1, 4, 1, 99999])),
      (Oid_of [1, 3, 6, 1, 4, 1, 99999, 7, 0], Opaque [0xDE, 0xAD]),
      (Oid_of [1, 3, 6, 1, 4, 1, 99999, 999, 0], Integer32 0)]"

abbreviation queue :: "(Oid \<times> Value) list \<Rightarrow> Agent \<Rightarrow> Agent" where
  "queue kvs agent \<equiv> agent\<lparr>ag_loop := map_option (\<lambda>el. el\<lparr>el_rx := el_rx el @ map (case_prod SetValue) kvs\<rparr>) (ag_loop agent)\<rparr>"

lemma seed_one_queues:
  assumes "oid_from_str name = Inr oid" "ag_loop agent = Some el"
  shows "seed_one name v (Inr ()) agent = Inr (queue [(oid, v)] agent)"
  using assms by (simp add: seed_one_def agent_set_def command_sender_send_def or_panic_def)

lemma queue_queue: "queue kvs (queue kvs' agent) = queue (kvs' @ kvs) agent"
  by (cases "ag_loop agent") simp_all

lemma seed_test_mib_queues:
  assumes "ag_loop agent = Some el" "\<And>i. woken i = Inr ()"
  shows "seed_test_mib woken sys_name agent = Inr (queue (seeded_entries sys_name) agent)"
proof -
  have n: "ag_loop (queue kvs agent) \<noteq> None" for kvs using assms(1) by simp
  have s: "seed_one name v (Inr ()) (queue kvs agent) = Inr (queue (kvs @ [(oid, v)]) agent)"
    if "oid_from_str name = Inr oid" for name v kvs oid
  proof -
    obtain el' where "ag_loop (queue kvs agent) = Some el'" using n by blast
    from seed_one_queues[OF that this] show ?thesis unfolding queue_queue .
  qed
  have f: "seed_one name v (Inr ()) agent = Inr (queue [(oid, v)] agent)" if "oid_from_str name = Inr oid" for name v oid
    using seed_one_queues[OF that assms(1)] .
  show ?thesis
    unfolding seed_test_mib_def assms(2) f[OF fuzz_names_parse(1)] rbind_Inr s[OF fuzz_names_parse(2)] s[OF fuzz_names_parse(3)]
      enterprise_parses or_panic_def res_ok_simps ok_or_simps seed_names_parse[THEN s] seeded_entries_def append.simps
    by (rule refl)
qed

lemma seeded_store:
  "fold (\<lambda>(oid, value). store_set oid value) (seeded_entries sys_name) store_new = \<lparr>store_map = seeded_entries sys_name\<rparr>"
  by (simp add: seeded_entries_def store_set_def store_new_def Oid_eq_iff less_Oid_def valid_components_def)

lemma set_commands_map: "set_commands (map (case_prod SetValue) kvs) = kvs"
  by (induction kvs) auto

section \<open>Starting\<close>

definition config_usm :: "unit SecurityConfig \<Rightarrow> UsmUser option option" where
  "config_usm c = (case c of
       ConfigNoAuthNoPriv \<Rightarrow> Some None
     | ConfigAuthNoPriv user _ _ \<Rightarrow> Some (Some (usm_user_from_auth_no_priv user))
     | ConfigAuthPriv user _ _ \<Rightarrow> map_option Some (usm_user_from_auth_priv user))"

definition with_null_store :: "unit SecurityConfig \<Rightarrow> bool" where
  "with_null_store c \<longleftrightarrow> (case c of
       ConfigNoAuthNoPriv \<Rightarrow> True
     | ConfigAuthNoPriv _ load save \<Rightarrow> load = null_store_load \<and> save = null_store_save
     | ConfigAuthPriv _ load save \<Rightarrow> load = null_store_load \<and> save = null_store_save)"

lemma build_null:
  assumes "with_null_store (ab_security b)" "config_usm (ab_security b) = Some user"
  shows "build calls b () = Some (assemble calls b user (config_level (ab_security b)) 1, ())"
  using assms
  by (cases "ab_security b") (auto simp: build_def assemble_def config_usm_def with_null_store_def config_level_def
      initialise_engine_boots_def null_store_load_def null_store_save_def Let_def)

definition calls_succeed :: "build_calls \<Rightarrow> bool" where
  "calls_succeed calls \<longleftrightarrow> nc_poll (bc_new calls) = None \<and> nc_bind (bc_new calls) = None \<and> (\<exists>a. nc_local_addr (bc_new calls) = Inr a)
     \<and> nc_register (bc_new calls) = None \<and> nc_waker (bc_new calls) = None \<and> (\<exists>s. bc_udp_bind calls = Inr s) \<and> bc_spawn calls = Inr ()"

lemma assemble_succeeds:
  assumes "calls_succeed calls" "config_user_ok level user"
  shows "\<exists>agent. assemble calls b user level boots = Inr agent"
proof -
  have "\<not> security_level_requires_user user level"
    using assms(2) by (auto simp: config_user_ok_def security_level_requires_user_def)
  then show ?thesis using assms(1) by (auto simp: assemble_def event_loop_new_def trap_sender_new_def calls_succeed_def)
qed

text \<open>An agent that serves a level to a user, with the seeded MIB once its loop has drained the commands.\<close>

definition seeded_ready :: "bytes \<Rightarrow> SecurityLevel \<Rightarrow> bytes option \<Rightarrow> string \<Rightarrow> Agent \<Rightarrow> bool" where
  "seeded_ready engine_id level name sys_name agent \<longleftrightarrow>
     (\<exists>el el'. ag_loop agent = Some el \<and> engine_id_bytes (el_engine_id el) = engine_id
       \<and> el_minimum_security_level el = level \<and> config_user_ok level (el_usm_user el)
       \<and> map_option (\<lambda>u. user_name_bytes (usm_name u)) (el_usm_user el) = name
       \<and> drain_commands el = (False, el') \<and> store_map (el_store el') = seeded_entries sys_name
       \<and> store_next (el_store el') (Oid_of [1, 3, 6, 1, 4, 1, 99999, 999, 0]) = None)"

lemma start_seeded_ready:
  assumes "with_null_store security" "config_usm security = Some user" "config_user_ok (config_level security) user"
    and "5 \<le> length engine_id" "length engine_id \<le> 32" "\<And>i. woken i = Inr ()"
  shows "start_seeded calls woken security engine_id sys_name = Inl (ExitWith 1)
      \<or> (\<exists>agent. start_seeded calls woken security engine_id sys_name = Inr agent
          \<and> seeded_ready engine_id (config_level security) (map_option (\<lambda>u. user_name_bytes (usm_name u)) user) sys_name agent)"
    and "calls_succeed calls \<Longrightarrow> \<exists>agent. start_seeded calls woken security engine_id sys_name = Inr agent"
proof -
  obtain b0 where b0: "agent_builder_new security = Some b0" "ab_security b0 = security"
    using agent_builder_new_total[of security] by blast
  define b where "b = builder_engine_id (EngineId engine_id) (builder_listen_addr (SocketAddrV4 0 10161) b0)"
  have b: "ab_security b = security" "ab_engine_id b = EngineId engine_id"
    by (simp_all add: b_def builder_engine_id_def builder_listen_addr_def b0(2))
  have bl: "build calls b () = Some (assemble calls b user (config_level security) 1, ())"
    using build_null[of b user calls] assms(1,2) unfolding b by blast
  have st: "start_seeded calls woken security engine_id sys_name
      = rbind (or_exit (assemble calls b user (config_level security) 1)) (seed_test_mib woken sys_name)"
    using b0(1) assms(4,5) bl
    by (simp add: start_seeded_def or_panic_def engine_id_try_from_def b_def[symmetric] build_or_exit_def)
  show "start_seeded calls woken security engine_id sys_name = Inl (ExitWith 1)
      \<or> (\<exists>agent. start_seeded calls woken security engine_id sys_name = Inr agent
          \<and> seeded_ready engine_id (config_level security) (map_option (\<lambda>u. user_name_bytes (usm_name u)) user) sys_name agent)"
  proof (cases "assemble calls b user (config_level security) 1")
    case (Inl e)
    then show ?thesis by (simp add: st or_exit_def)
  next
    case (Inr agent)
    obtain el where el: "ag_loop agent = Some el" "el_usm_user el = user" "el_minimum_security_level el = config_level security"
      "el_engine_id el = EngineId engine_id"
      and new: "event_loop_new (bc_new calls) (bc_loop_start calls) (ab_listen_addr b) (ab_engine_id b) (EngineBoots 1)
           user (config_level security) (ab_max_connections b) (ab_timeout_config b) = Inr (el, ag_bound_addr agent)"
      using assemble_spec(2)[OF assms(3) Inr] b(2) by (auto simp: agent_ok_def)
    have rx: "el_rx el = []" "el_rx_connected el" "el_store el = store_new"
      using new by (auto simp: event_loop_new_def result_Inr_iffs split: if_splits option.splits)
    have sd: "start_seeded calls woken security engine_id sys_name = Inr (queue (seeded_entries sys_name) agent)"
      using seed_test_mib_queues[OF el(1) assms(6)] Inr by (simp add: st or_exit_def)
    let ?el = "el\<lparr>el_rx := map (case_prod SetValue) (seeded_entries sys_name)\<rparr>"
    have ns: "Shutdown \<notin> set (map (case_prod SetValue) kvs)" for kvs by (induction kvs) auto
    have dr: "drain_commands ?el = (False, ?el\<lparr>el_store := \<lparr>store_map = seeded_entries sys_name\<rparr>,
        el_rx := tl (dropWhile (\<lambda>c. c \<noteq> Shutdown) (map (case_prod SetValue) (seeded_entries sys_name)))\<rparr>)"
      using rx ns by (simp add: drain_commands_def drain_queue_eq set_commands_map seeded_store)
    have nx: "store_next \<lparr>store_map = seeded_entries sys_name\<rparr> (Oid_of [1, 3, 6, 1, 4, 1, 99999, 999, 0]) = None"
      by (simp add: store_next_def seeded_entries_def less_Oid_def valid_components_def)
    have "seeded_ready engine_id (config_level security) (map_option (\<lambda>u. user_name_bytes (usm_name u)) user) sys_name
        (queue (seeded_entries sys_name) agent)"
      unfolding seeded_ready_def
      by (rule exI[of _ ?el], rule exI[of _ "snd (drain_commands ?el)"]) (use el rx assms(3) dr nx in simp)
    then show ?thesis using sd by blast
  qed
  show "\<exists>agent. start_seeded calls woken security engine_id sys_name = Inr agent" if cs: "calls_succeed calls"
  proof -
    obtain agent where a: "assemble calls b user (config_level security) 1 = Inr agent"
      using assemble_succeeds[OF cs assms(3)] by blast
    obtain el where "ag_loop agent = Some el" using assemble_spec(2)[OF assms(3) a] by (auto simp: agent_ok_def)
    from seed_test_mib_queues[OF this assms(6)] show ?thesis by (simp add: st a or_exit_def)
  qed
qed

lemma derived_key:
  assumes "crypto_ok cr" "8 \<le> length password"
  obtains key where "password_to_localised_key cr password engine_id p = Some (Inr key)" "secret_key_len key = auth_key_len p"
proof -
  have "length (digest cr p msg) = auth_key_len p" for msg using assms(1) unfolding crypto_ok_def by blast
  moreover have "password \<noteq> []" using assms(2) by auto
  ultimately show thesis using assms(2)
    by (intro that[of "SecretKey (digest cr p (digest cr p (kdf_stream password) @ engine_id @ digest cr p (kdf_stream password)))"])
      (simp_all add: password_to_localised_key_def Let_def finalise_into_secret_key_def localise_key_def secret_key_truncate_def
        secret_key_len_def not_less)
qed

lemma constructed_configs:
  assumes "user_name_new bs = Inr name" "secret_key_len key = auth_key_len p"
  obtains user where "auth_no_priv_user_new name p key = Inr user"
      "config_usm (ConfigAuthNoPriv user null_store_load null_store_save) = Some (Some (usm_user_from_auth_no_priv user))"
      "config_user_ok AuthNoPriv (Some (usm_user_from_auth_no_priv user))"
      "usm_name (usm_user_from_auth_no_priv user) = name"
proof -
  let ?u = "\<lparr>anp_name = name, anp_auth_protocol = p, anp_auth_key = key\<rparr>"
  have n: "auth_no_priv_user_new name p key = Inr ?u"
    using assms(2) by (simp add: auth_no_priv_user_new_def validate_auth_key_length_def)
  have "config_constructed (ConfigAuthNoPriv ?u null_store_load null_store_save)"
    using n assms(1) by (auto simp: config_constructed_def)
  from that[OF n _ config_users(1)[OF this]] show thesis by (simp add: config_usm_def usm_user_from_auth_no_priv_def)
qed

lemma constructed_priv_configs:
  assumes "user_name_new bs = Inr name" "secret_key_len key = auth_key_len p"
  obtains user usm where "auth_priv_user_new name p key q = Inr user"
      "config_usm (ConfigAuthPriv user null_store_load null_store_save) = Some (Some usm)"
      "config_user_ok AuthPriv (Some usm)" "usm_name usm = name"
proof -
  let ?u = "\<lparr>ap_name = name, ap_auth_protocol = p, ap_auth_key = key, ap_priv_protocol = q\<rparr>"
  have n: "auth_priv_user_new name p key q = Inr ?u"
    using assms(2) by (simp add: auth_priv_user_new_def validate_auth_key_length_def)
  have "config_constructed (ConfigAuthPriv ?u null_store_load null_store_save)"
    using n assms(1) by (auto simp: config_constructed_def)
  then obtain usm where usm: "usm_user_from_auth_priv ?u = Some usm" "config_user_ok AuthPriv (Some usm)"
    using config_users(2) by blast
  have "usm_name usm = name" using usm(1) by (auto simp: usm_user_from_auth_priv_def)
  then show thesis using that[OF n _ usm(2)] usm(1) by (simp add: config_usm_def)
qed

lemma user_names_valid:
  "user_name_new (map of_char ''authuser'') = Inr (UserName (map of_char ''authuser''))"
  "user_name_new (map of_char ''privuser'') = Inr (UserName (map of_char ''privuser''))"
  by (simp_all add: user_name_new_def UserName_MAX_LENGTH_def)

section \<open>Sending the traps\<close>

lemma trap_delivery:
  assumes "trap_sender_send_trap cr seed now1 now2 sender pdu dests socket globals = (results, socket', globals')"
  shows "map tr_destination results = dests"
    "\<exists>m. udp_sent socket' = udp_sent socket @ map (\<lambda>r. (tr_destination r, m)) (filter (\<lambda>r. tr_outcome r = Inr ()) results)"
proof -
  consider msg where "results = encode_error_for_all dests msg" "socket' = socket"
    | m where "send_to_all m dests socket = (results, socket')"
    using assms by (auto simp: trap_sender_send_trap_def Let_def split: prod.splits sum.splits if_splits)
  then have "map tr_destination results = dests \<and>
    (\<exists>m. udp_sent socket' = udp_sent socket @ map (\<lambda>r. (tr_destination r, m)) (filter (\<lambda>r. tr_outcome r = Inr ()) results))"
  proof cases
    case 1
    have "filter (\<lambda>r. tr_outcome r = Inr ()) (encode_error_for_all dests msg) = []" by (induction dests) (auto simp: encode_error_for_all_def)
    then show ?thesis using 1 by (simp add: encode_error_for_all_def comp_def)
  next
    case 2
    then show ?thesis using send_to_all_spec by blast
  qed
  then show "map tr_destination results = dests"
    "\<exists>m. udp_sent socket' = udp_sent socket @ map (\<lambda>r. (tr_destination r, m)) (filter (\<lambda>r. tr_outcome r = Inr ()) results)"
    by blast+
qed

abbreviation delivered :: "trap_run \<Rightarrow> (SocketAddr \<times> bytes) list" where
  "delivered s \<equiv> udp_sent (ag_socket (run_agent s))"

definition ok_lines :: "result_line list \<Rightarrow> SocketAddr list" where
  "ok_lines lines = [d. OkLine d \<leftarrow> lines]"

lemma ok_lines_append [simp]: "ok_lines (xs @ ys) = ok_lines xs @ ok_lines ys"
  by (simp add: ok_lines_def)

lemma ok_lines_results: "ok_lines (map print_result results) = map tr_destination (filter (\<lambda>r. tr_outcome r = Inr ()) results)"
proof (induction results)
  case (Cons r results)
  then show ?case by (cases "tr_outcome r") (simp_all add: ok_lines_def print_result_def)
qed (simp add: ok_lines_def)

text \<open>One definition: what is delivered is what is reported, and it is everything exactly if all went well.\<close>

lemma send_definition_spec:
  assumes "send_definition cr seed resolve now def s = Inr s'" "definition_trap resolve def = Inr (pdu, dests)"
  shows "\<exists>new lines. delivered s' = delivered s @ new \<and> run_lines s' = run_lines s @ lines \<and> ok_lines lines = map fst new
    \<and> length new \<le> length dests
    \<and> (run_all_ok s' \<longleftrightarrow> run_all_ok s \<and> dests \<noteq> [] \<and> map fst new = dests)"
proof (cases "dests = []")
  case True
  then show ?thesis using assms by (auto simp: send_definition_def agent_send_trap_def ok_lines_def)
next
  case False
  obtain results socket globals where r: "trap_sender_send_trap cr seed (fst now) (snd now) (ag_trap_sender (run_agent s)) pdu dests
      (ag_socket (run_agent s)) (run_globals s) = (results, socket, globals)" by (rule prod_cases3)
  let ?ok = "filter (\<lambda>r. tr_outcome r = Inr ()) results"
  have s': "s' = s\<lparr>run_agent := (run_agent s)\<lparr>ag_socket := socket\<rparr>, run_globals := globals,
      run_lines := run_lines s @ map print_result results, run_all_ok := run_all_ok s \<and> list_all (\<lambda>r. tr_outcome r = Inr ()) results\<rparr>"
    using assms False r by (simp add: send_definition_def agent_send_trap_def)
  obtain m where m: "udp_sent socket = delivered s @ map (\<lambda>r. (tr_destination r, m)) ?ok" using trap_delivery(2)[OF r] by blast
  have d: "map tr_destination results = dests" using trap_delivery(1)[OF r] .
  have "list_all (\<lambda>r. tr_outcome r = Inr ()) results \<longleftrightarrow> map tr_destination ?ok = dests"
  proof
    assume "list_all (\<lambda>r. tr_outcome r = Inr ()) results"
    then have "?ok = results" by (simp add: list_all_iff)
    then show "map tr_destination ?ok = dests" using d by simp
  next
    assume "map tr_destination ?ok = dests"
    then have "length ?ok = length results" using d by (metis length_map)
    then have "?ok = results" by (metis filter_id_conv length_filter_less less_irrefl)
    then show "list_all (\<lambda>r. tr_outcome r = Inr ()) results" by (simp add: list_all_iff filter_id_conv)
  qed
  moreover have "length ?ok \<le> length dests" using length_filter_le[of _ results] d by (metis length_map)
  ultimately show ?thesis using m False unfolding s'
    by (intro exI[of _ "map (\<lambda>r. (tr_destination r, m)) ?ok"] exI[of _ "map print_result results"]) (simp add: ok_lines_results comp_def)
qed

definition all_delivered :: "resolver \<Rightarrow> TrapDefinition list \<Rightarrow> SocketAddr list \<Rightarrow> bool" where
  "all_delivered resolve defs receivers \<longleftrightarrow> (\<exists>traps. rcollect (definition_trap resolve) defs = Inr traps
     \<and> (\<forall>(pdu, dests) \<in> set traps. dests \<noteq> []) \<and> receivers = concat (map snd traps))"

lemma definition_never_panics: "definition_trap resolve def = Inl stop \<Longrightarrow> stop = ExitWith 1"
proof -
  have c: "rcollect f xs = Inl stop \<Longrightarrow> (\<And>x stop. f x = Inl stop \<Longrightarrow> stop = ExitWith 1) \<Longrightarrow> stop = ExitWith 1"
    for f :: "'x \<Rightarrow> stop + 'y" and xs
    by (induction xs) (auto simp: rbind_def split: sum.splits)
  have v: "definition_varbind v = Inl stop \<Longrightarrow> stop = ExitWith 1" for v stop
    by (auto simp: definition_varbind_def or_exit_def rbind_def map_err_def split: sum.splits)
  have d: "resolve_destination resolve v = Inl stop \<Longrightarrow> stop = ExitWith 1" for v stop
    by (auto simp: resolve_destination_def or_exit_def rbind_def map_err_def split: sum.splits list.splits)
  have split: "rbind x f = Inl stop \<longleftrightarrow> x = Inl stop \<or> (\<exists>a. x = Inr a \<and> f a = Inl stop)" for x :: "stop + 'x" and f :: "'x \<Rightarrow> stop + 'y"
    by (cases x) auto
  have o: "or_exit x = Inl stop \<Longrightarrow> stop = ExitWith 1" for x :: "'x + 'y" by (cases x) (simp_all add: or_exit_def)
  assume "definition_trap resolve def = Inl stop"
  then consider "or_exit (oid_from_str (td_trap_oid def)) = Inl stop" | "rcollect definition_varbind (td_varbinds def) = Inl stop"
    | "rcollect (resolve_destination resolve) (td_destinations def) = Inl stop"
    unfolding definition_trap_def split by blast
  then show "stop = ExitWith 1" using o c[OF _ v] c[OF _ d] by cases blast+
qed

lemma all_delivered_Cons:
  assumes "definition_trap resolve def = Inr (pdu, dests)"
  shows "all_delivered resolve (def # defs) receivers
    \<longleftrightarrow> dests \<noteq> [] \<and> (\<exists>rest. all_delivered resolve defs rest \<and> receivers = dests @ rest)"
  using assms by (auto simp: all_delivered_def rbind_eq_Inr)

lemma delivered_twice:
  assumes "length xs \<le> length ds" "\<forall>rest. all_delivered resolve defs rest \<longrightarrow> length ys \<le> length rest"
  shows "(\<exists>rest. all_delivered resolve defs rest \<and> xs @ ys = ds @ rest) \<longleftrightarrow> xs = ds \<and> all_delivered resolve defs ys"
proof
  assume "\<exists>rest. all_delivered resolve defs rest \<and> xs @ ys = ds @ rest"
  then obtain rest where r: "all_delivered resolve defs rest" "xs @ ys = ds @ rest" by blast
  then have "length ys \<le> length rest" using assms(2) by blast
  then have "length xs = length ds" using assms(1) arg_cong[OF r(2), of length] by simp
  then show "xs = ds \<and> all_delivered resolve defs ys" using r by simp
qed blast

lemma send_definitions_spec:
  assumes "send_definitions cr seed resolve nows defs s = (stop, s')"
  shows "\<exists>new lines. delivered s' = delivered s @ new \<and> run_lines s' = run_lines s @ lines \<and> ok_lines lines = map fst new
    \<and> stop \<in> {ExitWith 0, ExitWith 1}
    \<and> (\<forall>rest. all_delivered resolve defs rest \<longrightarrow> length new \<le> length rest)
    \<and> (stop = ExitWith 0 \<longleftrightarrow> run_all_ok s \<and> all_delivered resolve defs (map fst new))"
  using assms
proof (induction defs arbitrary: nows s)
  case Nil
  then show ?case by (auto simp: all_delivered_def ok_lines_def split: if_splits)
next
  case (Cons def defs)
  let ?now = "case nows of now # _ \<Rightarrow> now | [] \<Rightarrow> (0, 0)"
  show ?case
  proof (cases "definition_trap resolve def")
    case (Inl e)
    then have "stop = ExitWith 1" "s' = s"
      using Cons.prems definition_never_panics[OF Inl] by (auto simp: send_definition_def)
    moreover have "\<not> all_delivered resolve (def # defs) rest" for rest using Inl by (simp add: all_delivered_def)
    ultimately show ?thesis by (auto simp: ok_lines_def)
  next
    case (Inr pd)
    obtain pdu dests where pd: "pd = (pdu, dests)" by (cases pd)
    note dt = Inr[unfolded pd]
    obtain s1 where s1: "send_definition cr seed resolve ?now def s = Inr s1"
    proof -
      obtain r a g where "agent_send_trap cr seed (fst ?now) (snd ?now) pdu dests (run_agent s) (run_globals s) = (r, a, g)"
        by (rule prod_cases3)
      then show thesis using that dt by (cases r) (simp_all add: send_definition_def)
    qed
    obtain new1 lines1 where 1: "delivered s1 = delivered s @ new1" "run_lines s1 = run_lines s @ lines1" "ok_lines lines1 = map fst new1"
      "length new1 \<le> length dests" "run_all_ok s1 \<longleftrightarrow> run_all_ok s \<and> dests \<noteq> [] \<and> map fst new1 = dests"
      using send_definition_spec[OF s1 dt] by blast
    have "send_definitions cr seed resolve (tl nows) defs s1 = (stop, s')" using Cons.prems s1 by simp
    from Cons.IH[OF this] obtain new2 lines2 where 2: "delivered s' = delivered s1 @ new2" "run_lines s' = run_lines s1 @ lines2"
      "ok_lines lines2 = map fst new2" "stop \<in> {ExitWith 0, ExitWith 1}"
      "\<forall>rest. all_delivered resolve defs rest \<longrightarrow> length new2 \<le> length rest"
      "stop = ExitWith 0 \<longleftrightarrow> run_all_ok s1 \<and> all_delivered resolve defs (map fst new2)" by blast
    have len: "length (map fst new1) \<le> length dests" "\<forall>rest. all_delivered resolve defs rest \<longrightarrow> length (map fst new2) \<le> length rest"
      using 1(4) 2(5) by simp_all
    have "\<forall>rest. all_delivered resolve (def # defs) rest \<longrightarrow> length (new1 @ new2) \<le> length rest"
      unfolding all_delivered_Cons[OF dt] using 1(4) 2(5) by (auto intro!: add_mono)
    moreover have "stop = ExitWith 0 \<longleftrightarrow> run_all_ok s \<and> all_delivered resolve (def # defs) (map fst (new1 @ new2))"
      unfolding 2(6) 1(5) all_delivered_Cons[OF dt] map_append delivered_twice[OF len] by blast
    ultimately show ?thesis using 1(1-3) 2(1-4) by (intro exI[of _ "new1 @ new2"] exI[of _ "lines1 @ lines2"]) simp
  qed
qed

section \<open>Engine IDs in hexadecimal\<close>

lemma printed_digit_reads:
  assumes "n < 16"
  shows "hex_value (hex_digit n) = Some n" "hex_digit n \<noteq> CHR ''+''" "(of_char (hex_digit n) :: nat) < 128"
proof -
  have c: "(of_char (hex_digit n) :: nat) = (if n < 10 then 48 + n else 55 + n)" using assms by (simp add: hex_digit_def)
  then show "hex_value (hex_digit n) = Some n" "(of_char (hex_digit n) :: nat) < 128" using assms by (auto simp: hex_value_def Let_def)
  show "hex_digit n \<noteq> CHR ''+''"
  proof
    assume "hex_digit n = CHR ''+''"
    then have "(of_char (hex_digit n) :: nat) = 43" by simp
    then show False using c by (simp split: if_splits)
  qed
qed

lemma printed_pair_reads:
  "valid_utf8_pair (hex_digit (unat b div 16)) (hex_digit (unat b mod 16))"
  "u8_from_hex_pair (hex_digit (unat b div 16)) (hex_digit (unat b mod 16)) = Some b"
proof -
  have n: "unat b div 16 < 16" "unat b mod 16 < 16" using unat_u8_less[of b] by linarith+
  have "word_of_nat (16 * (unat b div 16) + unat b mod 16) = b" unfolding mult_div_mod_eq by simp
  then show "valid_utf8_pair (hex_digit (unat b div 16)) (hex_digit (unat b mod 16))"
    "u8_from_hex_pair (hex_digit (unat b div 16)) (hex_digit (unat b mod 16)) = Some b"
    using printed_digit_reads[OF n(1)] printed_digit_reads[OF n(2)]
    by (simp_all add: valid_utf8_pair_def u8_from_hex_pair_def del: of_nat_add of_nat_mult)
qed

text \<open>The hexadecimal text that octet strings are printed in is read back.\<close>

lemma hex_round_trip: "decode_hex_engine_id (''0x'' @ fmt_hex bs) = Inr bs"
proof -
  have len: "even (length (fmt_hex bs))" by (induction bs) (auto simp: fmt_hex_def)
  have "decode_hex_pairs (fmt_hex bs) = Inr bs"
    by (induction bs) (simp_all add: fmt_hex_def printed_pair_reads)
  then show ?thesis using len by (simp add: decode_hex_engine_id_def)
qed

text \<open>Outside of it, a sign is accepted in a pair, and a character cut by the pairs makes the program panic.\<close>

lemma hex_sign_accepted: "decode_hex_engine_id ''+1+2'' = Inr [1, 2]"
  by (simp add: decode_hex_engine_id_def valid_utf8_pair_def u8_from_hex_pair_def hex_value_def)

lemma cut_character_panics: "decode_hex_engine_id [CHR ''a'', CHR 0xC3, CHR 0xA9, CHR ''b''] = Inl Panicked"
  by (simp add: decode_hex_engine_id_def valid_utf8_pair_def)

section \<open>How the trap agent starts\<close>

text \<open>A step that can stop the program only in certain ways.\<close>

definition stops_in :: "stop set \<Rightarrow> stop + 'a \<Rightarrow> bool" where
  "stops_in S x \<longleftrightarrow> (\<forall>st. x = Inl st \<longrightarrow> st \<in> S)"

named_theorems stops_intros

lemma stops_in_Inr [stops_intros]: "stops_in S (Inr a)"
  by (simp add: stops_in_def)

lemma stops_in_exit [stops_intros]: "ExitWith 1 \<in> S \<Longrightarrow> stops_in S (Inl (ExitWith 1))"
  by (simp add: stops_in_def)

lemma stops_in_rbind: "stops_in S x \<Longrightarrow> (\<And>a. x = Inr a \<Longrightarrow> stops_in S (f a)) \<Longrightarrow> stops_in S (rbind x f)"
  by (cases x) (auto simp: stops_in_def)

lemma stops_in_or_exit [stops_intros]: "ExitWith 1 \<in> S \<Longrightarrow> stops_in S (or_exit x)"
  by (cases x) (simp_all add: stops_in_def or_exit_def)

lemma stops_in_ok_or [stops_intros]: "ExitWith 1 \<in> S \<Longrightarrow> stops_in S (ok_or x (ExitWith 1))"
  by (cases x) (simp_all add: stops_in_def)

lemma stops_in_env [stops_intros]: "ExitWith 1 \<in> S \<Longrightarrow> stops_in S (env_or_exit env name)"
  unfolding env_or_exit_def by (rule stops_in_ok_or)

lemma stops_in_or_panic: "x \<noteq> None \<Longrightarrow> stops_in S (or_panic x)"
  by (auto simp: stops_in_def or_panic_def)

lemma stops_in_if [stops_intros]: "(c \<Longrightarrow> stops_in S x) \<Longrightarrow> (\<not> c \<Longrightarrow> stops_in S y) \<Longrightarrow> stops_in S (if c then x else y)"
  by simp

lemma key_derivation_defined: "crypto_ok cr \<Longrightarrow> password_to_localised_key cr pw e p \<noteq> None"
proof (cases "8 \<le> length pw")
  case True
  assume "crypto_ok cr"
  then obtain key where "password_to_localised_key cr pw e p = Some (Inr key)" by (rule derived_key[OF _ True])
  then show ?thesis by simp
qed (simp add: password_to_localised_key_def)

lemma parse_user_name_stops: "ExitWith 1 \<in> S \<Longrightarrow> stops_in S (parse_user_name_env env)"
  unfolding parse_user_name_env_def by (intro stops_in_rbind stops_intros)

lemma parse_auth_stops: "crypto_ok cr \<Longrightarrow> ExitWith 1 \<in> S \<Longrightarrow> stops_in S (parse_auth_env cr env e)"
  unfolding parse_auth_env_def by (intro stops_in_rbind stops_intros stops_in_or_panic key_derivation_defined)

text \<open>The configurations it can end with are properly constructed.\<close>

lemma parse_usm_constructed:
  assumes "parse_usm_env cr env = Inr (Some (engine_id, config))"
  shows "config_constructed config" "with_null_store config" "length (engine_id_bytes engine_id) \<le> 32"
proof -
  have l: "engine_id_try_from bs = Inr e \<Longrightarrow> length (engine_id_bytes e) \<le> 32" for bs e
    by (auto simp: engine_id_try_from_def split: if_splits)
  have c: "auth_no_priv_user_new name p key = Inr u \<Longrightarrow> user_name_new bs = Inr name \<Longrightarrow> config_constructed (ConfigAuthNoPriv u load save)"
    "auth_priv_user_new name p key q = Inr v \<Longrightarrow> user_name_new bs = Inr name \<Longrightarrow> config_constructed (ConfigAuthPriv v load save)"
    "config_constructed ConfigNoAuthNoPriv"
    for name p key q u v bs load save by (auto simp: config_constructed_def)
  show "config_constructed config" "with_null_store config" "length (engine_id_bytes engine_id) \<le> 32"
    using assms
    by (auto simp: parse_usm_env_def result_Inr_iffs or_exit_def parse_user_name_env_def with_null_store_def intro: c l
        split: option.splits if_splits)
qed

definition trap_agent_stops :: "environment \<Rightarrow> stop set" where
  "trap_agent_stops env = {ExitWith 1} \<union>
     (if \<exists>hex. env ''USM_ENGINE_ID'' = Some hex \<and> decode_hex_engine_id hex = Inl Panicked then {Panicked} else {})"

lemma decode_hex_stops: "decode_hex_engine_id hex = Inl st \<Longrightarrow> st = Panicked \<or> st = ExitWith 1"
proof -
  have "decode_hex_pairs s = Inl st \<Longrightarrow> st = Panicked \<or> st = ExitWith 1" for s
    by (induction s rule: decode_hex_pairs.induct) (auto simp: rbind_def ok_or_def split: if_splits sum.splits option.splits)
  then show "decode_hex_engine_id hex = Inl st \<Longrightarrow> st = Panicked \<or> st = ExitWith 1"
    by (auto simp: decode_hex_engine_id_def Let_def split: if_splits)
qed

lemma parse_usm_stops:
  assumes "crypto_ok cr"
  shows "stops_in (trap_agent_stops env) (parse_usm_env cr env)"
proof (cases "env ''USM_ENGINE_ID''")
  case None
  then show ?thesis by (simp add: parse_usm_env_def stops_in_Inr)
next
  case (Some hex)
  let ?S = "trap_agent_stops env"
  have e: "ExitWith 1 \<in> ?S" by (simp add: trap_agent_stops_def)
  have d: "stops_in ?S (decode_hex_engine_id hex)"
    using decode_hex_stops Some by (fastforce simp: stops_in_def trap_agent_stops_def)
  have p: "stops_in ?S (case x of (a, b) \<Rightarrow> f a b)" if "\<And>a b. stops_in ?S (f a b)" for x :: "'x \<times> 'y" and f :: "'x \<Rightarrow> 'y \<Rightarrow> stop + 'z"
    using that by (cases x) simp
  show ?thesis unfolding parse_usm_env_def Some option.case
    by (intro stops_in_rbind stops_intros d e p parse_user_name_stops parse_auth_stops[OF assms])
qed

lemma test_agent_start_stops:
  assumes "crypto_ok cr"
  shows "stops_in (trap_agent_stops env) (test_agent_start cr calls args read_to_string from_str env)"
proof -
  let ?S = "trap_agent_stops env"
  have e: "ExitWith 1 \<in> ?S" by (simp add: trap_agent_stops_def)
  have n: "agent_builder_new c \<noteq> None" for c :: "unit SecurityConfig" using agent_builder_new_total[of c] by auto
  have b: "stops_in ?S (build_or_exit calls b)" if c: "config_constructed (ab_security b)" for b
  proof -
    obtain r st where r: "build calls b () = Some (r, st)" using build_spec[OF c] by blast
    show ?thesis unfolding build_or_exit_def r or_panic_def ok_or_simps rbind_Inr prod.case by (rule stops_in_or_exit[OF e])
  qed
  have m: "stops_in ?S (let b = builder_listen_addr (SocketAddrV4 0 0) b; b = (case usm of Some (engine_id, config) \<Rightarrow> builder_engine_id engine_id b | None \<Rightarrow> b)
       in rbind (build_or_exit calls b) (\<lambda>agent. Inr (defs, agent)))"
    if "parse_usm_env cr env = Inr usm"
      "or_panic (agent_builder_new (case usm of Some (engine_id, config) \<Rightarrow> config | None \<Rightarrow> ConfigNoAuthNoPriv)) = Inr b" for usm b defs
  proof -
    let ?c = "case usm of Some (engine_id, config) \<Rightarrow> config | None \<Rightarrow> ConfigNoAuthNoPriv"
    have "ab_security b = ?c" using agent_builder_new_total[of ?c] that(2) by (auto simp: or_panic_def)
    moreover have "config_constructed ?c" using that(1) parse_usm_constructed(1)
      by (cases usm) (auto simp: config_constructed_def)
    ultimately show ?thesis unfolding Let_def
      by (intro stops_in_rbind stops_in_Inr b) (auto simp: builder_engine_id_def builder_listen_addr_def split: option.splits)
  qed
  show ?thesis unfolding test_agent_start_def
    by (intro stops_in_rbind stops_intros stops_in_or_panic n e parse_usm_stops[OF assms] m)
qed

section \<open>Properties\<close>

text \<open>The outcome of a seeded agent.\<close>

definition comes_up :: "stop + Agent \<Rightarrow> build_calls \<Rightarrow> bytes \<Rightarrow> SecurityLevel \<Rightarrow> bytes option \<Rightarrow> string \<Rightarrow> bool" where
  "comes_up outcome calls engine_id level name sys_name \<longleftrightarrow>
     (outcome = Inl (ExitWith 1) \<or> (\<exists>agent. outcome = Inr agent \<and> seeded_ready engine_id level name sys_name agent))
   \<and> (calls_succeed calls \<longrightarrow> outcome \<noteq> Inl (ExitWith 1))"

lemma start_seeded_comes_up:
  assumes "with_null_store security" "config_usm security = Some user" "config_level security = level" "config_user_ok level user"
    and "5 \<le> length engine_id" "length engine_id \<le> 32" "\<forall>i. woken i = Inr ()"
    and "name = map_option (\<lambda>u. user_name_bytes (usm_name u)) user"
  shows "comes_up (start_seeded calls woken security engine_id sys_name) calls engine_id level name sys_name"
proof -
  have ok: "config_user_ok (config_level security) user" using assms(3,4) by simp
  note r = start_seeded_ready[OF assms(1,2) ok assms(5,6), of woken calls sys_name]
  show ?thesis using r assms(3,7,8) unfolding comes_up_def by auto
qed

text \<open>C37: The agents of the system tests come up as documented: no \<open>expect\<close> of the three programs panics
  as long as waking the loop succeeds and no logger has been installed in the process before. Each either exits with 1, which it does not if the system calls succeed, or parks with
  an agent whose loop requires exactly the level of the program, for exactly the named user, and whose
  store, once the loop has drained its commands, is exactly the documented table, with the sentinel as
  its last entry.\<close>

theorem seeded_agents_come_up:
  assumes "crypto_ok cr" and "\<forall>i. woken i = Inr ()" and "log_logger log = None"
  shows "comes_up (test_agent_mib_main parse_level env log calls woken) calls ([0x80, 0x00, 0x1F, 0x88, 0x04] @ map of_char ''test-agent-mib'')
      NoAuthNoPriv None ''test-agent-mib''
    \<and> comes_up (test_agent_mib_auth_main parse_level env log cr calls woken) calls AUTH_AGENT_ENGINE_ID
      AuthNoPriv (Some (map of_char ''authuser'')) ''test-agent-mib-auth''
    \<and> comes_up (test_agent_mib_auth_priv_main parse_level env log cr calls woken) calls PRIV_AGENT_ENGINE_ID
      AuthPriv (Some (map of_char ''privuser'')) ''test-agent-mib-auth-priv''"
proof (intro conjI)
  have w: "with_null_store ConfigNoAuthNoPriv" "with_null_store (ConfigAuthNoPriv u null_store_load null_store_save)"
    "with_null_store (ConfigAuthPriv v null_store_load null_store_save)" for u v by (simp_all add: with_null_store_def)
  have l: "config_level (ConfigAuthNoPriv u load save) = AuthNoPriv" "config_level (ConfigAuthPriv v load' save') = AuthPriv"
    "config_level ConfigNoAuthNoPriv = NoAuthNoPriv" for u v load save load' save'
    by (simp_all add: config_level_def)
  have e: "5 \<le> length AUTH_AGENT_ENGINE_ID" "length AUTH_AGENT_ENGINE_ID \<le> 32"
    "5 \<le> length PRIV_AGENT_ENGINE_ID" "length PRIV_AGENT_ENGINE_ID \<le> 32"
    by (simp_all add: AUTH_AGENT_ENGINE_ID_def PRIV_AGENT_ENGINE_ID_def)
  show "comes_up (test_agent_mib_main parse_level env log calls woken) calls ([0x80, 0x00, 0x1F, 0x88, 0x04] @ map of_char ''test-agent-mib'')
      NoAuthNoPriv None ''test-agent-mib''"
    unfolding test_agent_mib_main_def logging_starts[OF assms(3)] rbind_Inr
    by (rule start_seeded_comes_up[OF w(1) _ l(3) _ _ _ assms(2)]) (simp_all add: config_usm_def config_user_ok_def)
  have pw: "8 \<le> length (map of_char ''authpassword'' :: bytes)" by simp
  obtain key where k: "password_to_localised_key cr (map of_char ''authpassword'') AUTH_AGENT_ENGINE_ID HmacSha256 = Some (Inr key)"
    "secret_key_len key = auth_key_len HmacSha256" by (rule derived_key[OF assms(1) pw])
  obtain user where u: "auth_no_priv_user_new (UserName (map of_char ''authuser'')) HmacSha256 key = Inr user"
    "config_usm (ConfigAuthNoPriv user null_store_load null_store_save) = Some (Some (usm_user_from_auth_no_priv user))"
    "config_user_ok AuthNoPriv (Some (usm_user_from_auth_no_priv user))"
    "usm_name (usm_user_from_auth_no_priv user) = UserName (map of_char ''authuser'')"
    by (rule constructed_configs[OF user_names_valid(1) k(2)])
  show "comes_up (test_agent_mib_auth_main parse_level env log cr calls woken) calls AUTH_AGENT_ENGINE_ID
      AuthNoPriv (Some (map of_char ''authuser'')) ''test-agent-mib-auth''"
    unfolding test_agent_mib_auth_main_def logging_starts[OF assms(3)] k(1) user_names_valid or_panic_def or_exit_def ok_or_simps res_ok_simps map_err_Inr rbind_Inr u(1)
    by (rule start_seeded_comes_up[OF w(2) u(2) l(1) u(3) e(1,2) assms(2)]) (simp only: option.map u(4) UserName.sel)
  obtain key' where k': "password_to_localised_key cr (map of_char ''authpassword'') PRIV_AGENT_ENGINE_ID HmacSha256 = Some (Inr key')"
    "secret_key_len key' = auth_key_len HmacSha256" by (rule derived_key[OF assms(1) pw])
  obtain user' usm where v: "auth_priv_user_new (UserName (map of_char ''privuser'')) HmacSha256 key' Aes128 = Inr user'"
    "config_usm (ConfigAuthPriv user' null_store_load null_store_save) = Some (Some usm)"
    "config_user_ok AuthPriv (Some usm)" "usm_name usm = UserName (map of_char ''privuser'')"
    by (rule constructed_priv_configs[OF user_names_valid(2) k'(2)])
  show "comes_up (test_agent_mib_auth_priv_main parse_level env log cr calls woken) calls PRIV_AGENT_ENGINE_ID
      AuthPriv (Some (map of_char ''privuser'')) ''test-agent-mib-auth-priv''"
    unfolding test_agent_mib_auth_priv_main_def logging_starts[OF assms(3)] k'(1) user_names_valid or_panic_def or_exit_def ok_or_simps res_ok_simps map_err_Inr rbind_Inr v(1)
    by (rule start_seeded_comes_up[OF w(3) v(2) l(2) v(3) e(3,4) assms(2)]) (simp only: option.map v(4) UserName.sel)
qed

theorem seeded_agents_come_up_witness:
  "\<exists>agent. test_agent_mib_auth_priv_main (\<lambda>_. None) (\<lambda>_. None) \<lparr>log_logger = None, log_max_level = 0\<rparr> checksum_crypto sample_build_calls (\<lambda>_. Inr ()) = Inr agent
    \<and> seeded_ready PRIV_AGENT_ENGINE_ID AuthPriv (Some (map of_char ''privuser'')) ''test-agent-mib-auth-priv'' agent"
proof -
  have "calls_succeed sample_build_calls" by (simp add: calls_succeed_def sample_build_calls_def sample_calls_def)
  moreover have "log_logger \<lparr>log_logger = None, log_max_level = 0\<rparr> = None" by simp
  ultimately show ?thesis using seeded_agents_come_up[OF checksum_crypto_ok, of "\<lambda>_. Inr ()" "\<lparr>log_logger = None, log_max_level = 0\<rparr>"
    "\<lambda>_. None" "\<lambda>_. None" sample_build_calls]
    unfolding comes_up_def by blast
qed


definition sample_definition :: TrapDefinition where
  "sample_definition = \<lparr>td_request_id = 1, td_trap_oid = ''1.3.6.1.4.1.99999'', td_destinations = [''h''], td_varbinds = []\<rparr>"


end
