(* ===== verification/Spec2Isabelle.thy ===== *)
theory Spec2Isabelle
  imports Security Robustness Seeds Coverage_Tool Test_Agents
begin

text \<open>
  A verification development for \<open>basic-snmp-agent\<close>, an SNMPv3 agent library written in Rust.

  \<^bold>\<open>The program.\<close> An application builds an \<open>Agent\<close> (\<open>lib.rs\<close>) from a security configuration. The
  agent owns one event loop (\<open>transport/event_loop.rs\<close>), which accepts TCP connections, cuts their
  byte streams into BER frames and hands each frame to the dispatcher (\<open>transport/dispatch.rs\<close>). The
  dispatcher decodes the message (\<open>codec/\<close>), checks engine, user, security level, MAC and time window
  (\<open>usm/\<close>), decrypts, runs the request handler (\<open>transport/request.rs\<close>) against the MIB store
  (\<open>mib.rs\<close>), and encodes a response or a report. The application sets MIB values through a command
  queue that the loop drains, and sends traps over UDP from its own thread (\<open>transport/trap.rs\<close>).

  Beside the library the repository holds a crate that builds request frames for tests, fuzz targets
  with a seed generator, four agents for the system tests, and a tool that checks requirement coverage.

  \<^bold>\<open>Theories and sources\<close>, under \<open>src/src/\<close> where no other directory is named, each importing the ones it
  uses:

  \<^item> \<open>Prelude\<close>: machine integers, the \<open>Result\<close> combinators, big-endian byte strings, and the locale
    \<open>invariant_system\<close> of a step relation that keeps an invariant.
  \<^item> \<open>Oid\<close>: \<open>codec/oid.rs\<close>. A type of valid component lists with its order, parser and printer.
  \<^item> \<open>Ber_Prim\<close>, \<open>Ber\<close>: \<open>codec/ber.rs\<close>. Primitive values; then the writer (a byte list it appends to)
    and the reader (a buffer with a position and an end). The locale \<open>reader_op\<close> is what every read
    operation keeps of the reader, \<open>field_codec\<close> that reading inverts writing; both are interpreted
    for every operation.
  \<^item> \<open>Ber_Varbind\<close>, \<open>Ber_Pdu\<close>, \<open>Ber_Snmp\<close>: \<open>codec/ber/varbind.rs\<close>, \<open>pdu.rs\<close>, \<open>snmp.rs\<close>.
  \<^item> \<open>Smi\<close>: \<open>codec/value.rs\<close> and \<open>codec/pdu/types.rs\<close>. Values, identifiers and PDU types.
  \<^item> \<open>Usm_Crypto\<close>: \<open>usm/keys.rs\<close>, \<open>kdf.rs\<close>, \<open>auth.rs\<close>, \<open>privacy.rs\<close>. \<open>Usm_User\<close>: \<open>usm/user.rs\<close>,
    \<open>security_params.rs\<close>, \<open>engine_id.rs\<close>. \<open>Usm_Engine\<close>: \<open>usm/engine_time.rs\<close>, \<open>time_window.rs\<close>,
    \<open>boots.rs\<close>, \<open>counters.rs\<close>, with the locale \<open>boots_store\<close> interpreted on the file store.
  \<^item> \<open>Codec\<close>: \<open>codec/pdu/decode.rs\<close> and \<open>encode.rs\<close>. \<open>Robustness\<close>: freedom from panics of all of it.
  \<^item> \<open>Mib\<close>: \<open>mib.rs\<close>, with the locale \<open>ordered_store\<close>. \<open>Request\<close>: \<open>transport/request.rs\<close>.
  \<^item> \<open>Dispatch\<close>: \<open>transport/dispatch.rs\<close>, \<open>dispatch/dispatch_context.rs\<close> and \<open>dispatch/report.rs\<close>.
  \<^item> \<open>Framing\<close> and \<open>Event_Loop\<close>: \<open>transport/event_loop.rs\<close>. \<open>Trap\<close>: \<open>transport/trap.rs\<close>.
  \<^item> \<open>Agent\<close>: \<open>lib.rs\<close> and \<open>error.rs\<close>. \<open>Security\<close>: what an observer or a forger achieves against a built agent.
  \<^item> \<open>Der\<close>: the encoders of \<open>codec/ber.rs\<close> compared with the distinguished encoding rules. \<open>Frames\<close>:
    \<open>src/tests/snmpv3-frames\<close>. \<open>Fuzz\<close>: \<open>src/fuzz/arbitrary_snmpv3.rs\<close>, \<open>fuzz_support.rs\<close> and \<open>fuzz_targets/\<close>.
    \<open>Seeds\<close>: \<open>src/fuzz/generate_seeds.rs\<close>.
  \<^item> \<open>Test_Agents\<close>: \<open>src/tests/test-agent\<close> and the three \<open>test-agent-mib\<close> programs with what they share.
    \<open>Coverage_Tool\<close>: \<open>src/tools/req_coverage_check.py\<close>, with the locale \<open>window_pattern\<close> of a regular
    expression of fixed width interpreted for both patterns of the tool.

  \<^bold>\<open>How code becomes definitions.\<close> Structures are records, enumerations datatypes, functions keep their
  names (with a prefix where Rust's module or type name tells two apart). \<open>u8\<close>, \<open>u32\<close>, \<open>u64\<close> and \<open>i32\<close>
  are words of that width; \<open>usize\<close> is a natural number with the 64-bit wrap-around or overflow check
  written out where the code has one. A \<open>Result\<close> is a sum with the error on the left and \<open>?\<close> is \<open>rbind\<close>;
  a slice index or an \<open>expect\<close> that could panic is a branch of its own (\<open>BerPanic\<close>, \<open>EncPanic\<close>, or \<open>None\<close>
  for the builder and the loop). State is passed explicitly: the statistics counters of the loop, the
  process-wide privacy salt counter (\<open>salt_state\<close>, \<open>None\<close> before first use) and the trap message counter.
  The cryptographic crates are a record of functions; \<open>crypto_ok\<close> states what is relied on: MACs and
  digests have the length of their protocol, verifying a truncated MAC compares it with the prefix of
  the full one, and decryption inverts encryption and keeps lengths.
  \<open>checksum_crypto\<close> is a concrete instance that satisfies it and is used by the witnesses only. The ASN.1
  library of the frame builder is a record too; \<open>rasn_ok\<close> states the documented encoding, and
  \<open>der_rasn\<close> is an instance. The parsers of JSON and TOML text and of log levels, the \<open>arbitrary\<close>
  library and name resolution are function arguments about which nothing is assumed.

  The operating system is data. A stream carries the results its coming reads and writes will have, the
  listener those of its accepts, a poll its events with the clock readings of their handlers, the file
  system a fault at any of its steps. Quantifying over these scripts covers every peer and every
  interleaving of arrivals, commands, polls and failures. Connections, a hash map in the code, are an
  association list; no theorem depends on its order.

  \<^bold>\<open>What is shown.\<close>

  \<^item> \<^emph>\<open>Dispatch\<close>: the pipeline equals a table of rejection rows tried in order. What is served was
    authentic, in time and at the configured level; a key holder is served; a response is accepted
    by its manager; a rejection bumps one counter and sends one report or changes nothing; discovery
    is answered.
  \<^item> \<^emph>\<open>Event loop\<close>: every reachable state keeps its connections within the limit, their buffers below
    one frame, and its configuration; no traffic stops or hangs it; handling an event refines a
    stream service; frames do not depend on how the network cuts them; the idle sweep and the command
    queue do exactly what they promise.
  \<^item> \<^emph>\<open>Whole agent\<close> (this theory, \<open>Agent\<close>, \<open>Trap\<close>): building is secure by construction, what a built
    agent serves in any reachable state has the security of its configuration, a request over TCP is
    answered with the handler's encoded response, a bulk response fits, values set are stored, traps
    arrive at those destinations whose send succeeded.
  \<^item> \<^emph>\<open>Codec\<close>: round trips of primitive values, OIDs, PDUs and messages; exactness of the offset of the
    authentication parameters; no initialisation vector repeats; encoding fails exactly where it
    should; decoding never panics.
  \<^item> \<^emph>\<open>USM, MIB and handlers\<close>: key derivation equals its definition, users are well formed, the time
    window is exact, boots values are never reused and their file is replaced atomically; the store
    is an ordered map; GET, GETNEXT and GETBULK answer as RFC 3416 asks.

  \<^item> \<^emph>\<open>Test programs and tools\<close>: every structured fuzz input is encoded and handled; seed generation
    completes with seeds that the agent serves; the test agents come up at their level with the
    documented MIB; the trap agent reports exactly what it sent; the verdict of the coverage checker is
    the documented rule.

  \<^bold>\<open>Termination and bounds.\<close> Loops over input are structural or have a termination proof with the unread
  bytes as measure. \<open>next_connection_token\<close> has no bound of its own in the code: it is a partial function
  into \<open>option\<close> and is shown to return as long as fewer connections are open than tokens exist.
  \<open>run\<close> takes the list of poll results, so that an infinite run is all of its finite prefixes. Sizes such as
  \<open>2 ^ 62\<close> in hypotheses stay below the 64-bit \<open>usize\<close>, so that no real message comes near them.
  Walks in \<open>Mib\<close> take a step count, and the number of entries suffices.

  \<^bold>\<open>Not modelled.\<close> The wording of error and log messages apart from strings that values carry; the
  interior of \<open>mio\<close>, of the standard library's sockets and of the cryptographic crates; threads, \<open>Arc\<close>
  and \<open>Mutex\<close>, whose only use is to share the command queue (modelled as a queue) and the trap socket;
  \<open>Send\<close>/\<open>Sync\<close> assertions, which the compiler checks; \<open>codec.rs\<close>, \<open>codec/pdu.rs\<close>, \<open>transport.rs\<close> and \<open>usm.rs\<close>,
  which hold module declarations and re-exports only; unit tests, and the
  steps of the system tests (\<open>src/tests/system\<close>), which compare the output of external commands run
  in containers with expected text.
\<close>

section \<open>Requests over a connection\<close>

lemma read_available_chunks:
  assumes "\<forall>c \<in> set chunks. c \<noteq> []"
  shows "\<exists>activity. read_available (map (\<lambda>c. ReadOk c t) chunks) conn
    = (False, conn\<lparr>conn_stream := (conn_stream conn)\<lparr>ts_reads := []\<rparr>, conn_read_buf := conn_read_buf conn @ concat chunks,
        conn_last_activity := activity\<rparr>)"
  using assms
proof (induction chunks arbitrary: conn)
  case Nil
  have "conn\<lparr>conn_stream := s, conn_read_buf := conn_read_buf conn, conn_last_activity := conn_last_activity conn\<rparr> = conn\<lparr>conn_stream := s\<rparr>" for s
    by simp
  then show ?case by (metis append_Nil2 concat.simps(1) list.map(1) read_available.simps(1))
next
  case (Cons c chunks)
  from Cons.IH[of "conn\<lparr>conn_read_buf := conn_read_buf conn @ c, conn_last_activity := t\<rparr>"] Cons.prems
  show ?case by auto
qed

lemma dispatch_frame_response:
  assumes "run_validation_pipeline cr seed (el_store el) frame (DispatchContext (dispatch_inputs b t el), salt)
      = (Inr response, (DispatchContext (dispatch_inputs b t el), salt'))"
  shows "dispatch_frame cr seed b t frame (el, salt) = (Some response, el, salt')"
proof -
  have "store_counters (dispatch_inputs b t el) el = el" by (simp add: store_counters_def dispatch_inputs_def)
  then show ?thesis using assms
    by (simp add: dispatch_frame_def dispatch_snmpv3_frame_def process_snmpv3_request_def dispatch_context_new_unchecked_def Let_def)
qed

text \<open>A frame that a holder of the user's keys encodes for a request, within the time window of a loop at a
  clock reading; and the answers of the request handlers to a sequence of requests, each encoded with
  the next privacy salt.\<close>

definition key_holder_request :: "crypto \<Rightarrow> EventLoop \<Rightarrow> Instant \<Rightarrow> UsmUser \<Rightarrow> bytes \<Rightarrow> MessageId \<times> InboundPdu \<Rightarrow> bool" where
  "key_holder_request cr el now user frame = (\<lambda>(msg_id, pdu). \<exists>seed time raw st st'.
     0 \<le> sint (message_id_i32 msg_id) \<and> unat time < 2 ^ 31
     \<and> \<bar>int (unat time) - int ((now - el_engine_start el) div 1000000000)\<bar> \<le> 150
     \<and> decode_pdu raw = Inr pdu \<and> length raw < 2 ^ 62
     \<and> encode_v3_envelope cr seed msg_id (engine_id_bytes (el_engine_id el)) (user_name_bytes (usm_name user)) []
         (engine_boots_u32 (el_engine_boots el)) time (auth_credentials_of (Some user)) (priv_credentials_of (Some user)) raw st
         = (Inr frame, st')
     \<and> length frame \<le> MAX_FRAME_SIZE
     \<and> length (concat (map wire_varbind (resp_varbinds (handle_pdu (el_store el) MSG_MAX_SIZE_UDP pdu)))) < 2 ^ 62)"

inductive answers :: "crypto \<Rightarrow> u64 \<Rightarrow> EventLoop \<Rightarrow> Instant \<Rightarrow> UsmUser \<Rightarrow> (MessageId \<times> InboundPdu) list \<Rightarrow> salt_state
    \<Rightarrow> bytes list \<Rightarrow> salt_state \<Rightarrow> bool" for cr seed el now user where
  no_answers: "answers cr seed el now user [] salt [] salt"
| next_answer: "encode_v3_response cr seed msg_id (engine_id_bytes (el_engine_id el)) (user_name_bytes (usm_name user)) []
      (engine_boots_u32 (el_engine_boots el)) (engine_time_u32 (engine_time_seconds now el))
      (auth_credentials_of (Some user)) (priv_credentials_of (Some user))
      (handle_pdu (el_store el) MSG_MAX_SIZE_UDP pdu) salt = (Inr response, salt1) \<Longrightarrow>
    answers cr seed el now user requests salt1 responses salt' \<Longrightarrow>
    answers cr seed el now user ((msg_id, pdu) # requests) salt (response # responses) salt'"

inductive_cases answers_ConsE: "answers cr seed el now user ((msg_id, pdu) # requests) salt responses salt'"

text \<open>A loop that is ready to serve its user at a clock reading.\<close>

definition serves_user :: "EventLoop \<Rightarrow> Instant \<Rightarrow> UsmUser \<Rightarrow> bool" where
  "serves_user el now user \<longleftrightarrow> el_usm_user el = Some user \<and> usm_user_wf user
     \<and> el_minimum_security_level el \<le> user_security_level user
     \<and> (\<exists>bs. engine_id_try_from bs = Inr (el_engine_id el)) \<and> length (user_name_bytes (usm_name user)) \<le> 32
     \<and> unat (engine_boots_u32 (el_engine_boots el)) < 2 ^ 31 \<and> (now - el_engine_start el) div 1000000000 < 2 ^ 31"

lemma key_holder_dispatched:
  assumes "crypto_ok cr" "serves_user el now user" "key_holder_request cr el now user frame (msg_id, pdu)"
  obtains response salt1 v where
    "dispatch_frame cr seed (el_engine_boots el) (engine_time_seconds now el) frame (el, salt) = (Some response, el, salt1)"
    "encode_v3_response cr seed msg_id (engine_id_bytes (el_engine_id el)) (user_name_bytes (usm_name user)) []
      (engine_boots_u32 (el_engine_boots el)) (engine_time_u32 (engine_time_seconds now el))
      (auth_credentials_of (Some user)) (priv_credentials_of (Some user))
      (handle_pdu (el_store el) MSG_MAX_SIZE_UDP pdu) salt = (Inr response, salt1)"
    "frame = tlv TAG_SEQUENCE v" "length frame \<le> MAX_FRAME_SIZE"
proof -
  let ?t = "engine_time_seconds now el" let ?i = "dispatch_inputs (el_engine_boots el) ?t el"
  let ?a = "auth_credentials_of (Some user)" let ?p = "priv_credentials_of (Some user)"
  obtain seed' time raw st st' where q: "0 \<le> sint (message_id_i32 msg_id)" "unat time < 2 ^ 31"
     "\<bar>int (unat time) - int ((now - el_engine_start el) div 1000000000)\<bar> \<le> 150"
     "decode_pdu raw = Inr pdu" "length raw < 2 ^ 62" "length frame \<le> MAX_FRAME_SIZE"
     "length (concat (map wire_varbind (resp_varbinds (handle_pdu (el_store el) MSG_MAX_SIZE_UDP pdu)))) < 2 ^ 62"
    and enc: "encode_v3_envelope cr seed' msg_id (engine_id_bytes (el_engine_id el)) (user_name_bytes (usm_name user)) []
       (engine_boots_u32 (el_engine_boots el)) time ?a ?p raw st = (Inr frame, st')"
    using assms(3) by (auto simp: key_holder_request_def)
  have u: "el_usm_user el = Some user" "usm_user_wf user" "el_minimum_security_level el \<le> user_security_level user"
    "length (user_name_bytes (usm_name user)) \<le> 32" "unat (engine_boots_u32 (el_engine_boots el)) < 2 ^ 31"
    "(now - el_engine_start el) div 1000000000 < 2 ^ 31"
    using assms(2) by (simp_all add: serves_user_def)
  have t: "unat (engine_time_u32 ?t) = (now - el_engine_start el) div 1000000000"
    using u(6) by (simp add: engine_time_seconds_def as_secs_def u32_try_from_u64_def unat_of_nat)
  have id: "engine_id_bytes (el_engine_id el) \<noteq> []" "length (engine_id_bytes (el_engine_id el)) \<le> 32"
    using assms(2) by (cases "el_engine_id el"; auto simp: serves_user_def engine_id_try_from_def split: if_splits)+
  have i: "ctx_inputs (DispatchContext ?i) = ?i" "di_usm_user ?i = Some user"
    "di_minimum_security_level ?i = el_minimum_security_level el" "di_engine_id ?i = engine_id_bytes (el_engine_id el)"
    "di_engine_boots ?i = el_engine_boots el" "di_engine_time ?i = ?t"
    using u(1) by (simp_all add: dispatch_inputs_def)
  obtain response salt1 where run: "run_validation_pipeline cr seed (el_store el) frame (DispatchContext ?i, salt)
      = (Inr response, (DispatchContext ?i, salt1))"
    and r: "encode_v3_response cr seed msg_id (engine_id_bytes (el_engine_id el)) (user_name_bytes (usm_name user)) []
        (engine_boots_u32 (el_engine_boots el)) (engine_time_u32 ?t) ?a ?p
        (handle_pdu (el_store el) MSG_MAX_SIZE_UDP pdu) salt = (Inr response, salt1)"
    using encoded_request_served[of cr "DispatchContext ?i" user msg_id time raw pdu seed' st frame st' "el_store el" seed salt,
        unfolded i t] assms(1) u q enc id by blast
  have "envelope_ok msg_id (engine_id_bytes (el_engine_id el)) (user_name_bytes (usm_name user)) []
      (engine_boots_u32 (el_engine_boots el)) time ?a ?p raw"
    using user_keys_ok[of "Some user"] u q id(2) by (simp add: envelope_ok_def)
  from encoded_envelope_sequence[OF assms(1) this enc] obtain v where "frame = tlv TAG_SEQUENCE v" by blast
  then show thesis using that dispatch_frame_response[OF run] r q(6) by blast
qed

text \<open>The frames of key holders are complete frames, and serving them all sends their answers.\<close>

lemma key_holder_frames:
  assumes "crypto_ok cr" "serves_user el now user" "list_all2 (key_holder_request cr el now user) frames requests"
  shows "split_frames (concat frames) = (frames, Incomplete, [])"
proof -
  have "next_complete_frame (frame @ extra) = (Complete frame, extra)" if m: "frame \<in> set frames" for frame extra
  proof -
    obtain request where "key_holder_request cr el now user frame request"
      using assms(3) m unfolding list_all2_conv_all_nth in_set_conv_nth by blast
    then obtain msg_id pdu where "key_holder_request cr el now user frame (msg_id, pdu)" by (cases request) auto
    from key_holder_dispatched[OF assms(1,2) this] obtain v where "frame = tlv TAG_SEQUENCE v" "length frame \<le> MAX_FRAME_SIZE"
      by metis
    then show ?thesis using tlv_is_frame by (simp add: MAX_FRAME_SIZE_def)
  qed
  from split_frames_unique[of frames "[]"] this show ?thesis by (simp add: split_frames_stop next_complete_frame_def)
qed

lemma key_holders_served:
  assumes "crypto_ok cr" "serves_user el now user" "list_all2 (key_holder_request cr el now user) frames requests"
    and "ts_writes stream = []"
  shows "\<exists>responses salt'. answers cr seed el now user requests salt responses salt'
    \<and> serve_frames cr seed (el_engine_boots el) (engine_time_seconds now el) frames stream (el, salt)
      = (True, [], stream\<lparr>ts_sent := ts_sent stream @ concat responses\<rparr>, el, salt')"
  using assms(3,4)
proof (induction frames requests arbitrary: stream salt rule: list_all2_induct)
  case Nil
  then show ?case by (auto intro: answers.no_answers)
next
  case (Cons frame frames request requests)
  obtain msg_id pdu where q: "request = (msg_id, pdu)" by (cases request)
  obtain response salt1 where
    d: "dispatch_frame cr seed (el_engine_boots el) (engine_time_seconds now el) frame (el, salt) = (Some response, el, salt1)"
    and r: "encode_v3_response cr seed msg_id (engine_id_bytes (el_engine_id el)) (user_name_bytes (usm_name user)) []
      (engine_boots_u32 (el_engine_boots el)) (engine_time_u32 (engine_time_seconds now el))
      (auth_credentials_of (Some user)) (priv_credentials_of (Some user))
      (handle_pdu (el_store el) MSG_MAX_SIZE_UDP pdu) salt = (Inr response, salt1)"
    using key_holder_dispatched[OF assms(1,2), of frame msg_id pdu seed salt] Cons.hyps(1) unfolding q by metis
  let ?stream = "stream\<lparr>ts_sent := ts_sent stream @ response\<rparr>"
  have w: "write_all response stream = (True, ?stream)" using Cons.prems by (simp add: write_all_def)
  obtain responses salt' where "answers cr seed el now user requests salt1 responses salt'"
    "serve_frames cr seed (el_engine_boots el) (engine_time_seconds now el) frames ?stream (el, salt1)
      = (True, [], ?stream\<lparr>ts_sent := ts_sent ?stream @ concat responses\<rparr>, el, salt')"
    using Cons.IH[of ?stream salt1] Cons.prems by auto
  then show ?case using answers.next_answer[OF r] d w q by fastforce
qed

text \<open>C5: Requests are answered over TCP: holders of the user's keys who send any number of requests within the
  time window over an open connection get, however the network cuts them into chunks, exactly the
  encoded responses of the request handler on the current MIB, in the order of the requests, sent back
  on that connection, which stays open with an empty buffer, while all other connections stay as they
  are.\<close>

theorem request_over_tcp_answered:
  assumes "crypto_ok cr" "serves_user el now user" "list_all2 (key_holder_request cr el now user) frames requests"
    and "map_of (el_connections el) token = Some conn" "conn_read_buf conn = []" "ts_writes (conn_stream conn) = []"
    and "ts_reads (conn_stream conn) = map (\<lambda>c. ReadOk c arrival) chunks" "concat chunks = concat frames" "\<forall>c \<in> set chunks. c \<noteq> []"
  shows "\<exists>responses salt' el' conn'. handle_connection_event cr seed token now (el, salt) = (el', salt')
    \<and> answers cr seed el now user requests salt responses salt'
    \<and> map_of (el_connections el') = (map_of (el_connections el))(token \<mapsto> conn') \<and> conn_read_buf conn' = []
    \<and> ts_sent (conn_stream conn') = ts_sent (conn_stream conn) @ concat responses"
proof -
  obtain activity where r: "read_available (ts_reads (conn_stream conn)) conn
      = (False, conn\<lparr>conn_stream := (conn_stream conn)\<lparr>ts_reads := []\<rparr>, conn_read_buf := concat frames, conn_last_activity := activity\<rparr>)"
    using read_available_chunks[OF assms(9), of arrival conn] assms(5,7,8) by auto
  let ?conn = "conn\<lparr>conn_stream := (conn_stream conn)\<lparr>ts_reads := []\<rparr>, conn_read_buf := concat frames, conn_last_activity := activity\<rparr>"
  have s: "split_frames (conn_read_buf ?conn) = (frames, Incomplete, [])" using key_holder_frames[OF assms(1-3)] by simp
  obtain responses salt' where a: "answers cr seed el now user requests salt responses salt'"
    and f: "serve_frames cr seed (el_engine_boots el) (engine_time_seconds now el) frames (conn_stream ?conn) (el, salt)
      = (True, [], (conn_stream ?conn)\<lparr>ts_sent := ts_sent (conn_stream ?conn) @ concat responses\<rparr>, el, salt')"
    using key_holders_served[OF assms(1-3), of "conn_stream ?conn" seed salt] assms(6) by auto
  obtain el' salt2 where h: "handle_connection_event cr seed token now (el, salt) = (el', salt2)" by fastforce
  let ?conn' = "?conn\<lparr>conn_stream := (conn_stream ?conn)\<lparr>ts_sent := ts_sent (conn_stream ?conn) @ concat responses\<rparr>, conn_read_buf := []\<rparr>"
  have "el' = put_connection token ?conn' el" "salt2 = salt'" using handle_event_serve[OF assms(4) r s f h] by auto
  then show ?thesis using a h by (intro exI[of _ responses] exI[of _ salt'] exI[of _ el'] exI[of _ ?conn']) simp
qed

theorem request_over_tcp_answered_witness:
  "\<exists>frame responses salt' el' conn'. handle_connection_event checksum_crypto 1 2 30000000000
      (sample_loop [(2, \<lparr>conn_stream = sample_stream [ReadOk (frame @ frame) 0], conn_read_buf = [], conn_last_activity = 0\<rparr>)] [], None)
      = (el', salt')
    \<and> length responses = 2
    \<and> map_of (el_connections el') 2 = Some conn' \<and> ts_sent (conn_stream conn') = concat responses"
proof -
  let ?pdu = "PduGetRequest \<lparr>get_request_id = RequestId 5, get_varbinds = []\<rparr>"
  obtain frame st' where f: "encode_v3_envelope checksum_crypto 1 (MessageId 7) [0x80, 0, 0x1F, 0x88, 4] [0x75] [] 2 100
       (auth_credentials_of (Some sample_user)) (priv_credentials_of (Some sample_user)) sample_request None = (Inr frame, st')"
    and len: "length frame < 500"
    by (rule sample_frame)
  have ne: "frame \<noteq> []" using encoded_envelope_sequence[OF checksum_crypto_ok sample_envelope_ok f] by (auto simp: tlv_def)
  let ?conn = "\<lparr>conn_stream = sample_stream [ReadOk (frame @ frame) 0], conn_read_buf = [], conn_last_activity = 0\<rparr>"
  let ?el = "sample_loop [(2, ?conn)] []"
  have s: "serves_user ?el 30000000000 sample_user"
    using sample_context_facts(2,3,7)
    by (auto simp: serves_user_def sample_loop_def sample_context_def engine_id_try_from_def intro!: exI[of _ "[0x80, 0, 0x1F, 0x88, 4]"])
  have q: "key_holder_request checksum_crypto ?el 30000000000 sample_user frame (MessageId 7, ?pdu)"
    using f len sample_request_facts unfolding key_holder_request_def prod.case
    by (intro exI[of _ 1] exI[of _ 100] exI[of _ sample_request] exI[of _ None] exI[of _ st'])
      (simp add: sample_loop_def sample_context_facts(7) MAX_FRAME_SIZE_def handle_get_def Let_def)
  have l: "list_all2 (key_holder_request checksum_crypto ?el 30000000000 sample_user) [frame, frame] [(MessageId 7, ?pdu), (MessageId 7, ?pdu)]"
    using q by simp
  have c: "map_of (el_connections ?el) 2 = Some ?conn" by (simp add: sample_loop_def)
  obtain responses salt' el' conn' where o: "handle_connection_event checksum_crypto 1 2 30000000000 (?el, None) = (el', salt')"
    "answers checksum_crypto 1 ?el 30000000000 sample_user [(MessageId 7, ?pdu), (MessageId 7, ?pdu)] None responses salt'"
    "map_of (el_connections el') = (map_of (el_connections ?el))(2 \<mapsto> conn')"
    "ts_sent (conn_stream conn') = ts_sent (conn_stream ?conn) @ concat responses"
    using request_over_tcp_answered[OF checksum_crypto_ok s l c, of 0 "[frame @ frame]" 1 None] ne by (auto simp: sample_stream_def)
  have "length responses = 2" using o(2) by (auto elim!: answers_ConsE elim: answers.cases)
  then show ?thesis using o(1,3,4) by (intro exI[of _ frame] exI[of _ responses] exI conjI) (auto simp: sample_stream_def)
qed

section \<open>Built agents\<close>

lemma level_credentials:
  assumes "usm_user_wf user" "user_security_level user \<noteq> NoAuthNoPriv"
  shows "\<exists>p k. auth_credentials_of (Some user) = Some (p, k)"
  using assms by (auto simp: user_security_level_def auth_credentials_cases usm_user_wf_def split: option.splits)

text \<open>C6: What a built agent ever serves has the security of its configuration: in every state its loop can
  reach, a request that is answered with a response carried a MAC that verifies under the user's key
  when the configuration is authenticated, was also encrypted and opened when it is authPriv, and had
  no security flags when it has no user.\<close>

theorem built_agent_serves_at_its_level:
  assumes "config_constructed (ab_security b)" "ab_max_connections b \<le> usize_limit - FIRST_CONN_TOKEN"
    and "build calls b st = Some (Inr agent, st')" "ag_loop agent = Some el"
    and "(el_step cr seed)\<^sup>*\<^sup>* (el, salt) (el', salt')"
    and "run_validation_pipeline cr seed (el_store el')
      frame (DispatchContext (dispatch_inputs (el_engine_boots el') time el'), salt') = (Inr response, s')"
    and "decode_v3_message frame = Inr msg"
  shows "(config_level (ab_security b) \<noteq> NoAuthNoPriv \<longrightarrow>
        (\<exists>p k. auth_credentials_of (el_usm_user el') = Some (p, k) \<and> verify_hmac cr p k (received_mac msg)))
    \<and> (config_level (ab_security b) = AuthPriv \<longrightarrow> is_encrypted msg)
    \<and> (config_level (ab_security b) = NoAuthNoPriv \<longrightarrow>
        \<not> is_auth (usf_security_flags (v3_usm msg)) \<and> \<not> is_priv (usf_security_flags (v3_usm msg)) \<and> \<not> is_encrypted msg)"
proof -
  obtain user boots where ok: "config_user_ok (config_level (ab_security b)) user"
    and ag: "agent_ok calls b user (config_level (ab_security b)) boots agent"
    using build_spec[OF assms(1), of calls st] assms(3) by auto
  have new: "event_loop_new (bc_new calls) (bc_loop_start calls) (ab_listen_addr b) (ab_engine_id b) (EngineBoots boots)
      user (config_level (ab_security b)) (ab_max_connections b) (ab_timeout_config b) = Inr (el, ag_bound_addr agent)"
    using ag assms(4) by (simp add: agent_ok_def)
  note n = el_inv_new[OF new]
  have "el_config el' = el_config el" using reachable_inv[OF assms(5)] n(1,8) assms(2) by simp
  then have el': "el_usm_user el' = user" "el_minimum_security_level el' = config_level (ab_security b)"
    using n(6,7) by (simp_all add: el_config_def)
  let ?i = "dispatch_inputs (el_engine_boots el') time el'"
  have i: "ctx_inputs (DispatchContext ?i) = ?i" "di_usm_user ?i = user" "di_minimum_security_level ?i = config_level (ab_security b)"
    by (simp_all add: dispatch_inputs_def el')
  note floor = served_security_floor[OF assms(6,7), unfolded i]
  have "\<exists>p k. auth_credentials_of user = Some (p, k) \<and> verify_hmac cr p k (received_mac msg)"
    if nz: "config_level (ab_security b) \<noteq> NoAuthNoPriv"
  proof -
    obtain u where u: "user = Some u" "usm_user_wf u" "user_security_level u \<noteq> NoAuthNoPriv"
      using ok nz by (cases user) (auto simp: config_user_ok_def)
    then show ?thesis using level_credentials[OF u(2,3)] floor by auto
  qed
  moreover have "user = None" if "config_level (ab_security b) = NoAuthNoPriv" using ok that by (simp add: config_user_ok_def)
  ultimately show ?thesis using floor unfolding el' by blast
qed

theorem built_agent_serves_at_its_level_witness:
  "\<exists>agent el frame msg response s'. build sample_build_calls sample_builder () = Some (Inr agent, ()) \<and> ag_loop agent = Some el
     \<and> run_validation_pipeline checksum_crypto 1 (el_store el) frame
         (DispatchContext (dispatch_inputs (el_engine_boots el) (EngineTime 30) el), None) = (Inr response, s')
     \<and> decode_v3_message frame = Inr msg \<and> is_encrypted msg"
proof -
  obtain agent where b: "build sample_build_calls sample_builder () = Some (Inr agent, ())"
    and el: "ag_loop agent = Some ((sample_loop [] [])\<lparr>el_next_token := 2\<rparr>)"
    using sample_build by blast
  let ?el = "(sample_loop [] [])\<lparr>el_next_token := 2\<rparr>"
  have i: "DispatchContext (dispatch_inputs (el_engine_boots ?el) (EngineTime 30) ?el) = sample_context" "el_store ?el = store_new"
    by (simp_all add: dispatch_inputs_def sample_loop_def sample_context_def)
  obtain frame st' where f: "encode_v3_envelope checksum_crypto 1 (MessageId 7) [0x80, 0, 0x1F, 0x88, 4] [0x75] [] 2 100
       (auth_credentials_of (Some sample_user)) (priv_credentials_of (Some sample_user)) sample_request None = (Inr frame, st')"
    by (rule sample_frame)
  obtain response salt' where run: "run_validation_pipeline checksum_crypto 1 (el_store ?el) frame
      (DispatchContext (dispatch_inputs (el_engine_boots ?el) (EngineTime 30) ?el), None) = (Inr response, (sample_context, salt'))"
    using sample_frame_served[OF f] unfolding i by blast
  obtain msg and sp :: DecodedScopedPdu where d: "decode_v3_message frame = Inr msg"
    by (rule served_obtain[OF run]) blast
  have l: "config_level (ab_security sample_builder) = AuthPriv" "ab_max_connections sample_builder \<le> usize_limit - FIRST_CONN_TOKEN"
    by (simp_all add: config_level_def sample_builder_def FIRST_CONN_TOKEN_def)
  from built_agent_serves_at_its_level[OF sample_config_constructed l(2) b el rtranclp.rtrancl_refl run d] l(1)
  have "is_encrypted msg" by simp
  with b el run d show ?thesis by blast
qed

text \<open>C16: A GETBULK response fits the requester: whatever the MIB holds, the whole encoded message, with its
  envelope, MAC and encryption, is no longer than the size the requester announced, nor than the
  largest frame, provided the non-repeating part alone is within the budget.\<close>

theorem bulk_response_fits:
  assumes "crypto_ok cr" "\<forall>user. di_usm_user (ctx_inputs ctx) = Some user \<longrightarrow> usm_user_wf user"
    and "length (di_engine_id (ctx_inputs ctx)) \<le> 32"
    and "run_validation_pipeline cr seed mib frame (ctx, salt) = (Inr response, s')"
    and "decode_v3_message frame = Inr msg" "opened cr (ctx_inputs ctx) msg = Some sp" "dsp_pdu sp = PduGetBulkRequest req"
    and "est_size (map (\<lambda>vb. resolve_get_next_varbind mib (vb_oid vb))
        (take (min (unat (bulk_non_repeaters req)) (length (bulk_varbinds req))) (bulk_varbinds req)))
      \<le> effective_max_size (v3_max_size msg) - 512"
  shows "int (length response) \<le> sint (v3_max_size msg) \<and> length response \<le> MAX_FRAME_SIZE"
proof -
  let ?i = "ctx_inputs ctx" let ?m = "effective_max_size (v3_max_size msg)"
  let ?r = "handle_pdu mib (v3_max_size msg) (dsp_pdu sp)"
  have serve: "serve cr seed mib msg (dsp_pdu sp, []) (ctx, salt) = (Inr response, s')"
    using served_obtain[OF assms(4)] assms(5,6) by (metis option.inject sum.inject(2))
  obtain raw salt' where raw: "encode_response_pdu ?r = Inr raw"
    and enc: "encode_v3_envelope cr seed (v3_msg_id msg) (di_engine_id ?i) (v3_user_name msg) []
       (engine_boots_u32 (di_engine_boots ?i)) (engine_time_u32 (di_engine_time ?i))
       (auth_credentials_of (di_usm_user ?i)) (priv_credentials_of (di_usm_user ?i)) raw salt = (Inr response, salt')"
    by (rule serve_obtain[OF serve]) blast
  have r: "?r = handle_get_bulk req mib MAX_BULK_REPETITIONS ?m" using assms(7) by simp
  obtain env where "decode_v3_envelope frame = Inr env" "v3_max_size msg = env_max_size env"
    by (rule decode_v3_message_obtain[OF assms(5)]) blast
  then have max: "484 \<le> sint (v3_max_size msg)" using decode_v3_envelope_facts(3) by simp
  have m: "int ?m \<le> sint (v3_max_size msg)" "?m \<le> MAX_FRAME_SIZE" "484 \<le> ?m"
    using max by (auto simp: effective_max_size_def MAX_FRAME_SIZE_def)
  have vb: "length (concat (map wire_varbind (resp_varbinds ?r))) \<le> ?m - 512"
    using handle_get_bulk_bounded[of ?m _ mib req MAX_BULK_REPETITIONS, OF _ refl] assms(8) m(2) unfolding r
    by (simp add: MAX_FRAME_SIZE_def)
  then have "length (concat (map wire_varbind (resp_varbinds ?r))) < 4611686018427387904" using m(2) by (simp add: MAX_FRAME_SIZE_def)
  note ok = response_envelope_ok[OF assms(2,5,3) served_engine_bounds[OF enc] raw this]
  have "length raw \<le> length (concat (map wire_varbind (resp_varbinds ?r))) + 62"
    using encode_response_pdu_spec[OF handle_pdu_error_index, of mib "v3_max_size msg" "dsp_pdu sp"] raw by (metis sum.inject(2))
  moreover have "length response \<le> 2 * length (di_engine_id ?i) + length (v3_user_name msg) + length ([] :: bytes) + length raw + 296"
    by (rule encoded_envelope_decodes[OF assms(1) ok enc]) blast
  moreover have "length (v3_user_name msg) \<le> 32" using ok by (simp add: envelope_ok_def)
  ultimately have "length response \<le> 454 + (?m - 512)" using vb assms(3) by simp
  then have "length response \<le> ?m" using m(3) by linarith
  then show ?thesis using m by linarith
qed

theorem bulk_response_fits_witness:
  "\<exists>frame response s'. run_validation_pipeline checksum_crypto 1 store_new frame (sample_context, None) = (Inr response, s')
     \<and> int (length response) \<le> sint MSG_MAX_SIZE_UDP"
proof -
  let ?raw = "tlv TAG_GET_BULK_REQUEST (pdu_body 5 0 10 (encode_varbind_list []))"
  let ?req = "\<lparr>bulk_request_id = RequestId 5, bulk_non_repeaters = 0, bulk_max_repetitions = 10, bulk_varbinds = []\<rparr> :: GetBulkRequest"
  let ?a = "auth_credentials_of (Some sample_user)" let ?p = "priv_credentials_of (Some sample_user)"
  have v: "encode_varbinds [] = Inr (encode_varbind_list [])" using encode_varbinds_wire[of "[]"] by simp
  have l: "length (encode_varbind_list []) \<le> 10" using encode_varbinds_length[OF v] by simp
  have raw: "decode_pdu ?raw = Inr (PduGetBulkRequest ?req)"
    using decode_pdu_encoded(2)[OF v, of 5 0 10] decode_encoded_varbinds[OF v] l
    by (simp add: unwrap_or_u32_def u32_try_from_i32_def)
  have len: "length ?raw < 100" using l length_pdu_le[of TAG_GET_BULK_REQUEST 5 0 10 "encode_varbind_list []"] by simp
  have ok: "envelope_ok (MessageId 7) [0x80, 0, 0x1F, 0x88, 4] [0x75] [] 2 100 ?a ?p ?raw"
    using sample_envelope_ok len by (simp add: envelope_ok_def)
  obtain frame st' where f: "encode_v3_envelope checksum_crypto 1 (MessageId 7) [0x80, 0, 0x1F, 0x88, 4] [0x75] [] 2 100 ?a ?p ?raw None
      = (Inr frame, st')"
    by (rule encode_v3_envelope_obtain[OF checksum_crypto_ok ok]) blast
  obtain msg where msg: "decode_v3_message frame = Inr msg" "v3_max_size msg = MSG_MAX_SIZE_UDP"
    "opened checksum_crypto (ctx_inputs sample_context) msg = Some \<lparr>dsp_context_engine_id = [0x80, 0, 0x1F, 0x88, 4],
       dsp_context_name = [], dsp_pdu = PduGetBulkRequest ?req\<rparr>"
    by (rule encoded_request_decodes[OF checksum_crypto_ok ok f raw, where i = "ctx_inputs sample_context"])
      (use sample_context_facts(1) in auto)
  have small: "resp_varbinds (handle_pdu store_new MSG_MAX_SIZE_UDP (PduGetBulkRequest ?req)) = []"
    by (simp add: handle_get_bulk_def Let_def)
  obtain response salt' where run: "run_validation_pipeline checksum_crypto 1 store_new frame (sample_context, None)
      = (Inr response, (sample_context, salt'))"
    using encoded_request_served[OF checksum_crypto_ok sample_context_facts(1-3), of "MessageId 7" 100 ?raw "PduGetBulkRequest ?req"
        1 None frame st' store_new 1 None] f raw len small
    by (auto simp: sample_context_facts simp del: handle_pdu.simps)
  from bulk_response_fits[OF checksum_crypto_ok _ _ run msg(1,3)] run show ?thesis
    by (auto simp: sample_context_facts est_size_def msg(2))
qed

end
